(* ===== verification/Dibi_Prelude.thy ===== *)
theory Dibi_Prelude
  imports Main "HOL-Library.Word" "HOL-Library.Char_ord" "HOL-Library.List_Lexorder"
begin

text \<open>
  What the theories of the development share: the machine integers of the C++ sources as words, the
  exceptions as values of one type, sequencing of fallible calls, the loops that serialise and parse
  a vector element by element, and the little-endian image of an integer that
  \<^verbatim>\<open>memcpy\<close> of its object representation gives on the x86-64 target.
\<close>

unbundle bit_operations_syntax

section \<open>Machine integers and strings\<close>

text \<open>
  \<^verbatim>\<open>uint64_t\<close>, \<^verbatim>\<open>size_t\<close> and
  \<^verbatim>\<open>int64_t\<close> are 64-bit words, and so on; a signed value is the same word read
  with \<open>sint\<close>. \<^verbatim>\<open>std::string\<close> is a \<open>string\<close>, whose characters are bytes.
\<close>

type_synonym byte = "8 word"
type_synonym u8 = "8 word"
type_synonym u16 = "16 word"
type_synonym u32 = "32 word"
type_synonym u64 = "64 word"

abbreviation byte_of_char :: "char \<Rightarrow> byte" where
  "byte_of_char c \<equiv> of_char c"

abbreviation char_of_byte :: "byte \<Rightarrow> char" where
  "char_of_byte b \<equiv> char_of (unat b)"

abbreviation bytes_of_string :: "string \<Rightarrow> byte list" where
  "bytes_of_string s \<equiv> map byte_of_char s"

abbreviation string_of_bytes :: "byte list \<Rightarrow> string" where
  "string_of_bytes bs \<equiv> map char_of_byte bs"

lemma sint_inj: "sint v = sint w \<Longrightarrow> v = (w :: 'a::len word)"
  by (rule signed_word_eqI)

lemma char_of_byte_of_char [simp]: "char_of_byte (byte_of_char c) = c"
proof -
  have "byte_of_char c = of_nat (of_char c)" by (simp only: of_nat_of_char)
  then have "unat (byte_of_char c) = of_char c"
    by (simp add: unat_of_nat take_bit_eq_mod of_char_mod_256)
  then show ?thesis by simp
qed

lemma char_of_byte_comp [simp]: "char_of_byte \<circ> byte_of_char = id"
  by (rule ext) simp

section \<open>Exceptions as values\<close>

text \<open>
  Every \<^verbatim>\<open>throw\<close> of the sources, under the name of the class thrown (string
  literals thrown as \<^verbatim>\<open>const char *\<close> get a constructor of their own), and
  \<open>Undefined_Behaviour\<close> for what the language leaves undefined: an access outside an array, a null
  dereference, the end of a function that has to return a value.
\<close>

datatype error =
    Buffer_Overflow
  | Blob_Error
  | Bad_Alloc
  | undefined_data_type_error
  | incompatible_data_types_error
  | uncomparable_type_error
  | schema_mismatch_error
  | non_existent_record_error
  | unknown_cql_statement
  | unspported_cql_statement string
  | invalid_argument string
  | logic_error string
  | bad_optional_access
  | bad_cast
  | out_of_range string
  | runtime_error string
  | Undefined_Behaviour

type_synonym 'a result = "error + 'a"

definition bindR :: "'a result \<Rightarrow> ('a \<Rightarrow> 'b result) \<Rightarrow> 'b result" where
  "bindR m f = (case m of Inl e \<Rightarrow> Inl e | Inr x \<Rightarrow> f x)"

text \<open>Dereferencing a pointer that may be null.\<close>

definition deref :: "'a option \<Rightarrow> 'a result" where
  "deref p = (case p of None \<Rightarrow> Inl Undefined_Behaviour | Some x \<Rightarrow> Inr x)"

text \<open>\<^verbatim>\<open>v[i]\<close> of a \<^verbatim>\<open>std::vector\<close>: undefined out of range.\<close>

definition vec_at :: "'a list \<Rightarrow> nat \<Rightarrow> 'a result" where
  "vec_at xs i = (if i < length xs then Inr (xs ! i) else Inl Undefined_Behaviour)"

lemma bindR_simps [simp]:
  "bindR (Inl e) f = Inl e"
  "bindR (Inr x) f = f x"
  by (simp_all add: bindR_def)

lemma bindR_assoc: "bindR (bindR m f) g = bindR m (\<lambda>x. bindR (f x) g)"
  by (cases m) simp_all

lemma bindR_eq_Inr: "bindR m f = Inr y \<longleftrightarrow> (\<exists>x. m = Inr x \<and> f x = Inr y)"
  by (cases m) auto

lemma bindR_eq_Inl: "bindR m f = Inl e \<longleftrightarrow> m = Inl e \<or> (\<exists>x. m = Inr x \<and> f x = Inl e)"
  by (cases m) auto

lemma deref_simps [simp]:
  "deref None = Inl Undefined_Behaviour"
  "deref (Some x) = Inr x"
  by (simp_all add: deref_def)

lemma deref_eq_Inr [simp]: "deref p = Inr x \<longleftrightarrow> p = Some x"
  by (cases p) simp_all

lemma vec_at_in [simp]: "i < length xs \<Longrightarrow> vec_at xs i = Inr (xs ! i)"
  by (simp add: vec_at_def)

section \<open>Commands: exceptions over a state that survives them\<close>

text \<open>
  A command changes a state (the files on disk, the fields of an object) and either returns or throws;
  what it changed before a throw stays changed.
\<close>

type_synonym ('s, 'a) cmd = "'s \<Rightarrow> 'a result \<times> 's"

definition bindC :: "('s, 'a) cmd \<Rightarrow> ('a \<Rightarrow> ('s, 'b) cmd) \<Rightarrow> ('s, 'b) cmd" where
  "bindC m f s = (case m s of (Inl e, s) \<Rightarrow> (Inl e, s) | (Inr x, s) \<Rightarrow> f x s)"

definition liftC :: "'a result \<Rightarrow> ('s, 'a) cmd" where
  "liftC r s = (r, s)"

lemma liftC_simps [simp]: "liftC r s = (r, s)"
  by (simp add: liftC_def)

lemma bindC_Inr [simp]: "m s = (Inr x, s') \<Longrightarrow> bindC m f s = f x s'"
  by (simp add: bindC_def)

lemma bindC_Inl [simp]: "m s = (Inl e, s') \<Longrightarrow> bindC m f s = (Inl e, s')"
  by (simp add: bindC_def)

lemma bindC_liftC [simp]:
  "bindC (liftC (Inr x)) f = f x"
  "bindC (liftC (Inl e)) f = liftC (Inl e)"
  by (rule ext, simp)+

section \<open>Loops over vectors\<close>

text \<open>
  \<open>put_all f xs\<close> is the loop that applies a fallible state change for each element of a vector, in
  order, stopping at the first exception; \<open>get_many n g\<close> is the counting loop that calls \<open>g\<close>
  \<open>n\<close> times and collects the results with \<^verbatim>\<open>push_back\<close>.
\<close>

fun put_all :: "('a \<Rightarrow> 's \<Rightarrow> 's result) \<Rightarrow> 'a list \<Rightarrow> 's \<Rightarrow> 's result" where
  "put_all f [] s = Inr s"
| "put_all f (x # xs) s = bindR (f x s) (put_all f xs)"

fun get_many :: "nat \<Rightarrow> ('s \<Rightarrow> ('a \<times> 's) result) \<Rightarrow> 's \<Rightarrow> ('a list \<times> 's) result" where
  "get_many 0 g s = Inr ([], s)"
| "get_many (Suc n) g s =
     bindR (g s) (\<lambda>(x, s). bindR (get_many n g s) (\<lambda>(xs, s). Inr (x # xs, s)))"

lemma put_all_append: "put_all f (xs @ ys) s = bindR (put_all f xs s) (put_all f ys)"
proof (induction xs arbitrary: s)
  case Nil
  show ?case by simp
next
  case (Cons x xs)
  have "put_all f (xs @ ys) = (\<lambda>s. bindR (put_all f xs s) (put_all f ys))"
    by (rule ext) (rule Cons.IH)
  then show ?case by (simp add: bindR_assoc)
qed

lemma get_many_length: "get_many n g s = Inr (xs, s') \<Longrightarrow> length xs = n"
  by (induction n arbitrary: s xs s') (auto simp: bindR_eq_Inr split: prod.splits)

section \<open>Association lists\<close>

text \<open>Replacing the value of a key by the value it has.\<close>

lemma alist_update_same:
  assumes "distinct (map fst m)" "map_of m k = Some v"
  shows "map (\<lambda>(k', v'). if k' = k then (k', v) else (k', v')) m = m"
proof (rule map_idI)
  fix e assume "e \<in> set m"
  then have "map_of m (fst e) = Some (snd e)" using assms(1) by simp
  then show "(case e of (k', v') \<Rightarrow> if k' = k then (k', v) else (k', v')) = e"
    using assms(2) by (auto split: prod.splits)
qed

section \<open>The little-endian image of an integer\<close>

definition to_le :: "nat \<Rightarrow> 'a::len word \<Rightarrow> byte list" where
  "to_le n w = map (\<lambda>i. ucast (drop_bit (8 * i) w)) [0..<n]"

fun from_le :: "byte list \<Rightarrow> 'a::len word" where
  "from_le [] = 0"
| "from_le (b # bs) = ucast b OR push_bit 8 (from_le bs)"

lemma length_to_le [simp]: "length (to_le n w) = n"
  by (simp add: to_le_def)

lemma to_le_byte: "to_le (Suc 0) (w :: byte) = [w]"
  by (simp add: to_le_def)

lemma bit_from_le:
  "bit (from_le bs :: 'a::len word) i \<longleftrightarrow>
     i < LENGTH('a) \<and> i div 8 < length bs \<and> bit (bs ! (i div 8)) (i mod 8)"
proof (induction bs arbitrary: i)
  case Nil
  then show ?case by simp
next
  case (Cons b bs)
  show ?case
  proof (cases "i < 8")
    case True
    then show ?thesis by (auto simp: bit_simps)
  next
    case False
    then obtain j where "i = j + 8" by (metis add.commute le_Suc_ex not_less)
    moreover have "bit b (j + 8) = False"
      by (simp add: bit_word.rep_eq bit_take_bit_iff)
    moreover have "(j + 8) div 8 = Suc (j div 8)" by simp
    ultimately show ?thesis
      by (auto simp: bit_simps Cons.IH)
  qed
qed

lemma from_le_to_le:
  "LENGTH('a) = 8 * n \<Longrightarrow> from_le (to_le n w) = (w :: 'a::len word)"
  by (rule bit_word_eqI)
    (auto simp: bit_from_le to_le_def bit_simps less_mult_imp_div_less mult.commute)

section \<open>Decimal numerals\<close>

text \<open>
  \<^verbatim>\<open>std::to_string\<close> of an unsigned and of a signed integer, and the value a string
  of digits denotes.
\<close>

definition digit_char :: "nat \<Rightarrow> char" where
  "digit_char d = char_of (48 + d)"

fun to_string_nat :: "nat \<Rightarrow> string" where
  "to_string_nat n =
     (if n < 10 then [digit_char n] else to_string_nat (n div 10) @ [digit_char (n mod 10)])"

declare to_string_nat.simps [simp del]

definition to_string_int :: "int \<Rightarrow> string" where
  "to_string_int i = (if i < 0 then CHR ''-'' # to_string_nat (nat (- i)) else to_string_nat (nat i))"

definition is_digit :: "char \<Rightarrow> bool" where
  "is_digit c \<longleftrightarrow> 48 \<le> (of_char c :: nat) \<and> (of_char c :: nat) \<le> 57"

definition digits_value :: "string \<Rightarrow> nat" where
  "digits_value s = foldl (\<lambda>v c. 10 * v + (of_char c - 48)) 0 s"

lemma of_char_digit [simp]: "d < 10 \<Longrightarrow> (of_char (digit_char d) :: nat) = 48 + d"
  by (simp add: digit_char_def of_char_of)

lemma is_digit_digit_char [simp]: "d < 10 \<Longrightarrow> is_digit (digit_char d)"
  by (simp add: is_digit_def)

lemma to_string_nat_digits: "c \<in> set (to_string_nat n) \<Longrightarrow> is_digit c"
proof (induction n rule: to_string_nat.induct)
  case (1 n)
  then show ?case by (subst (asm) (2) to_string_nat.simps) (auto split: if_splits)
qed

lemma to_string_nat_nonempty: "to_string_nat n \<noteq> []"
  by (subst to_string_nat.simps) simp

lemma digits_value_snoc: "digits_value (s @ [c]) = 10 * digits_value s + (of_char c - 48)"
  by (simp add: digits_value_def)

lemma digits_value_to_string: "digits_value (to_string_nat n) = n"
proof (induction n rule: to_string_nat.induct)
  case (1 n)
  then show ?case
    by (subst to_string_nat.simps) (auto simp: digits_value_snoc, simp add: digits_value_def)
qed

lemma to_string_nat_inj: "to_string_nat m = to_string_nat n \<longleftrightarrow> m = n"
  by (metis digits_value_to_string)

lemma to_string_nat_length: "n < 10 ^ k \<Longrightarrow> 0 < k \<Longrightarrow> length (to_string_nat n) \<le> k"
proof (induction n arbitrary: k rule: to_string_nat.induct)
  case (1 n)
  show ?case
  proof (cases "n < 10")
    case False
    then obtain j where j: "k = Suc j" "0 < j" using 1(2,3) by (cases k; cases "k - 1") auto
    then have "n div 10 < 10 ^ j" using 1(2) by (simp add: div_less_iff_less_mult mult.commute)
    then show ?thesis using 1(1) [OF False _ j(2)] False j(1) to_string_nat.simps [of n] by simp
  qed (use 1(3) to_string_nat.simps [of n] in simp)
qed

end
