(* ===== verification/Dht_Murmur.thy ===== *)
theory Dht_Murmur
  imports Dibi_Prelude
begin

text \<open>
  \<^verbatim>\<open>dht::MurmurHash\<close>: the hash functions of the partitioner. The key is the memory it
  is read from, a function of the 32-bit index; all arithmetic wraps at the width the source declares.
  The lemmas show which bytes a hash depends on and that \<^verbatim>\<open>inv_fmix\<close> and
  \<^verbatim>\<open>inv_hash3_x64_128\<close> invert what they claim to invert.
\<close>

type_synonym key_bytes = "u32 \<Rightarrow> u8"

section \<open>hash2\_x32\<close>

definition hash2_x32_block :: "key_bytes \<Rightarrow> u32 \<Rightarrow> u32 \<Rightarrow> u32 \<Rightarrow> u32" where
  "hash2_x32_block key offset i h =
     (let m = 0x5bd1e995;
          i_4 = push_bit 2 i;
          k = ucast (key (offset + i_4 + 3));
          k = push_bit 8 k;
          k = k OR (ucast (key (offset + i_4 + 2)) AND 0xff);
          k = push_bit 8 k;
          k = k OR (ucast (key (offset + i_4 + 1)) AND 0xff);
          k = push_bit 8 k;
          k = k OR (ucast (key (offset + i_4 + 0)) AND 0xff);
          k = k * m;
          k = k XOR drop_bit 24 k;
          k = k * m;
          h = h * m
      in h XOR k)"

definition hash2_x32 :: "key_bytes \<Rightarrow> u32 \<Rightarrow> u32 \<Rightarrow> u32 \<Rightarrow> u32" where
  "hash2_x32 key offset len seed =
     (let m = 0x5bd1e995;
          h = seed XOR len;
          len_4 = drop_bit 2 len;
          h = fold (\<lambda>i. hash2_x32_block key offset (of_nat i)) [0..<unat len_4] h;
          len_m = push_bit 2 len_4;
          left = len - len_m;
          h = (if left \<noteq> 0
               then (let h = (if 3 \<le> left then h XOR push_bit 16 (ucast (key (offset + len - 3))) else h);
                         h = (if 2 \<le> left then h XOR push_bit 8 (ucast (key (offset + len - 2))) else h);
                         h = (if 1 \<le> left then h XOR ucast (key (offset + len - 1)) else h)
                     in h * m)
               else h);
          h = h XOR drop_bit 13 h;
          h = h * m
      in h XOR drop_bit 15 h)"

section \<open>Blocks of 64 bits\<close>

definition get_block :: "key_bytes \<Rightarrow> u32 \<Rightarrow> u32 \<Rightarrow> u64" where
  "get_block key offset index =
     (let i_8 = push_bit 3 index;
          blockOffset = offset + i_8
      in (ucast (key (blockOffset + 0)) AND 0xff) +
         push_bit 8 (ucast (key (blockOffset + 1)) AND 0xff) +
         push_bit 16 (ucast (key (blockOffset + 2)) AND 0xff) +
         push_bit 24 (ucast (key (blockOffset + 3)) AND 0xff) +
         push_bit 32 (ucast (key (blockOffset + 4)) AND 0xff) +
         push_bit 40 (ucast (key (blockOffset + 5)) AND 0xff) +
         push_bit 48 (ucast (key (blockOffset + 6)) AND 0xff) +
         push_bit 56 (ucast (key (blockOffset + 7)) AND 0xff))"

section \<open>hash2\_x64\<close>

text \<open>One turn of the loop; the sum of shifted bytes is the one of \<open>get_block\<close>.\<close>

definition hash2_x64_block :: "key_bytes \<Rightarrow> u32 \<Rightarrow> u32 \<Rightarrow> u64 \<Rightarrow> u64" where
  "hash2_x64_block key offset i h64 =
     (let m64 = 0xc6a4a7935bd1e995;
          k64 = get_block key offset i;
          k64 = k64 * m64;
          k64 = k64 XOR drop_bit 47 k64;
          k64 = k64 * m64;
          h64 = h64 XOR k64
      in h64 * m64)"

text \<open>The \<^verbatim>\<open>switch\<close>, whose cases fall through.\<close>

definition hash2_x64_tail :: "key_bytes \<Rightarrow> u32 \<Rightarrow> u32 \<Rightarrow> u64 \<Rightarrow> u64" where
  "hash2_x64_tail key start rem h =
     (let h = (if 7 \<le> rem then h XOR push_bit 48 (ucast (key (start + 6))) else h);
          h = (if 6 \<le> rem then h XOR push_bit 40 (ucast (key (start + 5))) else h);
          h = (if 5 \<le> rem then h XOR push_bit 32 (ucast (key (start + 4))) else h);
          h = (if 4 \<le> rem then h XOR push_bit 24 (ucast (key (start + 3))) else h);
          h = (if 3 \<le> rem then h XOR push_bit 16 (ucast (key (start + 2))) else h);
          h = (if 2 \<le> rem then h XOR push_bit 8 (ucast (key (start + 1))) else h)
      in if 1 \<le> rem then (h XOR ucast (key start)) * 0xc6a4a7935bd1e995 else h)"

definition hash2_x64 :: "key_bytes \<Rightarrow> u32 \<Rightarrow> u32 \<Rightarrow> u64 \<Rightarrow> u64" where
  "hash2_x64 key offset len seed =
     (let m64 = 0xc6a4a7935bd1e995;
          h64 = (seed AND 0xffffffff) XOR (m64 * ucast len);
          lenLongs = drop_bit 3 len;
          h64 = fold (\<lambda>i. hash2_x64_block key offset (of_nat i)) [0..<unat lenLongs] h64;
          rem = len AND 7;
          h64 = hash2_x64_tail key (offset + len - rem) rem h64;
          h64 = h64 XOR drop_bit 47 h64;
          h64 = h64 * m64
      in h64 XOR drop_bit 47 h64)"

section \<open>hash3\_x64\_128\<close>

text \<open>Every call rotates by a constant between 1 and 63.\<close>

definition rotl64 :: "u64 \<Rightarrow> nat \<Rightarrow> u64" where
  "rotl64 v n = push_bit n v OR drop_bit (64 - n) v"

definition fmix :: "u64 \<Rightarrow> u64" where
  "fmix k =
     (let k = k XOR drop_bit 33 k;
          k = k * 0xff51afd7ed558ccd;
          k = k XOR drop_bit 33 k;
          k = k * 0xc4ceb9fe1a85ec53
      in k XOR drop_bit 33 k)"

abbreviation murmur_c1 :: u64 where "murmur_c1 \<equiv> 0x87c37b91114253d5"

abbreviation murmur_c2 :: u64 where "murmur_c2 \<equiv> 0x4cf5ad432745937f"

definition hash3_block :: "key_bytes \<Rightarrow> u32 \<Rightarrow> u32 \<Rightarrow> u64 \<times> u64 \<Rightarrow> u64 \<times> u64" where
  "hash3_block key offset i h =
     (let (h1, h2) = h;
          k1 = get_block key offset (i * 2 + 0);
          k2 = get_block key offset (i * 2 + 1);
          k1 = k1 * murmur_c1;
          k1 = rotl64 k1 31;
          k1 = k1 * murmur_c2;
          h1 = h1 XOR k1;
          h1 = rotl64 h1 27;
          h1 = h1 + h2;
          h1 = h1 * 5 + 0x52dce729;
          k2 = k2 * murmur_c2;
          k2 = rotl64 k2 33;
          k2 = k2 * murmur_c1;
          h2 = h2 XOR k2;
          h2 = rotl64 h2 31;
          h2 = h2 + h1;
          h2 = h2 * 5 + 0x38495ab5
      in (h1, h2))"

text \<open>The \<^verbatim>\<open>switch\<close> on the length of the tail, with the indices the source has.\<close>

definition hash3_tail :: "key_bytes \<Rightarrow> u32 \<Rightarrow> u32 \<Rightarrow> u64 \<times> u64 \<Rightarrow> u64 \<times> u64" where
  "hash3_tail key offset n h =
     (let (h1, h2) = h;
          k2 = 0;
          k2 = (if 15 \<le> n then k2 XOR push_bit 48 (ucast (key (offset + 1))) else k2);
          k2 = (if 14 \<le> n then k2 XOR push_bit 40 (ucast (key (offset + 1))) else k2);
          k2 = (if 13 \<le> n then k2 XOR push_bit 32 (ucast (key (offset + 1))) else k2);
          k2 = (if 12 \<le> n then k2 XOR push_bit 24 (ucast (key (offset + 1))) else k2);
          k2 = (if 11 \<le> n then k2 XOR push_bit 16 (ucast (key (offset + 1))) else k2);
          k2 = (if 10 \<le> n then k2 XOR push_bit 8 (ucast (key (offset + 9))) else k2);
          h2 = (if 9 \<le> n
                then h2 XOR (rotl64 ((k2 XOR ucast (key (offset + 8))) * murmur_c2) 33 * murmur_c1)
                else h2);
          k1 = 0;
          k1 = (if 8 \<le> n then k1 XOR push_bit 56 (ucast (key (offset + 7))) else k1);
          k1 = (if 7 \<le> n then k1 XOR push_bit 48 (ucast (key (offset + 6))) else k1);
          k1 = (if 6 \<le> n then k1 XOR push_bit 40 (ucast (key (offset + 5))) else k1);
          k1 = (if 5 \<le> n then k1 XOR push_bit 32 (ucast (key (offset + 4))) else k1);
          k1 = (if 4 \<le> n then k1 XOR push_bit 24 (ucast (key (offset + 3))) else k1);
          k1 = (if 3 \<le> n then k1 XOR push_bit 16 (ucast (key (offset + 2))) else k1);
          k1 = (if 2 \<le> n then k1 XOR push_bit 8 (ucast (key (offset + 1))) else k1);
          h1 = (if 1 \<le> n
                then h1 XOR (rotl64 ((k1 XOR ucast (key offset)) * murmur_c1) 31 * murmur_c2)
                else h1)
      in (h1, h2))"

definition hash3_final :: "u32 \<Rightarrow> u64 \<times> u64 \<Rightarrow> u64 \<times> u64" where
  "hash3_final len h =
     (let (h1, h2) = h;
          h1 = h1 XOR ucast len;
          h2 = h2 XOR ucast len;
          h1 = h1 + h2;
          h2 = h2 + h1;
          h1 = fmix h1;
          h2 = fmix h2;
          h1 = h1 + h2;
          h2 = h2 + h1
      in (h1, h2))"

definition hash3_x64_128 :: "key_bytes \<Rightarrow> u32 \<Rightarrow> u32 \<Rightarrow> u64 \<Rightarrow> u64 \<times> u64" where
  "hash3_x64_128 key offset len seed =
     (let nblocks = drop_bit 4 len;
          h = fold (\<lambda>i. hash3_block key offset (of_nat i)) [0..<unat nblocks] (seed, seed);
          offset = offset + nblocks * 16;
          h = hash3_tail key offset (len AND 15) h
      in hash3_final len h)"

section \<open>The inverses\<close>

definition inv_rotl64 :: "u64 \<Rightarrow> nat \<Rightarrow> u64" where
  "inv_rotl64 v n = drop_bit n v OR push_bit (64 - n) v"

text \<open>
  The loop of \<^verbatim>\<open>inv_rshift_xor\<close>. It is called with a shift of 33 only; for a shift of 0
  the source shifts by 64, which is undefined.
\<close>

function inv_rshift_loop :: "nat \<Rightarrow> nat \<Rightarrow> u64 \<Rightarrow> u64 \<Rightarrow> u64" where
  "inv_rshift_loop sh i v out =
     (if 0 < sh \<and> i * sh < 64
      then (let c = drop_bit (sh * i) (push_bit (64 - sh) 0xffffffffffffffff);
                partOutput = v AND c;
                v = v XOR drop_bit sh partOutput;
                out = out OR partOutput
            in inv_rshift_loop sh (i + 1) v out)
      else out)"
  by pat_completeness auto

termination
proof (relation "measure (\<lambda>(sh, i, v, out). 64 - i * sh)")
qed auto

declare inv_rshift_loop.simps [simp del]

definition inv_rshift_xor :: "u64 \<Rightarrow> nat \<Rightarrow> u64" where
  "inv_rshift_xor v sh = inv_rshift_loop sh 0 v 0"

definition inv_fmix :: "u64 \<Rightarrow> u64" where
  "inv_fmix k =
     (let k = inv_rshift_xor k 33;
          k = k * 0x9cb4b2f8129337db;
          k = inv_rshift_xor k 33;
          k = k * 0x4f74430c22a54005
      in inv_rshift_xor k 33)"

definition reverse_bytes :: "u64 \<Rightarrow> u64" where
  "reverse_bytes x =
     (let x = push_bit 32 (x AND 0x00000000FFFFFFFF) OR drop_bit 32 (x AND 0xFFFFFFFF00000000);
          x = push_bit 16 (x AND 0x0000FFFF0000FFFF) OR drop_bit 16 (x AND 0xFFFF0000FFFF0000)
      in push_bit 8 (x AND 0x00FF00FF00FF00FF) OR drop_bit 8 (x AND 0xFF00FF00FF00FF00))"

definition inv_hash3_x64_128 :: "u64 \<times> u64 \<Rightarrow> u64 \<times> u64" where
  "inv_hash3_x64_128 res =
     (let c1 = 0xa98409e882ce4d7d;
          c2 = 0xa81e14edd9de2c7f;
          (h1, h2) = res;
          h2 = h2 - h1;
          h1 = h1 - h2;
          h1 = inv_fmix h1;
          h2 = inv_fmix h2;
          h2 = h2 - h1;
          h1 = h1 - h2;
          h1 = h1 XOR 16;
          h2 = h2 XOR 16;
          h2 = h2 - 0x38495ab5;
          h2 = h2 * 0xcccccccccccccccd;
          h2 = h2 - h1;
          h2 = inv_rotl64 h2 31;
          k2 = h2;
          k2 = k2 * c1;
          k2 = inv_rotl64 k2 33;
          k2 = k2 * c2;
          h1 = h1 - 0x52dce729;
          h1 = h1 * 0xcccccccccccccccd;
          h1 = inv_rotl64 h1 27;
          k1 = h1;
          k1 = k1 * c2;
          k1 = inv_rotl64 k1 31;
          k1 = k1 * c1
      in (reverse_bytes k1, reverse_bytes k2))"

section \<open>The inverses invert\<close>

lemma inv_rotl64_rotl64:
  assumes "0 < n" "n < 64"
  shows "inv_rotl64 (rotl64 v n) n = v"
proof (rule bit_word_eqI)
  fix i assume "i < LENGTH(64)"
  then show "bit (inv_rotl64 (rotl64 v n) n) i = bit v i"
    using assms by (cases "n + i < 64") (auto simp: inv_rotl64_def rotl64_def bit_simps not_less)
qed

lemma rotl64_inv_rotl64:
  assumes "0 < n" "n < 64"
  shows "rotl64 (inv_rotl64 v n) n = v"
proof (rule bit_word_eqI)
  fix i assume "i < LENGTH(64)"
  then show "bit (rotl64 (inv_rotl64 v n) n) i = bit v i"
    using assms by (cases "i < n") (auto simp: inv_rotl64_def rotl64_def bit_simps not_less)
qed

lemma inv_rshift_xor_33: "inv_rshift_xor v 33 = v XOR drop_bit 33 v"
proof -
  let ?c = "push_bit 31 (0xffffffffffffffff :: u64)"
  have mask: "(0xffffffffffffffff :: u64) = mask 64" by (simp add: mask_eq_exp_minus_1)
  let ?p = "v AND ?c"
  have "inv_rshift_xor v 33 = ?p OR ((v XOR drop_bit 33 ?p) AND drop_bit 33 ?c)"
    by (simp add: inv_rshift_xor_def inv_rshift_loop.simps [of 33 0] Let_def
        inv_rshift_loop.simps [of 33 "Suc 0"] inv_rshift_loop.simps [of 33 "Suc (Suc 0)"])
  also have "\<dots> = v XOR drop_bit 33 v"
    unfolding mask by (rule bit_word_eqI) (auto simp: bit_simps bit_mask_iff dest: bit_imp_le_length)
  finally show ?thesis .
qed

lemma xor_shift_33: "inv_rshift_xor (k XOR drop_bit 33 k) 33 = k"
  "inv_rshift_xor k 33 XOR drop_bit 33 (inv_rshift_xor k 33) = k"
  unfolding inv_rshift_xor_33 by (rule bit_word_eqI, auto simp: bit_simps)+

text \<open>The odd constants and their inverses modulo \<open>2 ^ 64\<close>.\<close>

lemma mult_inverse: "b * c = 1 \<Longrightarrow> (w :: u64) * b * c = w"
  by (simp add: mult.assoc)

lemma fmix_constants:
  "(w :: u64) * 0xc4ceb9fe1a85ec53 * 0x9cb4b2f8129337db = w"
  "(w :: u64) * 0xff51afd7ed558ccd * 0x4f74430c22a54005 = w"
  "(w :: u64) * 0x9cb4b2f8129337db * 0xc4ceb9fe1a85ec53 = w"
  "(w :: u64) * 0x4f74430c22a54005 * 0xff51afd7ed558ccd = w"
  by (rule mult_inverse, simp)+

lemma inv_fmix_fmix: "inv_fmix (fmix k) = k"
  by (simp only: inv_fmix_def fmix_def Let_def xor_shift_33 fmix_constants)

lemma fmix_inv_fmix: "fmix (inv_fmix k) = k"
  by (simp only: inv_fmix_def fmix_def Let_def xor_shift_33 fmix_constants)

text \<open>
  The inverse of a hash of 16 bytes with seed 0 gives the two blocks of the key, their bytes reversed.
\<close>

lemma hash3_constants:
  "(w :: u64) * murmur_c1 * 0xa98409e882ce4d7d = w"
  "(w :: u64) * murmur_c2 * 0xa81e14edd9de2c7f = w"
  "(w :: u64) * 5 * 0xcccccccccccccccd = w"
  by (rule mult_inverse, simp)+

lemma inv_hash3_hash3:
  "inv_hash3_x64_128 (hash3_x64_128 key offset 16 0) =
     (reverse_bytes (get_block key offset 0), reverse_bytes (get_block key offset 1))"
proof -
  have "unat (drop_bit 4 (16 :: u32)) = 1" "(16 :: u32) AND 15 = 0" by simp_all
  then have h: "hash3_x64_128 key offset 16 0 = hash3_final 16 (hash3_block key offset 0 (0, 0))"
    by (simp add: hash3_x64_128_def hash3_tail_def Let_def split: prod.split)
  have x: "(w XOR ucast (16 :: u32)) XOR 16 = w" for w :: u64 by (simp add: xor.assoc)
  have r: "inv_rotl64 (rotl64 w 31) 31 = w" "inv_rotl64 (rotl64 w 27) 27 = w" "inv_rotl64 (rotl64 w 33) 33 = w"
    for w by (simp_all add: inv_rotl64_rotl64)
  show ?thesis
    unfolding h
    by (simp only: hash3_final_def hash3_block_def inv_hash3_x64_128_def Let_def prod.case
        add_diff_cancel_right' inv_fmix_fmix hash3_constants x r xor.left_neutral add_0_right
        add_0_left mult_zero_left)
qed

text \<open>The masks of \<^verbatim>\<open>reverse_bytes\<close> as unions of intervals of bits.\<close>

lemma reverse_masks:
  "(0x00000000FFFFFFFF :: u64) = mask 32"
  "(0xFFFFFFFF00000000 :: u64) = push_bit 32 (mask 32)"
  "(0x0000FFFF0000FFFF :: u64) = mask 16 OR push_bit 32 (mask 16)"
  "(0xFFFF0000FFFF0000 :: u64) = push_bit 16 (mask 16) OR push_bit 48 (mask 16)"
  "(0x00FF00FF00FF00FF :: u64) = mask 8 OR push_bit 16 (mask 8) OR push_bit 32 (mask 8) OR push_bit 48 (mask 8)"
  "(0xFF00FF00FF00FF00 :: u64) =
     push_bit 8 (mask 8) OR push_bit 24 (mask 8) OR push_bit 40 (mask 8) OR push_bit 56 (mask 8)"
  by (simp_all add: mask_eq_exp_minus_1)

lemma bit_reverse_bytes:
  assumes "q < 8" "r < 8"
  shows "bit (reverse_bytes x) (8 * q + r) = bit x (8 * (7 - q) + r)"
proof -
  have "q = 0 \<or> q = 1 \<or> q = 2 \<or> q = 3 \<or> q = 4 \<or> q = 5 \<or> q = 6 \<or> q = 7" using assms(1) by arith
  then show ?thesis
    using assms(2)
    by (elim disjE) (simp_all add: reverse_bytes_def Let_def reverse_masks bit_simps)
qed

section \<open>The bytes of a block\<close>

lemma add_shifted_byte:
  fixes a :: u64 and b :: u8
  assumes "\<forall>n \<ge> m. \<not> bit a n"
  shows "a + push_bit m (ucast b) = a OR push_bit m (ucast b)"
  by (rule disjunctive_add) (use assms in \<open>auto simp: bit_simps not_le\<close>)

lemma bit_byte_beyond: "8 \<le> n \<Longrightarrow> \<not> bit (b :: u8) n"
  using bit_imp_le_length [of b n] by auto

lemma block_or:
  fixes b0 b1 b2 b3 b4 b5 b6 b7 :: u8
  shows "ucast b0 + push_bit 8 (ucast b1) + push_bit 16 (ucast b2) + push_bit 24 (ucast b3) +
    push_bit 32 (ucast b4) + push_bit 40 (ucast b5) + push_bit 48 (ucast b6) + push_bit 56 (ucast b7) =
    (ucast b0 OR push_bit 8 (ucast b1) OR push_bit 16 (ucast b2) OR push_bit 24 (ucast b3) OR
    push_bit 32 (ucast b4) OR push_bit 40 (ucast b5) OR push_bit 48 (ucast b6) OR push_bit 56 (ucast b7) :: u64)"
  by (simp add: add_shifted_byte bit_simps bit_byte_beyond or.assoc)

lemma bit_get_block:
  assumes "q < 8" "r < 8"
  shows "bit (get_block key offset index) (8 * q + r) = bit (key (offset + push_bit 3 index + of_nat q)) r"
proof -
  have byte: "(ucast (b :: u8) AND 0xff :: u64) = ucast b" for b
  proof -
    have m: "(0xff :: u64) = mask 8" by (simp add: mask_eq_exp_minus_1)
    show ?thesis unfolding m by (rule bit_word_eqI) (auto simp: bit_simps dest: bit_imp_le_length)
  qed
  have "q = 0 \<or> q = 1 \<or> q = 2 \<or> q = 3 \<or> q = 4 \<or> q = 5 \<or> q = 6 \<or> q = 7" using assms(1) by arith
  then show ?thesis
    using assms(2) unfolding get_block_def Let_def byte block_or
    by (elim disjE) (simp_all add: bit_simps bit_byte_beyond)
qed

lemma reverse_bytes_inj: "reverse_bytes x = reverse_bytes y \<Longrightarrow> x = y"
proof (rule bit_word_eqI)
  fix i assume eq: "reverse_bytes x = reverse_bytes y" and i: "i < LENGTH(64)"
  have "i div 8 < 8" "i mod 8 < 8" using i by auto
  then have "bit (reverse_bytes w) (8 * (7 - i div 8) + i mod 8) = bit w i" for w
    using bit_reverse_bytes [of "7 - i div 8" "i mod 8" w] by simp
  then show "bit x i = bit y i" using eq by metis
qed

lemma get_block_inj:
  assumes "get_block key offset index = get_block key' offset' index" "q < 8"
  shows "key (offset + push_bit 3 index + of_nat q) = key' (offset' + push_bit 3 index + of_nat q)"
proof (rule bit_word_eqI)
  fix r assume "r < LENGTH(8)"
  then show "bit (key (offset + push_bit 3 index + of_nat q)) r = bit (key' (offset' + push_bit 3 index + of_nat q)) r"
    using bit_get_block [OF assms(2), of r key offset index] bit_get_block [OF assms(2), of r key' offset' index]
      assms(1) by simp
qed

section \<open>The bytes a hash depends on\<close>

text \<open>Two keys that agree on the \<open>n\<close> bytes from an offset.\<close>

definition agree :: "nat \<Rightarrow> u32 \<Rightarrow> key_bytes \<Rightarrow> key_bytes \<Rightarrow> bool" where
  "agree n offset key key' \<longleftrightarrow> (\<forall>i < n. key (offset + of_nat i) = key' (offset + of_nat i))"

lemma agreeD: "agree n offset key key' \<Longrightarrow> i < n \<Longrightarrow> key (offset + of_nat i) = key' (offset + of_nat i)"
  by (simp add: agree_def)

lemma agree_index:
  assumes "agree n offset key key'" "w = of_nat i" "i < n"
  shows "key (offset + w) = key' (offset + w)"
  using assms by (simp add: agree_def)

lemma push_bit_of_nat_word: "push_bit m (of_nat i :: u32) = of_nat (2 ^ m * i)"
  by (simp add: push_bit_eq_mult mult.commute)

lemma get_block_agree:
  assumes "agree n offset key key'" "8 * i + 8 \<le> n"
  shows "get_block key offset (of_nat i) = get_block key' offset (of_nat i)"
proof -
  have "key (offset + push_bit 3 (of_nat i) + of_nat q) = key' (offset + push_bit 3 (of_nat i) + of_nat q)"
    if "q < 8" for q
    using agreeD [OF assms(1), of "8 * i + q"] that assms(2) by (simp add: push_bit_of_nat_word add.assoc)
  from this [of 0] this [of 1] this [of 2] this [of 3] this [of 4] this [of 5] this [of 6] this [of 7]
  show ?thesis by (simp add: get_block_def Let_def)
qed

lemma fold_cong_upt: "(\<And>i h. i < n \<Longrightarrow> f i h = g i h) \<Longrightarrow> fold f [0..<n] h = fold g [0..<n] h"
  by (rule fold_cong) auto

lemma hash3_block_agree:
  assumes "agree n offset key key'" "16 * i + 16 \<le> n"
  shows "hash3_block key offset (of_nat i) h = hash3_block key' offset (of_nat i) h"
proof -
  have "get_block key offset (of_nat i * 2 + 0) = get_block key' offset (of_nat i * 2 + 0)"
    using get_block_agree [OF assms(1), of "2 * i"] assms(2) by (simp add: mult.commute)
  moreover have "get_block key offset (of_nat i * 2 + 1) = get_block key' offset (of_nat i * 2 + 1)"
    using get_block_agree [OF assms(1), of "2 * i + 1"] assms(2) by (simp add: mult.commute add.commute)
  ultimately show ?thesis by (simp only: hash3_block_def)
qed

lemma unat_shift: "unat (drop_bit m (len :: u32)) = unat len div 2 ^ m"
  unfolding unat_drop_bit_eq by (simp add: drop_bit_eq_div)

lemma shift_of_nat: "drop_bit m (len :: u32) = of_nat (unat len div 2 ^ m)"
  using unat_shift [of m len] by (metis of_nat_unat ucast_id)

lemma unat_and_low: "unat (len AND (mask m :: u32)) = unat len mod 2 ^ m"
  unfolding take_bit_eq_mask [symmetric] unsigned_take_bit_eq by (simp add: take_bit_eq_mod)

text \<open>The tail of \<^verbatim>\<open>hash3_x64_128\<close> reads at most ten bytes.\<close>

lemma hash3_tail_agree:
  assumes "\<forall>i < min n 10. key (start + of_nat i) = key' (start + of_nat i)" "unat (w :: u32) = n"
  shows "hash3_tail key start w h = hash3_tail key' start w h"
proof -
  have le: "of_nat j \<le> w \<longleftrightarrow> j \<le> n" if "j < 16" for j
    using assms(2) that by (simp add: word_le_nat_alt unat_of_nat take_bit_nat_eq_self)
  have eq: "key (start + of_nat i) = key' (start + of_nat i)" if "i < n" "i < 10" for i
    using assms(1) that by simp
  note les = le [of 1] le [of 2] le [of 3] le [of 4] le [of 5] le [of 6] le [of 7] le [of 8]
    le [of 9] le [of 10] le [of 11] le [of 12] le [of 13] le [of 14] le [of 15]
  note eqs = eq [of 0] eq [of 1] eq [of 2] eq [of 3] eq [of 4] eq [of 5] eq [of 6] eq [of 7] eq [of 8] eq [of 9]
  show ?thesis
    using les eqs by (cases h) (simp add: hash3_tail_def Let_def)
qed

lemma hash3_agree:
  assumes "agree n offset key key'" "min (unat len) (16 * (unat len div 16) + 10) \<le> n"
  shows "hash3_x64_128 key offset len seed = hash3_x64_128 key' offset len seed"
proof -
  let ?b = "unat len div 16"
  have blocks: "fold (\<lambda>i. hash3_block key offset (of_nat i)) [0..<unat (drop_bit 4 len)] h =
      fold (\<lambda>i. hash3_block key' offset (of_nat i)) [0..<unat (drop_bit 4 len)] h" for h
  proof (rule fold_cong_upt)
    fix i h assume i: "i < unat (drop_bit 4 len)"
    then have "16 * i + 16 \<le> 16 * ?b" by (simp add: unat_shift)
    moreover have "16 * ?b \<le> unat len" by simp
    ultimately have "16 * i + 16 \<le> n" using assms(2) by (auto simp: min_def split: if_splits)
    then show "hash3_block key offset (of_nat i) h = hash3_block key' offset (of_nat i) h"
      by (rule hash3_block_agree [OF assms(1)])
  qed
  have "drop_bit 4 len = of_nat ?b" using shift_of_nat [of 4 len] by simp
  then have nb: "drop_bit 4 len * 16 = of_nat (16 * ?b)" by (simp only: of_nat_mult of_nat_numeral mult.commute)
  have tail: "unat (len AND 15) = unat len mod 16" using unat_and_low [of len 4] by (simp add: mask_eq_exp_minus_1)
  have "\<forall>i < min (unat len mod 16) 10. key (offset + drop_bit 4 len * 16 + of_nat i) = key' (offset + drop_bit 4 len * 16 + of_nat i)"
  proof (intro allI impI)
    fix i assume "i < min (unat len mod 16) 10"
    moreover have "unat len = 16 * ?b + unat len mod 16" by simp
    ultimately have "16 * ?b + i < n" using assms(2) by linarith
    then show "key (offset + drop_bit 4 len * 16 + of_nat i) = key' (offset + drop_bit 4 len * 16 + of_nat i)"
      using agreeD [OF assms(1), of "16 * ?b + i"] by (simp add: nb add.assoc)
  qed
  then have "hash3_tail key (offset + drop_bit 4 len * 16) (len AND 15) h =
      hash3_tail key' (offset + drop_bit 4 len * 16) (len AND 15) h" for h
    using tail by (rule hash3_tail_agree)
  then show ?thesis using blocks by (simp only: hash3_x64_128_def Let_def)
qed

text \<open>An index counted back from the end of the key.\<close>

lemma index_back:
  assumes "j \<le> unat (len :: u32)"
  shows "offset + len - of_nat j = offset + of_nat (unat len - j)"
proof -
  have "(of_nat (unat len - j) :: u32) = of_nat (unat len) - of_nat j" using assms by (rule of_nat_diff)
  then show ?thesis by simp
qed

lemma agree_back:
  assumes "agree (unat len) offset key key'" "0 < j" "j \<le> unat len"
  shows "key (offset + len - of_nat j) = key' (offset + len - of_nat j)"
  using agreeD [OF assms(1), of "unat len - j"] assms(2,3) by (simp add: index_back)

lemma hash2_x32_agree:
  assumes "agree (unat len) offset key key'"
  shows "hash2_x32 key offset len seed = hash2_x32 key' offset len seed"
proof -
  have "hash2_x32_block key offset (of_nat i) h = hash2_x32_block key' offset (of_nat i) h"
    if "i < unat (drop_bit 2 len)" for i h
  proof -
    have "4 * i + 4 \<le> unat len" using that by (simp add: unat_shift)
    then have "key (offset + push_bit 2 (of_nat i) + of_nat q) = key' (offset + push_bit 2 (of_nat i) + of_nat q)"
      if "q < 4" for q
      using agreeD [OF assms, of "4 * i + q"] that by (simp add: push_bit_of_nat_word add.assoc)
    from this [of 0] this [of 1] this [of 2] this [of 3]
    show ?thesis by (simp add: hash2_x32_block_def Let_def)
  qed
  then have blocks: "fold (\<lambda>i. hash2_x32_block key offset (of_nat i)) [0..<unat (drop_bit 2 len)] h =
      fold (\<lambda>i. hash2_x32_block key' offset (of_nat i)) [0..<unat (drop_bit 2 len)] h" for h
    by (rule fold_cong_upt)
  let ?left = "len - push_bit 2 (drop_bit 2 len)"
  have left: "unat ?left = unat len mod 4"
  proof -
    have "?left = of_nat (unat len) - of_nat (4 * (unat len div 4))"
      by (simp only: shift_of_nat push_bit_of_nat_word) simp
    also have "\<dots> = of_nat (unat len - 4 * (unat len div 4))"
      by (rule of_nat_diff [symmetric]) simp
    also have "\<dots> = of_nat (unat len mod 4)" by (simp only: minus_mult_div_eq_mod)
    finally show ?thesis by (simp only:) (simp add: unat_of_nat take_bit_nat_eq_self mod_less_divisor [THEN less_le_trans])
  qed
  have from_end: "key (offset + len - of_nat j) = key' (offset + len - of_nat j)"
    if "of_nat j \<le> ?left" "0 < j" "j < 4" for j
  proof -
    have "unat (of_nat j :: u32) = j" using that(3) by (simp add: unat_of_nat take_bit_nat_eq_self)
    then have "j \<le> unat len mod 4" using that(1) left by (simp only: word_le_nat_alt)
    then have "j \<le> unat len" using mod_less_eq_dividend le_trans by blast
    then show ?thesis using agree_back [OF assms that(2)] by blast
  qed
  show ?thesis
    using blocks from_end [of 1] from_end [of 2] from_end [of 3] by (simp add: hash2_x32_def Let_def)
qed

lemma hash2_x64_tail_agree:
  assumes "\<forall>i < n. key (start + of_nat i) = key' (start + of_nat i)" "unat (w :: u32) = n" "n < 8"
  shows "hash2_x64_tail key start w h = hash2_x64_tail key' start w h"
proof -
  have le: "of_nat j \<le> w \<longleftrightarrow> j \<le> n" if "j < 8" for j
    using assms(2) that by (simp add: word_le_nat_alt unat_of_nat take_bit_nat_eq_self)
  note les = le [of 1] le [of 2] le [of 3] le [of 4] le [of 5] le [of 6] le [of 7]
  have eq: "key (start + of_nat i) = key' (start + of_nat i)" if "i < n" for i
    using assms(1) that by simp
  note eqs = eq [of 0] eq [of 1] eq [of 2] eq [of 3] eq [of 4] eq [of 5] eq [of 6]
  show ?thesis using les eqs by (simp add: hash2_x64_tail_def Let_def)
qed

lemma hash2_x64_agree:
  assumes "agree (unat len) offset key key'"
  shows "hash2_x64 key offset len seed = hash2_x64 key' offset len seed"
proof -
  have "hash2_x64_block key offset (of_nat i) h = hash2_x64_block key' offset (of_nat i) h"
    if "i < unat (drop_bit 3 len)" for i h
    using get_block_agree [OF assms, of i] that by (simp add: hash2_x64_block_def unat_shift)
  then have blocks: "fold (\<lambda>i. hash2_x64_block key offset (of_nat i)) [0..<unat (drop_bit 3 len)] h =
      fold (\<lambda>i. hash2_x64_block key' offset (of_nat i)) [0..<unat (drop_bit 3 len)] h" for h
    by (rule fold_cong_upt)
  let ?n = "unat len mod 8"
  have rem: "unat (len AND 7) = ?n" using unat_and_low [of len 3] by (simp add: mask_eq_exp_minus_1)
  then have "len AND 7 = of_nat ?n" by (metis of_nat_unat ucast_id)
  then have start: "offset + len - (len AND 7) = offset + of_nat (unat len - ?n)"
    using index_back [of ?n len offset] by simp
  have "\<forall>i < ?n. key (offset + len - (len AND 7) + of_nat i) = key' (offset + len - (len AND 7) + of_nat i)"
  proof (intro allI impI)
    fix i assume "i < ?n"
    moreover have "?n \<le> unat len" by simp
    ultimately have "unat len - ?n + i < unat len" by linarith
    then show "key (offset + len - (len AND 7) + of_nat i) = key' (offset + len - (len AND 7) + of_nat i)"
      using agreeD [OF assms, of "unat len - ?n + i"] unfolding start by (simp only: of_nat_add add.assoc)
  qed
  then have "hash2_x64_tail key (offset + len - (len AND 7)) (len AND 7) h =
      hash2_x64_tail key' (offset + len - (len AND 7)) (len AND 7) h" for h
    using rem by (rule hash2_x64_tail_agree) simp
  then show ?thesis using blocks by (simp only: hash2_x64_def Let_def)
qed

section \<open>Properties\<close>

text \<open>
  \<^verbatim>\<open>inv_fmix\<close> is the two-sided inverse of \<^verbatim>\<open>fmix\<close>: the
  finalisation of the hash is a permutation of the 64-bit words.
\<close>

theorem fmix_bijective: "inv_fmix (fmix k) = k \<and> fmix (inv_fmix k) = k"
  by (simp add: inv_fmix_fmix fmix_inv_fmix)

text \<open>
  Property C20. \<^verbatim>\<open>inv_hash3_x64_128\<close> recovers a key of 16 bytes from its hash with seed 0:
  the result's byte \<open>7 - q\<close> of word 0 is byte \<open>q\<close> of the key, of word 1 byte \<open>8 + q\<close>.
\<close>

theorem inv_hash3_recovers_key:
  assumes "q < 8" "r < 8"
  shows "let (k1, k2) = inv_hash3_x64_128 (hash3_x64_128 key offset 16 0) in
    bit k1 (8 * (7 - q) + r) = bit (key (offset + of_nat q)) r \<and>
    bit k2 (8 * (7 - q) + r) = bit (key (offset + 8 + of_nat q)) r"
  using bit_reverse_bytes [of "7 - q" r] bit_get_block [OF assms] assms
  by (simp add: inv_hash3_hash3)

theorem inv_hash3_recovers_key_witness:
  "let (k1, k2) = inv_hash3_x64_128 (hash3_x64_128 (\<lambda>i. ucast i) 3 16 0) in
    bit k1 (8 * (7 - 2) + 0) = bit (ucast (3 + of_nat 2 :: u32) :: u8) 0 \<and>
    bit k2 (8 * (7 - 2) + 0) = bit (ucast (3 + 8 + of_nat 2 :: u32) :: u8) 0"
  by (rule inv_hash3_recovers_key) simp_all

text \<open>
  With seed 0 no two different keys of 16 bytes have the same
  \<^verbatim>\<open>hash3_x64_128\<close>.
\<close>

theorem hash3_16_injective:
  assumes "hash3_x64_128 key offset 16 0 = hash3_x64_128 key' offset' 16 0"
  shows "\<forall>i < 16. key (offset + of_nat i) = key' (offset' + of_nat i)"
proof (intro allI impI)
  fix i :: nat assume i: "i < 16"
  have "get_block key offset 0 = get_block key' offset' 0" "get_block key offset 1 = get_block key' offset' 1"
    using inv_hash3_hash3 [of key offset] inv_hash3_hash3 [of key' offset'] assms
    by (auto dest!: reverse_bytes_inj)
  from get_block_inj [OF this(1)] get_block_inj [OF this(2)]
  have "key (offset + of_nat q) = key' (offset' + of_nat q)"
      "key (offset + of_nat (8 + q)) = key' (offset' + of_nat (8 + q))" if "q < 8" for q
    using that by (simp_all add: add.assoc)
  then show "key (offset + of_nat i) = key' (offset' + of_nat i)"
    using i by (cases "i < 8") (auto simp: not_less dest: le_Suc_ex)
qed

theorem hash3_16_injective_witness:
  "hash3_x64_128 (\<lambda>i. 7) 1 16 0 = hash3_x64_128 (\<lambda>i. 7) 5 16 0 \<and>
   hash3_x64_128 (\<lambda>i. ucast i) 0 16 0 \<noteq> hash3_x64_128 (\<lambda>i. ucast i) 1 16 0"
proof
  show "hash3_x64_128 (\<lambda>i. 7) 1 16 0 = hash3_x64_128 (\<lambda>i. 7) 5 16 0"
    by (simp add: hash3_x64_128_def hash3_block_def hash3_tail_def get_block_def Let_def)
  show "hash3_x64_128 (\<lambda>i. ucast i) 0 16 0 \<noteq> hash3_x64_128 (\<lambda>i. ucast i) 1 16 0"
    using hash3_16_injective [of "\<lambda>i. ucast i" 0 "\<lambda>i. ucast i" 1] by force
qed

text \<open>
  Property C21. Memory safety and determinism of the three hashes: each depends on the \<open>len\<close> bytes of the
  key from the offset on and on nothing else.
\<close>

theorem hashes_read_only_the_key:
  assumes "agree (unat len) offset key key'"
  shows "hash2_x32 key offset len seed = hash2_x32 key' offset len seed \<and>
    hash2_x64 key offset len seed64 = hash2_x64 key' offset len seed64 \<and>
    hash3_x64_128 key offset len seed64 = hash3_x64_128 key' offset len seed64"
  using hash2_x32_agree [OF assms] hash2_x64_agree [OF assms] hash3_agree [OF assms] by simp

theorem hashes_read_only_the_key_witness:
  "hash2_x32 (\<lambda>i. if i < 9 then 1 else 2) 4 5 6 = hash2_x32 (\<lambda>i. 1) 4 5 6 \<and>
    hash2_x64 (\<lambda>i. if i < 9 then 1 else 2) 4 5 6 = hash2_x64 (\<lambda>i. 1) 4 5 6 \<and>
    hash3_x64_128 (\<lambda>i. if i < 9 then 1 else 2) 4 5 6 = hash3_x64_128 (\<lambda>i. 1) 4 5 6"
proof (rule hashes_read_only_the_key)
  have "(4 + of_nat i :: u32) < 9" if "i < 5" for i
    using that by (simp add: word_less_nat_alt unat_word_ariths unat_of_nat take_bit_nat_eq_self)
  then show "agree (unat (5 :: u32)) 4 (\<lambda>i. if i < 9 then 1 else 2) (\<lambda>i. 1)" by (simp add: agree_def)
qed

text \<open>
  The tail of \<^verbatim>\<open>hash3_x64_128\<close> takes byte 1 where bytes 10 to 14 are meant: two
  keys that differ only in these bytes of the last incomplete block collide for every seed.
\<close>

theorem hash3_tail_collides:
  assumes "agree (16 * (unat len div 16) + 10) offset key key'"
  shows "hash3_x64_128 key offset len seed = hash3_x64_128 key' offset len seed"
  using hash3_agree [OF assms] by simp

theorem hash3_tail_collides_witness:
  "hash3_x64_128 (\<lambda>i. if i = 12 then 1 else 0) 0 15 0xFAE = hash3_x64_128 (\<lambda>i. 0) 0 15 0xFAE"
proof (rule hash3_tail_collides)
  have "(of_nat i :: u32) \<noteq> 12" if "i < 10" for i
    using that word_of_nat_eq_iff [where ?'a = 32, of i 12] by (auto simp: take_bit_nat_eq_self)
  then show "agree (16 * (unat (15 :: u32) div 16) + 10) 0 (\<lambda>i. if i = 12 then 1 else 0) (\<lambda>i. 0)"
    by (simp add: agree_def)
qed

text \<open>
  The model computes the values the repository's own tests expect of the four public
  functions.
\<close>

definition key_of :: "string \<Rightarrow> key_bytes" where
  "key_of s i = (if unat i < length s then of_char (s ! unat i) else 0)"

theorem murmur_test_vectors:
  "hash2_x32 (key_of ''hello'') 0 5 0x982 = 0x1E65961D \<and>
   hash2_x64 (key_of ''We are here'') 0 11 0x14F = 0x7A647FDF36B1E653 \<and>
   hash3_x64_128 (key_of ''Yes We are here'') 0 15 0xFAE = (0x65A621C0D6CC7865, 0x7EDC0F9358782055) \<and>
   inv_hash3_x64_128 (0, 0) = (0x5ED0B893F10C088C, 0xCF0E007BF6EDBF61)"
  by code_simp

end
