(* ===== verification/Memory_Buffer.thy ===== *)
theory Memory_Buffer
  imports Dibi_Prelude
begin

text \<open>
  \<^verbatim>\<open>util::MemoryBuffer\<close>: a byte array with a cursor, which every component that
  goes to or comes from disk is written to and read from. The first part is the class, one definition per
  method. The second part is the interface the serialisers rely on: \<open>writes bs p\<close> says that the
  buffer program \<open>p\<close> appends exactly \<open>bs\<close> or overflows, \<open>reads bs x g\<close> that \<open>g\<close> reads
  \<open>x\<close> off the bytes \<open>bs\<close>, and the locale \<open>codec\<close> is a pair of such programs.
\<close>

section \<open>The class MemoryBuffer\<close>

record MemoryBuffer =
  mb_size :: u64
  mb_offset :: u64
  mb_buf :: "byte list"

definition MemoryBuffer_new :: "u64 \<Rightarrow> MemoryBuffer" where
  "MemoryBuffer_new sz = \<lparr>mb_size = sz, mb_offset = 0, mb_buf = replicate (unat sz) 0\<rparr>"

definition MemoryBuffer_of :: "byte list \<Rightarrow> u64 \<Rightarrow> MemoryBuffer" where
  "MemoryBuffer_of buf sz = \<lparr>mb_size = sz, mb_offset = 0, mb_buf = buf\<rparr>"

definition advance :: "u64 \<Rightarrow> MemoryBuffer \<Rightarrow> MemoryBuffer" where
  "advance step b = b\<lparr>mb_offset := mb_offset b + step\<rparr>"

definition is_overflow :: "u64 \<Rightarrow> MemoryBuffer \<Rightarrow> bool" where
  "is_overflow sz b \<longleftrightarrow> sz + mb_offset b > mb_size b"

text \<open>
  The common body of the getters and of the putters: the overflow check, a
  \<^verbatim>\<open>memcpy\<close> of \<open>sz\<close> bytes at the cursor, the advance. A copy that leaves the
  array (or reads past its source) is undefined.
\<close>

definition copy_out :: "u64 \<Rightarrow> MemoryBuffer \<Rightarrow> (byte list \<times> MemoryBuffer) result" where
  "copy_out sz b =
     (if is_overflow sz b then Inl Buffer_Overflow
      else if length (mb_buf b) < unat (mb_offset b) + unat sz then Inl Undefined_Behaviour
      else Inr (take (unat sz) (drop (unat (mb_offset b)) (mb_buf b)), advance sz b))"

definition copy_in :: "byte list \<Rightarrow> u64 \<Rightarrow> MemoryBuffer \<Rightarrow> MemoryBuffer result" where
  "copy_in data sz b =
     (if is_overflow sz b then Inl Buffer_Overflow
      else if length (mb_buf b) < unat (mb_offset b) + unat sz \<or> length data < unat sz
      then Inl Undefined_Behaviour
      else Inr (advance sz (b\<lparr>mb_buf := take (unat (mb_offset b)) (mb_buf b) @ take (unat sz) data @
             drop (unat (mb_offset b) + unat sz) (mb_buf b)\<rparr>)))"

definition get_uint64 :: "MemoryBuffer \<Rightarrow> (u64 \<times> MemoryBuffer) result" where
  "get_uint64 b = bindR (copy_out 8 b) (\<lambda>(bs, b). Inr (from_le bs, b))"

definition put_uint64 :: "u64 \<Rightarrow> MemoryBuffer \<Rightarrow> MemoryBuffer result" where
  "put_uint64 data b = copy_in (to_le 8 data) 8 b"

definition get_uint32 :: "MemoryBuffer \<Rightarrow> (u32 \<times> MemoryBuffer) result" where
  "get_uint32 b = bindR (copy_out 4 b) (\<lambda>(bs, b). Inr (from_le bs, b))"

definition put_uint32 :: "u32 \<Rightarrow> MemoryBuffer \<Rightarrow> MemoryBuffer result" where
  "put_uint32 data b = copy_in (to_le 4 data) 4 b"

definition get_uint16 :: "MemoryBuffer \<Rightarrow> (u16 \<times> MemoryBuffer) result" where
  "get_uint16 b = bindR (copy_out 2 b) (\<lambda>(bs, b). Inr (from_le bs, b))"

definition put_uint16 :: "u16 \<Rightarrow> MemoryBuffer \<Rightarrow> MemoryBuffer result" where
  "put_uint16 data b = copy_in (to_le 2 data) 2 b"

definition get_uint8 :: "MemoryBuffer \<Rightarrow> (u8 \<times> MemoryBuffer) result" where
  "get_uint8 b = bindR (copy_out 1 b) (\<lambda>(bs, b). Inr (from_le bs, b))"

definition put_uint8 :: "u8 \<Rightarrow> MemoryBuffer \<Rightarrow> MemoryBuffer result" where
  "put_uint8 data b = copy_in (to_le 1 data) 1 b"

text \<open>The signed variants copy the same object representation.\<close>

definition get_int64 :: "MemoryBuffer \<Rightarrow> (u64 \<times> MemoryBuffer) result" where
  "get_int64 b = bindR (copy_out 8 b) (\<lambda>(bs, b). Inr (from_le bs, b))"

definition put_int64 :: "u64 \<Rightarrow> MemoryBuffer \<Rightarrow> MemoryBuffer result" where
  "put_int64 data b = copy_in (to_le 8 data) 8 b"

definition get_int32 :: "MemoryBuffer \<Rightarrow> (u32 \<times> MemoryBuffer) result" where
  "get_int32 b = bindR (copy_out 4 b) (\<lambda>(bs, b). Inr (from_le bs, b))"

definition put_int32 :: "u32 \<Rightarrow> MemoryBuffer \<Rightarrow> MemoryBuffer result" where
  "put_int32 data b = copy_in (to_le 4 data) 4 b"

definition get_int16 :: "MemoryBuffer \<Rightarrow> (u16 \<times> MemoryBuffer) result" where
  "get_int16 b = bindR (copy_out 2 b) (\<lambda>(bs, b). Inr (from_le bs, b))"

definition put_int16 :: "u16 \<Rightarrow> MemoryBuffer \<Rightarrow> MemoryBuffer result" where
  "put_int16 data b = copy_in (to_le 2 data) 2 b"

definition get_int8 :: "MemoryBuffer \<Rightarrow> (u8 \<times> MemoryBuffer) result" where
  "get_int8 b = bindR (copy_out 1 b) (\<lambda>(bs, b). Inr (from_le bs, b))"

definition put_int8 :: "u8 \<Rightarrow> MemoryBuffer \<Rightarrow> MemoryBuffer result" where
  "put_int8 data b = copy_in (to_le 1 data) 1 b"

text \<open>
  \<^verbatim>\<open>get_string(int size)\<close> converts \<open>sz\<close> to \<^verbatim>\<open>size_t\<close> in the
  overflow check and the advance, and its loop index runs over
  \<^verbatim>\<open>int\<close> values from \<open>(int) m_offset\<close> up to \<open>(int) (sz + m_offset)\<close>.
\<close>

definition get_string :: "u32 \<Rightarrow> MemoryBuffer \<Rightarrow> (string \<times> MemoryBuffer) result" where
  "get_string sz b =
     (let n = scast sz :: u64;
          lo = sint (ucast (mb_offset b) :: u32);
          hi = sint (ucast (n + mb_offset b) :: u32)
      in if is_overflow n b then Inl Buffer_Overflow
         else if lo < hi \<and> (lo < 0 \<or> int (length (mb_buf b)) < hi) then Inl Undefined_Behaviour
         else Inr (string_of_bytes (take (nat (hi - lo)) (drop (nat lo) (mb_buf b))), advance n b))"

definition put_string :: "string \<Rightarrow> MemoryBuffer \<Rightarrow> MemoryBuffer result" where
  "put_string data b =
     copy_in (bytes_of_string data) (scast (of_nat (length data) :: u32)) b"

text \<open>
  Floating point values are their IEEE-754 bit patterns. A \<^verbatim>\<open>bool\<close> occupies one
  byte; an object representation other than 0 or 1 is not a value of the type.
\<close>

definition get_double :: "MemoryBuffer \<Rightarrow> (u64 \<times> MemoryBuffer) result" where
  "get_double b = bindR (copy_out 8 b) (\<lambda>(bs, b). Inr (from_le bs, b))"

definition put_double :: "u64 \<Rightarrow> MemoryBuffer \<Rightarrow> MemoryBuffer result" where
  "put_double data b = copy_in (to_le 8 data) 8 b"

definition get_float :: "MemoryBuffer \<Rightarrow> (u32 \<times> MemoryBuffer) result" where
  "get_float b = bindR (copy_out 4 b) (\<lambda>(bs, b). Inr (from_le bs, b))"

definition put_float :: "u32 \<Rightarrow> MemoryBuffer \<Rightarrow> MemoryBuffer result" where
  "put_float data b = copy_in (to_le 4 data) 4 b"

definition get_boolean :: "MemoryBuffer \<Rightarrow> (bool \<times> MemoryBuffer) result" where
  "get_boolean b = bindR (copy_out 1 b) (\<lambda>(bs, b).
     if bs = [0] then Inr (False, b) else if bs = [1] then Inr (True, b) else Inl Undefined_Behaviour)"

definition put_boolean :: "bool \<Rightarrow> MemoryBuffer \<Rightarrow> MemoryBuffer result" where
  "put_boolean data b = copy_in [if data then 1 else 0] 1 b"

text \<open>
  \<^verbatim>\<open>get_blob(int size)\<close> allocates \<open>sz\<close> bytes, and a negative count, converted to
  \<^verbatim>\<open>size_t\<close>, makes the allocation fail: the count is at least \<open>2 ^ 63\<close>.
\<close>

definition get_blob :: "u32 \<Rightarrow> MemoryBuffer \<Rightarrow> (byte list \<times> MemoryBuffer) result" where
  "get_blob sz b =
     (if is_overflow (scast sz) b then Inl Buffer_Overflow
      else if sint sz < 0 then Inl Bad_Alloc
      else copy_out (scast sz) b)"

definition put_blob :: "byte list \<Rightarrow> u32 \<Rightarrow> MemoryBuffer \<Rightarrow> MemoryBuffer result" where
  "put_blob data sz b = copy_in data (scast sz) b"

text \<open>
  \<^verbatim>\<open>bytes()\<close> copies the array with an \<^verbatim>\<open>int\<close> index up to
  \<open>(int) m_size\<close> into a zeroed array of \<open>m_size\<close> bytes.
\<close>

definition MemoryBuffer_bytes :: "MemoryBuffer \<Rightarrow> byte list" where
  "MemoryBuffer_bytes b =
     (let n = nat (sint (ucast (mb_size b) :: u32))
      in take n (mb_buf b) @ replicate (unat (mb_size b) - n) 0)"

section \<open>The invariant and the cursor\<close>

text \<open>
  An object the constructors make has the array its size announces, and an array is never larger than
  the largest object (\<open>2 ^ 63 - 1\<close> bytes). \<open>buf_small\<close> is the range in which the
  \<^verbatim>\<open>int\<close> indices of \<open>get_string\<close> and \<open>bytes\<close> do not wrap.
\<close>

definition buf_ok :: "MemoryBuffer \<Rightarrow> bool" where
  "buf_ok b \<longleftrightarrow> length (mb_buf b) = unat (mb_size b) \<and> unat (mb_offset b) \<le> length (mb_buf b) \<and>
     length (mb_buf b) < 2 ^ 31"

definition room :: "nat \<Rightarrow> MemoryBuffer \<Rightarrow> bool" where
  "room n b \<longleftrightarrow> unat (mb_offset b) + n \<le> length (mb_buf b)"

definition rest :: "MemoryBuffer \<Rightarrow> byte list" where
  "rest b = drop (unat (mb_offset b)) (mb_buf b)"

definition skip :: "nat \<Rightarrow> MemoryBuffer \<Rightarrow> MemoryBuffer" where
  "skip n b = b\<lparr>mb_offset := mb_offset b + of_nat n\<rparr>"

definition emit :: "byte list \<Rightarrow> MemoryBuffer \<Rightarrow> MemoryBuffer" where
  "emit bs b = b\<lparr>mb_offset := mb_offset b + of_nat (length bs),
     mb_buf := take (unat (mb_offset b)) (mb_buf b) @ bs @
       drop (unat (mb_offset b) + length bs) (mb_buf b)\<rparr>"

lemma emit_skip_sel [simp]:
  "mb_size (skip n b) = mb_size b"
  "mb_buf (skip n b) = mb_buf b"
  "mb_size (emit bs b) = mb_size b"
  by (simp_all add: skip_def emit_def)

lemma skip_0 [simp]: "skip 0 b = b"
  by (simp add: skip_def)

lemma skip_skip [simp]: "skip m (skip n b) = skip (n + m) b"
  by (simp add: skip_def add.assoc)

lemma emit_Nil [simp]: "emit [] b = b"
  by (simp add: emit_def)

lemma unat_offset_add:
  assumes "buf_ok b" "n < 2 ^ 63"
  shows "unat (mb_offset b + of_nat n) = unat (mb_offset b) + n"
proof -
  have "unat (mb_offset b) + n < 2 ^ 64" "unat (of_nat n :: u64) = n"
    using assms by (simp_all add: buf_ok_def unat_of_nat take_bit_nat_eq_self)
  then show ?thesis by (simp add: unat_word_ariths)
qed

lemma unat_offset_skip:
  "buf_ok b \<Longrightarrow> n < 2 ^ 63 \<Longrightarrow> unat (mb_offset (skip n b)) = unat (mb_offset b) + n"
  by (simp add: skip_def unat_offset_add)

lemma room_less: "buf_ok b \<Longrightarrow> room n b \<Longrightarrow> n < 2 ^ 31"
  by (simp add: buf_ok_def room_def)

lemma unat_offset_emit:
  assumes "buf_ok b" "room (length bs) b"
  shows "unat (mb_offset (emit bs b)) = unat (mb_offset b) + length bs"
  using unat_offset_add [OF assms(1), of "length bs"] room_less [OF assms]
  by (simp add: emit_def)

lemma length_emit:
  "room (length bs) b \<Longrightarrow> length (mb_buf (emit bs b)) = length (mb_buf b)"
  by (simp add: emit_def room_def)

lemma buf_ok_skip: "buf_ok b \<Longrightarrow> room n b \<Longrightarrow> buf_ok (skip n b)"
  using unat_offset_skip [of b n] room_less [of b n] by (simp add: buf_ok_def room_def)

lemma buf_ok_emit: "buf_ok b \<Longrightarrow> room (length bs) b \<Longrightarrow> buf_ok (emit bs b)"
  using unat_offset_emit [of b bs] length_emit [of bs b] by (simp add: buf_ok_def room_def)

lemma room_skip: "buf_ok b \<Longrightarrow> room n b \<Longrightarrow> room m (skip n b) \<longleftrightarrow> room (n + m) b"
  using unat_offset_skip [of b n] room_less [of b n] by (simp add: room_def add.assoc)

lemma room_emit:
  "buf_ok b \<Longrightarrow> room (length bs) b \<Longrightarrow> room m (emit bs b) \<longleftrightarrow> room (length bs + m) b"
  using unat_offset_emit [of b bs] length_emit [of bs b] by (simp add: room_def add.assoc)

lemma rest_skip: "buf_ok b \<Longrightarrow> room n b \<Longrightarrow> rest (skip n b) = drop n (rest b)"
  using unat_offset_skip [of b n] room_less [of b n] by (simp add: rest_def add.commute)

lemma room_mono: "room n b \<Longrightarrow> m \<le> n \<Longrightarrow> room m b"
  by (simp add: room_def)

lemma room_rest: "unat (mb_offset b) \<le> length (mb_buf b) \<Longrightarrow> room n b \<longleftrightarrow> n \<le> length (rest b)"
  by (auto simp: room_def rest_def)

lemma emit_emit:
  assumes ok: "buf_ok b" and r: "room (length xs + length ys) b"
  shows "emit ys (emit xs b) = emit (xs @ ys) b"
proof -
  have r': "room (length xs) b" using r by (rule room_mono) simp
  have o: "unat (mb_offset b + of_nat (length xs)) = unat (mb_offset b) + length xs"
    using unat_offset_emit [OF ok r'] by (simp add: emit_def)
  have l: "unat (mb_offset b) \<le> length (mb_buf b)" using ok by (simp add: buf_ok_def)
  show ?thesis
    using l by (simp add: emit_def o min_absorb1 ac_simps)
qed

section \<open>What the two copy loops do under the invariant\<close>

lemma is_overflow_iff:
  assumes "buf_ok b" "n < 2 ^ 63"
  shows "is_overflow (of_nat n) b \<longleftrightarrow> \<not> room n b"
  using assms unat_offset_add [OF assms]
  by (auto simp: is_overflow_def room_def word_less_nat_alt buf_ok_def add.commute)

lemma copy_out_eq:
  assumes "buf_ok b" "n < 2 ^ 63"
  shows "copy_out (of_nat n) b =
    (if room n b then Inr (take n (rest b), skip n b) else Inl Buffer_Overflow)"
proof -
  have "unat (of_nat n :: u64) = n"
    using assms(2) by (simp add: unat_of_nat take_bit_nat_eq_self)
  then show ?thesis
    using is_overflow_iff [OF assms]
    by (auto simp: copy_out_def rest_def skip_def advance_def room_def)
qed

lemma copy_in_eq:
  assumes "buf_ok b" "length data = n" "n < 2 ^ 63"
  shows "copy_in data (of_nat n) b = (if room n b then Inr (emit data b) else Inl Buffer_Overflow)"
proof -
  have "unat (of_nat n :: u64) = n"
    using assms(3) by (simp add: unat_of_nat take_bit_nat_eq_self)
  then show ?thesis
    using is_overflow_iff [OF assms(1,3)] assms(2)
    by (auto simp: copy_in_def emit_def advance_def room_def)
qed

section \<open>The serialisation interface\<close>

text \<open>
  \<open>writes bs p\<close>: started in a good buffer, \<open>p\<close> puts \<open>bs\<close> at the cursor when there is room for
  all of it and throws the overflow otherwise. \<open>reads bs x g\<close>: wherever the bytes at the cursor
  start with \<open>bs\<close>, \<open>g\<close> returns \<open>x\<close> and steps over exactly these bytes.
\<close>

definition writes :: "byte list \<Rightarrow> (MemoryBuffer \<Rightarrow> MemoryBuffer result) \<Rightarrow> bool" where
  "writes bs p \<longleftrightarrow> (\<forall>b. buf_ok b \<longrightarrow>
     p b = (if room (length bs) b then Inr (emit bs b) else Inl Buffer_Overflow))"

definition reads :: "byte list \<Rightarrow> 'a \<Rightarrow> (MemoryBuffer \<Rightarrow> ('a \<times> MemoryBuffer) result) \<Rightarrow> bool" where
  "reads bs x g \<longleftrightarrow> (\<forall>b. buf_ok b \<longrightarrow> take (length bs) (rest b) = bs \<longrightarrow>
     g b = Inr (x, skip (length bs) b))"

named_theorems codec_intros

lemma writesI:
  "(\<And>b. buf_ok b \<Longrightarrow> p b = (if room (length bs) b then Inr (emit bs b) else Inl Buffer_Overflow)) \<Longrightarrow>
   writes bs p"
  by (simp add: writes_def)

lemma writesD:
  "writes bs p \<Longrightarrow> buf_ok b \<Longrightarrow>
   p b = (if room (length bs) b then Inr (emit bs b) else Inl Buffer_Overflow)"
  by (simp add: writes_def)

lemma prefix_room:
  assumes "buf_ok b" "take (length bs) (rest b) = bs"
  shows "room (length bs) b"
proof -
  have "length bs \<le> length (rest b)"
    by (metis assms(2) length_take min.cobounded1)
  then show ?thesis using assms(1) by (simp add: room_rest buf_ok_def)
qed

lemma readsI:
  "(\<And>b. buf_ok b \<Longrightarrow> room (length bs) b \<Longrightarrow> take (length bs) (rest b) = bs \<Longrightarrow>
     g b = Inr (x, skip (length bs) b)) \<Longrightarrow> reads bs x g"
  by (simp add: reads_def prefix_room)

lemma readsD:
  "reads bs x g \<Longrightarrow> buf_ok b \<Longrightarrow> take (length bs) (rest b) = bs \<Longrightarrow>
   g b = Inr (x, skip (length bs) b)"
  by (simp add: reads_def)

lemma writes_Nil: "writes [] Inr"
  by (rule writesI) (simp add: room_def buf_ok_def)

lemma reads_Nil: "reads [] x (\<lambda>b. Inr (x, b))"
  by (rule readsI) simp

text \<open>Sequencing: the bytes are concatenated, a failing component fails the whole.\<close>

lemma writes_bind:
  assumes p: "writes xs p" and q: "writes ys q"
  shows "writes (xs @ ys) (\<lambda>b. bindR (p b) q)"
proof (rule writesI)
  fix b assume ok: "buf_ok b"
  show "bindR (p b) q =
    (if room (length (xs @ ys)) b then Inr (emit (xs @ ys) b) else Inl Buffer_Overflow)"
  proof (cases "room (length xs) b")
    case True
    then have "q (emit xs b) = (if room (length xs + length ys) b then Inr (emit ys (emit xs b))
        else Inl Buffer_Overflow)"
      using writesD [OF q buf_ok_emit [OF ok True]] room_emit [OF ok True] by simp
    with True show ?thesis
      by (simp add: writesD [OF p ok] emit_emit [OF ok])
  next
    case False
    then have "\<not> room (length xs + length ys) b" using room_mono by fastforce
    with False show ?thesis by (simp add: writesD [OF p ok])
  qed
qed

lemma reads_bind:
  assumes g: "reads xs x g" and h: "reads ys y (h x)"
  shows "reads (xs @ ys) y (\<lambda>b. bindR (g b) (\<lambda>(x, b). h x b))"
proof (rule readsI)
  fix b assume ok: "buf_ok b" and r: "room (length (xs @ ys)) b"
    and tk: "take (length (xs @ ys)) (rest b) = xs @ ys"
  have r': "room (length xs) b" using r by (rule room_mono) simp
  have tx: "take (length xs) (rest b) = xs"
    using arg_cong [OF tk, of "take (length xs)"] by (simp add: min_def)
  have ty: "take (length ys) (rest (skip (length xs) b)) = ys"
    using arg_cong [OF tk, of "drop (length xs)"] by (simp add: rest_skip [OF ok r'] drop_take)
  show "bindR (g b) (\<lambda>(x, b). h x b) = Inr (y, skip (length (xs @ ys)) b)"
    using readsD [OF g ok tx] readsD [OF h buf_ok_skip [OF ok r'] ty] by simp
qed

text \<open>The same with the last step a construction of the result.\<close>

lemma reads_last:
  assumes "reads xs x g" "\<And>b. h x b = Inr (y, b)"
  shows "reads xs y (\<lambda>b. bindR (g b) (\<lambda>(x, b). h x b))"
  using assms by (auto simp: reads_def)

lemma writes_put_all:
  assumes "\<And>x. x \<in> set xs \<Longrightarrow> writes (enc x) (put x)"
  shows "writes (concat (map enc xs)) (put_all put xs)"
  using assms
proof (induction xs)
  case Nil
  have "put_all put [] = Inr" by (rule ext) simp
  then show ?case by (simp add: writes_Nil)
next
  case (Cons x xs)
  have "put_all put (x # xs) = (\<lambda>b. bindR (put x b) (put_all put xs))" by (rule ext) simp
  then show ?case using Cons by (simp add: writes_bind)
qed

lemma reads_get_many:
  assumes "\<And>x. x \<in> set xs \<Longrightarrow> reads (enc x) x g"
  shows "reads (concat (map enc xs)) xs (get_many (length xs) g)"
  using assms
proof (induction xs)
  case Nil
  have "get_many 0 g = (\<lambda>b. Inr ([], b))" by (rule ext) simp
  then show ?case by (simp add: reads_Nil)
next
  case (Cons x xs)
  have eq: "get_many (length (x # xs)) g =
    (\<lambda>b. bindR (g b) (\<lambda>(x, b). bindR (get_many (length xs) g b) (\<lambda>(xs, b). Inr (x # xs, b))))"
    by (rule ext) simp
  have "reads (concat (map enc xs)) (x # xs)
    (\<lambda>b. bindR (get_many (length xs) g b) (\<lambda>(xs, b). Inr (x # xs, b)))"
    using Cons by (intro reads_last) simp_all
  then show ?case
    unfolding eq list.map concat.simps by (rule reads_bind [rotated]) (simp add: Cons.prems)
qed

subsection \<open>The primitive putters and getters\<close>

lemma writes_copy_in:
  "length data = n \<Longrightarrow> n < 2 ^ 63 \<Longrightarrow> writes data (copy_in data (of_nat n))"
  by (rule writesI) (simp add: copy_in_eq)

lemma reads_copy_out:
  assumes "length bs = n" "n < 2 ^ 63" "dec bs = Inr x"
  shows "reads bs x (\<lambda>b. bindR (copy_out (of_nat n) b) (\<lambda>(bs, b). bindR (dec bs) (\<lambda>x. Inr (x, b))))"
  by (rule readsI) (use assms in \<open>simp add: copy_out_eq\<close>)

lemma reads_le:
  assumes "LENGTH('a) = 8 * n" "n < 2 ^ 63"
  shows "reads (to_le n w) (w :: 'a::len word)
    (\<lambda>b. bindR (copy_out (of_nat n) b) (\<lambda>(bs, b). Inr (from_le bs, b)))"
  by (rule readsI) (use assms in \<open>simp add: copy_out_eq from_le_to_le\<close>)

lemmas getter_defs =
  get_uint64_def [abs_def] get_int64_def [abs_def] get_double_def [abs_def]
  get_uint32_def [abs_def] get_int32_def [abs_def] get_float_def [abs_def]
  get_uint16_def [abs_def] get_int16_def [abs_def]
  get_uint8_def [abs_def] get_int8_def [abs_def]

lemmas putter_defs =
  put_uint64_def [abs_def] put_int64_def [abs_def] put_double_def [abs_def]
  put_uint32_def [abs_def] put_int32_def [abs_def] put_float_def [abs_def]
  put_uint16_def [abs_def] put_int16_def [abs_def]
  put_uint8_def [abs_def] put_int8_def [abs_def]

lemma reads_ints [codec_intros]:
  "reads (to_le 8 w64) w64 get_uint64" "reads (to_le 8 w64) w64 get_int64"
  "reads (to_le 8 w64) w64 get_double"
  "reads (to_le 4 w32) w32 get_uint32" "reads (to_le 4 w32) w32 get_int32"
  "reads (to_le 4 w32) w32 get_float"
  "reads (to_le 2 w16) w16 get_uint16" "reads (to_le 2 w16) w16 get_int16"
  "reads [w8] w8 get_uint8" "reads [w8] w8 get_int8"
  unfolding getter_defs
  using reads_le [of 8 w64] reads_le [of 4 w32] reads_le [of 2 w16] reads_le [of 1 w8]
  by (simp_all add: to_le_byte)

lemma writes_ints [codec_intros]:
  "writes (to_le 8 w64) (put_uint64 w64)" "writes (to_le 8 w64) (put_int64 w64)"
  "writes (to_le 8 w64) (put_double w64)"
  "writes (to_le 4 w32) (put_uint32 w32)" "writes (to_le 4 w32) (put_int32 w32)"
  "writes (to_le 4 w32) (put_float w32)"
  "writes (to_le 2 w16) (put_uint16 w16)" "writes (to_le 2 w16) (put_int16 w16)"
  "writes [w8] (put_uint8 w8)" "writes [w8] (put_int8 w8)"
  unfolding putter_defs
  using writes_copy_in [of "to_le 8 w64" 8] writes_copy_in [of "to_le 4 w32" 4]
    writes_copy_in [of "to_le 2 w16" 2] writes_copy_in [of "to_le 1 w8" 1]
  by (simp_all add: to_le_byte)

text \<open>A \<^verbatim>\<open>bool\<close> is one byte.\<close>

definition bool_byte :: "bool \<Rightarrow> byte list" where
  "bool_byte v = [if v then 1 else 0]"

lemma length_bool_byte [simp]: "length (bool_byte v) = 1"
  by (simp add: bool_byte_def)

lemma reads_boolean [codec_intros]: "reads (bool_byte v) v get_boolean"
proof -
  have "get_boolean = (\<lambda>b. bindR (copy_out (of_nat 1) b) (\<lambda>(bs, b). bindR
      (if bs = [0] then Inr False else if bs = [1] then Inr True else Inl Undefined_Behaviour)
      (\<lambda>x. Inr (x, b))))"
    by (rule ext) (simp add: get_boolean_def bindR_def split: sum.split)
  then show ?thesis
    using reads_copy_out [of "bool_byte v" 1 "\<lambda>bs. if bs = [0] then Inr False else
        if bs = [1] then Inr True else Inl Undefined_Behaviour" v]
    by (simp add: bool_byte_def)
qed

lemma writes_boolean [codec_intros]: "writes (bool_byte v) (put_boolean v)"
  using writes_copy_in [of "bool_byte v" 1]
  by (simp add: put_boolean_def [abs_def] bool_byte_def)

text \<open>
  The \<^verbatim>\<open>int\<close> count of strings and blobs: up to \<open>2 ^ 31 - 1\<close> it is the length.
\<close>

lemma scast_of_nat_small:
  "n < 2 ^ 31 \<Longrightarrow> (scast (of_nat n :: u32) :: u64) = of_nat n"
  by (simp add: signed_of_nat signed_take_bit_int_eq_self)

lemma sint_of_nat_small: "n < 2 ^ 31 \<Longrightarrow> sint (of_nat n :: u32) = int n"
  by (simp add: signed_of_nat signed_take_bit_int_eq_self)

lemma sint_ucast_small: "unat (w :: u64) < 2 ^ 31 \<Longrightarrow> sint (ucast w :: u32) = int (unat w)"
  using sint_of_nat_small [of "unat w"] by simp

lemma get_string_eq:
  assumes ok: "buf_ok b" and n: "n < 2 ^ 31"
  shows "get_string (of_nat n) b =
    (if room n b then Inr (string_of_bytes (take n (rest b)), skip n b) else Inl Buffer_Overflow)"
proof (cases "room n b")
  case False
  then show ?thesis
    using is_overflow_iff [OF ok, of n] n
    by (simp add: get_string_def Let_def scast_of_nat_small)
next
  case True
  let ?o = "unat (mb_offset b)"
  have sum: "unat (of_nat n + mb_offset b) = ?o + n"
    using unat_offset_add [OF ok, of n] n by (simp add: add.commute)
  have small: "?o < 2 ^ 31" "?o + n < 2 ^ 31" "?o + n \<le> length (mb_buf b)"
    using ok True by (simp_all add: buf_ok_def room_def)
  have "sint (ucast (of_nat n + mb_offset b) :: u32) = int (?o + n)"
    using small(2) sum by (simp only: sint_ucast_small)
  moreover have "sint (ucast (mb_offset b) :: u32) = int ?o"
    using small(1) by (rule sint_ucast_small)
  moreover have "int ?o + int n \<le> int (length (mb_buf b))"
    using small(3) by linarith
  ultimately show ?thesis
    using True is_overflow_iff [OF ok, of n] n
    by (simp add: get_string_def Let_def scast_of_nat_small rest_def skip_def advance_def)
qed

lemma reads_string [codec_intros]:
  "length s < 2 ^ 31 \<Longrightarrow> reads (bytes_of_string s) s (get_string (of_nat (length s)))"
  by (rule readsI) (simp add: get_string_eq)

lemma writes_string [codec_intros]:
  "length s < 2 ^ 31 \<Longrightarrow> writes (bytes_of_string s) (put_string s)"
  using writes_copy_in [of "bytes_of_string s" "length s"]
  by (simp add: put_string_def [abs_def] scast_of_nat_small)

lemma reads_blob [codec_intros]:
  assumes "length bs < 2 ^ 31"
  shows "reads bs bs (get_blob (of_nat (length bs)))"
proof (rule readsI)
  fix b assume b: "buf_ok b" "room (length bs) b" "take (length bs) (rest b) = bs"
  show "get_blob (of_nat (length bs)) b = Inr (bs, skip (length bs) b)"
    using assms b is_overflow_iff [of b "length bs"]
    by (simp add: get_blob_def scast_of_nat_small sint_of_nat_small copy_out_eq)
qed

lemma writes_blob [codec_intros]:
  "length bs < 2 ^ 31 \<Longrightarrow> writes bs (put_blob bs (of_nat (length bs)))"
  using writes_copy_in [of bs "length bs"]
  by (simp add: put_blob_def [abs_def] scast_of_nat_small)

subsection \<open>The locale of a serialisable class\<close>

text \<open>
  A class that goes to disk offers a \<^verbatim>\<open>bytes(Buffer *)\<close> method and a static
  \<^verbatim>\<open>from(Buffer *)\<close>. \<open>enc\<close> is the byte image, \<open>wf\<close> the values whose
  fields fit the widths of the image.
\<close>

locale codec =
  fixes wf :: "'a \<Rightarrow> bool"
    and enc :: "'a \<Rightarrow> byte list"
    and put :: "'a \<Rightarrow> MemoryBuffer \<Rightarrow> MemoryBuffer result"
    and get :: "MemoryBuffer \<Rightarrow> ('a \<times> MemoryBuffer) result"
  assumes put_writes: "wf x \<Longrightarrow> writes (enc x) (put x)"
    and get_reads: "wf x \<Longrightarrow> reads (enc x) x get"
begin

lemma put_overflow:
  assumes "wf x" "buf_ok b" "\<not> room (length (enc x)) b"
  shows "put x b = Inl Buffer_Overflow"
  using writesD [OF put_writes [OF assms(1)] assms(2)] assms(3) by simp

lemma put_room:
  assumes "wf x" "buf_ok b" "room (length (enc x)) b"
  shows "put x b = Inr (emit (enc x) b)"
  using writesD [OF put_writes [OF assms(1)] assms(2)] assms(3) by simp

lemma put_then_get:
  assumes "wf x" "buf_ok b" "put x b = Inr b'"
  shows "get (b'\<lparr>mb_offset := mb_offset b\<rparr>) = Inr (x, b')"
proof -
  have r: "room (length (enc x)) b" and b': "b' = emit (enc x) b"
    using writesD [OF put_writes [OF assms(1)] assms(2)] assms(3) by (auto split: if_splits)
  let ?b = "b'\<lparr>mb_offset := mb_offset b\<rparr>"
  have l: "length (mb_buf b') = length (mb_buf b)" using length_emit [OF r] b' by simp
  have ok: "buf_ok ?b" using assms(2) l b' by (simp add: buf_ok_def)
  have "take (length (enc x)) (rest ?b) = enc x"
    using assms(2) by (simp add: rest_def b' emit_def buf_ok_def)
  moreover have "skip (length (enc x)) ?b = b'"
    by (simp add: skip_def b' emit_def)
  ultimately show ?thesis
    using readsD [OF get_reads [OF assms(1)] ok] by simp
qed

lemma get_inj:
  assumes "wf x" "wf y" "enc x = enc y" "length (enc x) < 2 ^ 31"
  shows "x = y"
proof -
  let ?b = "MemoryBuffer_of (enc x) (of_nat (length (enc x)))"
  have "buf_ok ?b" "rest ?b = enc x"
    using assms(4) by (simp_all add: buf_ok_def MemoryBuffer_of_def rest_def unat_of_nat
        take_bit_nat_eq_self)
  then show ?thesis
    using readsD [OF get_reads [OF assms(1)], of ?b] readsD [OF get_reads [OF assms(2)], of ?b]
      assms(3) by simp
qed

text \<open>Through a fresh buffer, \<^verbatim>\<open>bytes()\<close> and a buffer over these bytes.\<close>

lemma roundtrip:
  assumes "wf x" "length (enc x) \<le> unat n" "unat n < 2 ^ 31"
  shows "\<exists>b. put x (MemoryBuffer_new n) = Inr b \<and>
    MemoryBuffer_bytes b = enc x @ replicate (unat n - length (enc x)) 0 \<and>
    get (MemoryBuffer_of (MemoryBuffer_bytes b) n) =
      Inr (x, skip (length (enc x)) (MemoryBuffer_of (MemoryBuffer_bytes b) n))"
proof -
  let ?b = "emit (enc x) (MemoryBuffer_new n)"
  have "buf_ok (MemoryBuffer_new n)" "room (length (enc x)) (MemoryBuffer_new n)"
    using assms by (simp_all add: buf_ok_def room_def MemoryBuffer_new_def)
  then have p: "put x (MemoryBuffer_new n) = Inr ?b" by (rule put_room [OF assms(1)])
  have bs: "MemoryBuffer_bytes ?b = enc x @ replicate (unat n - length (enc x)) 0"
    using assms(2,3) sint_ucast_small [OF assms(3)]
    by (simp add: MemoryBuffer_bytes_def MemoryBuffer_new_def emit_def Let_def)
  let ?r = "MemoryBuffer_of (MemoryBuffer_bytes ?b) n"
  have "buf_ok ?r" "take (length (enc x)) (rest ?r) = enc x"
    using assms(2,3) bs by (simp_all add: buf_ok_def MemoryBuffer_of_def rest_def)
  then show ?thesis using p bs readsD [OF get_reads [OF assms(1)], of ?r] by auto
qed

text \<open>A fresh buffer takes the image exactly when it is large enough, and one of its size is filled.\<close>

lemma fits_iff:
  assumes "wf x" "unat n < 2 ^ 31"
  shows "put x (MemoryBuffer_new n) =
    (if length (enc x) \<le> unat n then Inr (emit (enc x) (MemoryBuffer_new n)) else Inl Buffer_Overflow)"
proof -
  have "buf_ok (MemoryBuffer_new n)" using assms(2) by (simp add: buf_ok_def MemoryBuffer_new_def)
  moreover have "room (length (enc x)) (MemoryBuffer_new n) \<longleftrightarrow> length (enc x) \<le> unat n"
    by (simp add: room_def MemoryBuffer_new_def)
  ultimately show ?thesis using writesD [OF put_writes [OF assms(1)]] by simp
qed

lemma exact_roundtrip:
  assumes "wf x" "length (enc x) < 2 ^ 31" "n = of_nat (length (enc x))"
  shows "\<exists>b b'. put x (MemoryBuffer_new n) = Inr b \<and> MemoryBuffer_bytes b = enc x \<and>
    get (MemoryBuffer_of (MemoryBuffer_bytes b) n) = Inr (x, b') \<and> mb_offset b' = n"
proof -
  have n: "unat n = length (enc x)"
    using assms(2,3) by (simp add: unat_of_nat take_bit_nat_eq_self)
  obtain b where "put x (MemoryBuffer_new n) = Inr b"
      "MemoryBuffer_bytes b = enc x @ replicate (unat n - length (enc x)) 0"
      "get (MemoryBuffer_of (MemoryBuffer_bytes b) n) =
        Inr (x, skip (length (enc x)) (MemoryBuffer_of (MemoryBuffer_bytes b) n))"
    using roundtrip [of x n] assms n by auto
  then show ?thesis using n assms(3) by (simp add: skip_def MemoryBuffer_of_def)
qed

lemma get_prefix:
  assumes "wf x" "buf_ok b" "rest b = enc x @ zs"
  shows "get b = Inr (x, skip (length (enc x)) b)"
  using readsD [OF get_reads [OF assms(1)] assms(2)] assms(3) by simp

end

text \<open>The primitive types of the buffer are codecs.\<close>

interpretation u64c: codec "\<lambda>_. True" "to_le 8" put_uint64 get_uint64
  by unfold_locales (rule codec_intros)+

interpretation u32c: codec "\<lambda>_. True" "to_le 4" put_uint32 get_uint32
  by unfold_locales (rule codec_intros)+

interpretation u16c: codec "\<lambda>_. True" "to_le 2" put_uint16 get_uint16
  by unfold_locales (rule codec_intros)+

interpretation u8c: codec "\<lambda>_. True" "\<lambda>w. [w]" put_uint8 get_uint8
  by unfold_locales (rule codec_intros)+

interpretation boolc: codec "\<lambda>_. True" bool_byte put_boolean get_boolean
  by unfold_locales (rule codec_intros)+

interpretation strc: codec "\<lambda>s. length s = n \<and> n < 2 ^ 31" bytes_of_string put_string
  "get_string (of_nat n)" for n
  by unfold_locales (auto intro: codec_intros)

interpretation blobc: codec "\<lambda>bs. length bs = n \<and> n < 2 ^ 31" "\<lambda>bs. bs"
  "\<lambda>bs. put_blob bs (of_nat (length bs))" "get_blob (of_nat n)" for n
  by unfold_locales (auto intro: codec_intros)

section \<open>Sequences of buffer calls\<close>

text \<open>The pure virtual methods of \<^verbatim>\<open>util::Buffer\<close>, as one type of calls.\<close>

datatype buffer_op =
    GetUint64 | PutUint64 u64 | GetUint32 | PutUint32 u32 | GetUint16 | PutUint16 u16
  | GetUint8 | PutUint8 u8 | GetInt64 | PutInt64 u64 | GetInt32 | PutInt32 u32
  | GetInt16 | PutInt16 u16 | GetInt8 | PutInt8 u8 | GetString u32 | PutString string
  | GetDouble | PutDouble u64 | GetFloat | PutFloat u32 | GetBoolean | PutBoolean bool
  | GetBlob u32 | PutBlob "byte list" u32

definition dropR :: "('a \<times> 's) result \<Rightarrow> 's result" where
  "dropR r = bindR r (\<lambda>(_, s). Inr s)"

fun run_op :: "buffer_op \<Rightarrow> MemoryBuffer \<Rightarrow> MemoryBuffer result" where
  "run_op GetUint64 b = dropR (get_uint64 b)"
| "run_op (PutUint64 v) b = put_uint64 v b"
| "run_op GetUint32 b = dropR (get_uint32 b)"
| "run_op (PutUint32 w) b = put_uint32 w b"
| "run_op GetUint16 b = dropR (get_uint16 b)"
| "run_op (PutUint16 x) b = put_uint16 x b"
| "run_op GetUint8 b = dropR (get_uint8 b)"
| "run_op (PutUint8 y) b = put_uint8 y b"
| "run_op GetInt64 b = dropR (get_int64 b)"
| "run_op (PutInt64 v) b = put_int64 v b"
| "run_op GetInt32 b = dropR (get_int32 b)"
| "run_op (PutInt32 w) b = put_int32 w b"
| "run_op GetInt16 b = dropR (get_int16 b)"
| "run_op (PutInt16 x) b = put_int16 x b"
| "run_op GetInt8 b = dropR (get_int8 b)"
| "run_op (PutInt8 y) b = put_int8 y b"
| "run_op (GetString n) b = dropR (get_string n b)"
| "run_op (PutString s) b = put_string s b"
| "run_op GetDouble b = dropR (get_double b)"
| "run_op (PutDouble v) b = put_double v b"
| "run_op GetFloat b = dropR (get_float b)"
| "run_op (PutFloat w) b = put_float w b"
| "run_op GetBoolean b = dropR (get_boolean b)"
| "run_op (PutBoolean z) b = put_boolean z b"
| "run_op (GetBlob n) b = dropR (get_blob n b)"
| "run_op (PutBlob bs n) b = put_blob bs n b"

text \<open>The counts a call may be given: not negative, and within the array that is copied.\<close>

fun op_ok :: "buffer_op \<Rightarrow> bool" where
  "op_ok (GetString n) = (0 \<le> sint n)"
| "op_ok (PutString s) = (length s < 2 ^ 31)"
| "op_ok (GetBlob n) = (0 \<le> sint n)"
| "op_ok (PutBlob bs n) = (0 \<le> sint n \<and> unat n \<le> length bs)"
| "op_ok _ = True"

text \<open>A call is safe when it stays in a good buffer of the same array size or overflows.\<close>

definition safe_step :: "MemoryBuffer \<Rightarrow> MemoryBuffer result \<Rightarrow> bool" where
  "safe_step b r = (case r of Inl e \<Rightarrow> e = Buffer_Overflow
     | Inr b' \<Rightarrow> buf_ok b' \<and> mb_size b' = mb_size b \<and> mb_offset b \<le> mb_offset b')"

lemma safe_writes:
  assumes w: "writes bs p" and ok: "buf_ok b"
  shows "safe_step b (p b)"
proof (cases "room (length bs) b")
  case True
  then show ?thesis
    using writesD [OF w ok] buf_ok_emit [OF ok True] unat_offset_emit [OF ok True]
    by (simp add: safe_step_def word_le_nat_alt)
next
  case False
  then show ?thesis using writesD [OF w ok] by (simp add: safe_step_def)
qed

lemma safe_copy_out:
  assumes ok: "buf_ok b" and n: "n < 2 ^ 63"
  shows "safe_step b (bindR (copy_out (of_nat n) b) (\<lambda>(bs, b). Inr b))"
proof (cases "room n b")
  case True
  then show ?thesis
    using copy_out_eq [OF ok n] buf_ok_skip [OF ok True] unat_offset_skip [OF ok n]
    by (simp add: safe_step_def word_le_nat_alt)
next
  case False
  then show ?thesis using copy_out_eq [OF ok n] by (simp add: safe_step_def)
qed

lemma nonneg_count:
  assumes "0 \<le> sint (n :: u32)"
  shows "unat n < 2 ^ 31" "(of_nat (unat n) :: u32) = n"
proof -
  have "uint n = sint n"
    using assms sint_lt [of n] uint_sint [of n] by (simp add: take_bit_int_eq_self)
  then show "unat n < 2 ^ 31"
    using sint_lt [of n] by (simp add: unat_eq_nat_uint nat_less_iff assms)
  show "(of_nat (unat n) :: u32) = n" by simp
qed

lemma safe_get_string:
  assumes ok: "buf_ok b" and n: "0 \<le> sint n"
  shows "safe_step b (dropR (get_string n b))"
proof -
  have "dropR (get_string n b) = bindR (copy_out (of_nat (unat n)) b) (\<lambda>(bs, b). Inr b)"
    using get_string_eq [OF ok nonneg_count(1) [OF n]] copy_out_eq [OF ok, of "unat n"]
      nonneg_count [OF n] by (simp add: dropR_def)
  then show ?thesis using safe_copy_out [OF ok, of "unat n"] nonneg_count(1) [OF n] by simp
qed

lemma safe_get_blob:
  assumes ok: "buf_ok b" and n: "0 \<le> sint n"
  shows "safe_step b (dropR (get_blob n b))"
proof -
  have sc: "(scast n :: u64) = of_nat (unat n)"
    using scast_of_nat_small [OF nonneg_count(1) [OF n]] nonneg_count(2) [OF n] by metis
  have l: "unat n < 2 ^ 63" using nonneg_count(1) [OF n] by simp
  have "dropR (get_blob n b) = bindR (copy_out (of_nat (unat n)) b) (\<lambda>(bs, b). Inr b)"
    unfolding get_blob_def sc
    using n copy_out_eq [OF ok l] is_overflow_iff [OF ok l] by (simp add: dropR_def del: of_nat_unat)
  then show ?thesis using safe_copy_out [OF ok l] by simp
qed

lemma safe_put_blob:
  assumes ok: "buf_ok b" and n: "0 \<le> sint n" "unat n \<le> length bs"
  shows "safe_step b (put_blob bs n b)"
proof -
  have sc: "(scast n :: u64) = of_nat (unat n)"
    using scast_of_nat_small [OF nonneg_count(1) [OF n(1)]] nonneg_count(2) [OF n(1)] by metis
  have l: "unat n < 2 ^ 63" using nonneg_count(1) [OF n(1)] by simp
  have u: "unat (of_nat (unat n) :: u64) = unat n"
    using l by (simp add: unat_of_nat take_bit_nat_eq_self del: of_nat_unat)
  have "put_blob bs n b = copy_in (take (unat n) bs) (of_nat (unat n)) b"
    unfolding put_blob_def sc copy_in_def u using n(2) by simp
  then show ?thesis
    using safe_writes [OF writes_copy_in [of "take (unat n) bs" "unat n"] ok] n(2) l by simp
qed

lemma safe_getter:
  assumes ok: "buf_ok b" and n: "n < 2 ^ 63"
  shows "safe_step b (dropR (bindR (copy_out (of_nat n) b) (\<lambda>(bs, b). Inr (dec bs, b))))"
  using safe_copy_out [OF ok n] by (auto simp: dropR_def bindR_def split: sum.splits prod.splits)

lemma safe_getters:
  assumes "buf_ok b"
  shows "safe_step b (dropR (get_uint64 b))" "safe_step b (dropR (get_int64 b))"
    "safe_step b (dropR (get_double b))" "safe_step b (dropR (get_uint32 b))"
    "safe_step b (dropR (get_int32 b))" "safe_step b (dropR (get_float b))"
    "safe_step b (dropR (get_uint16 b))" "safe_step b (dropR (get_int16 b))"
    "safe_step b (dropR (get_uint8 b))" "safe_step b (dropR (get_int8 b))"
  using safe_getter [OF assms, of 8] safe_getter [OF assms, of 4] safe_getter [OF assms, of 2]
    safe_getter [OF assms, of 1]
  by (simp_all add: getter_defs)

lemma run_op_safe:
  assumes ok: "buf_ok b" and op: "op_ok p" "p \<noteq> GetBoolean"
  shows "safe_step b (run_op p b)"
  using op
  by (cases p) (simp_all add: safe_getters [OF ok] safe_get_string [OF ok] safe_get_blob [OF ok]
      safe_put_blob [OF ok] safe_writes [OF writes_ints(1) ok] safe_writes [OF writes_ints(2) ok]
      safe_writes [OF writes_ints(3) ok] safe_writes [OF writes_ints(4) ok]
      safe_writes [OF writes_ints(5) ok] safe_writes [OF writes_ints(6) ok]
      safe_writes [OF writes_ints(7) ok] safe_writes [OF writes_ints(8) ok]
      safe_writes [OF writes_ints(9) ok] safe_writes [OF writes_ints(10) ok]
      safe_writes [OF writes_boolean ok] safe_writes [OF writes_string ok])

text \<open>
  Not every byte is a \<^verbatim>\<open>bool\<close>: the one case in which a call inside the array is undefined.
\<close>

lemma run_boolean:
  assumes "buf_ok b"
  shows "run_op GetBoolean b =
    (if \<not> room 1 b then Inl Buffer_Overflow else if hd (rest b) \<in> {0, 1} then Inr (skip 1 b) else Inl Undefined_Behaviour)"
proof -
  have "copy_out 1 b = (if room 1 b then Inr (take 1 (rest b), skip 1 b) else Inl Buffer_Overflow)"
    using copy_out_eq [OF assms, of 1] by simp
  moreover have "rest b \<noteq> []" if "room 1 b" using that by (auto simp: room_def rest_def)
  ultimately show ?thesis by (cases "rest b") (auto simp: get_boolean_def dropR_def)
qed

definition bad_boolean :: "buffer_op list \<Rightarrow> MemoryBuffer \<Rightarrow> bool" where
  "bad_boolean ps b \<longleftrightarrow> (\<exists>ps1 ps2 b1. ps = ps1 @ GetBoolean # ps2 \<and> put_all run_op ps1 b = Inr b1 \<and>
     room 1 b1 \<and> hd (rest b1) \<notin> {0, 1})"

definition safe_run :: "buffer_op list \<Rightarrow> MemoryBuffer \<Rightarrow> MemoryBuffer result \<Rightarrow> bool" where
  "safe_run ps b r = (case r of Inl e \<Rightarrow> e = Buffer_Overflow \<or> e = Undefined_Behaviour \<and> bad_boolean ps b
     | Inr b' \<Rightarrow> buf_ok b' \<and> mb_size b' = mb_size b \<and> mb_offset b \<le> mb_offset b')"

lemma safe_run_one:
  assumes "buf_ok b" "op_ok p"
  shows "safe_run [p] b (run_op p b)"
proof (cases "p = GetBoolean")
  case True
  have "safe_step b (Inr (skip 1 b))" if "room 1 b"
    using safe_copy_out [OF assms(1), of 1] copy_out_eq [OF assms(1), of 1] that by simp
  then show ?thesis
    using run_boolean [OF assms(1)] True
    by (auto simp: safe_run_def safe_step_def bad_boolean_def intro!: exI [of _ "[]"])
next
  case False
  then show ?thesis
    using run_op_safe [OF assms False] by (auto simp: safe_run_def safe_step_def split: sum.splits)
qed

lemma bad_boolean_Cons: "bad_boolean ps b1 \<Longrightarrow> run_op p b = Inr b1 \<Longrightarrow> bad_boolean (p # ps) b"
  unfolding bad_boolean_def by (elim exE conjE) (rule exI [of _ "p # _"], auto)

lemma bad_boolean_first: "bad_boolean [p] b \<Longrightarrow> bad_boolean (p # ps) b"
proof -
  assume "bad_boolean [p] b"
  then have "p = GetBoolean" "room 1 b" "hd (rest b) \<notin> {0, 1}" by (auto simp: bad_boolean_def Cons_eq_append_conv)
  then have "p # ps = [] @ GetBoolean # ps \<and> put_all run_op [] b = Inr b \<and> room 1 b \<and> hd (rest b) \<notin> {0, 1}" by simp
  then show "bad_boolean (p # ps) b" unfolding bad_boolean_def by blast
qed

lemma run_ops_safe:
  assumes "buf_ok b" "\<forall>p \<in> set ps. op_ok p"
  shows "safe_run ps b (put_all run_op ps b)"
  using assms
proof (induction ps arbitrary: b)
  case Nil
  then show ?case by (simp add: safe_run_def)
next
  case (Cons p ps)
  then have p: "safe_run [p] b (run_op p b)" by (simp add: safe_run_one)
  show ?case
  proof (cases "run_op p b")
    case (Inl e)
    then show ?thesis using p bad_boolean_first by (auto simp: safe_run_def)
  next
    case (Inr b1)
    then have "buf_ok b1" using p by (simp add: safe_run_def)
    then have "safe_run ps b1 (put_all run_op ps b1)" using Cons by simp
    then show ?thesis using p Inr bad_boolean_Cons [OF _ Inr] by (auto simp: safe_run_def split: sum.splits)
  qed
qed

section \<open>Properties\<close>

text \<open>
  Property C4. Whatever sequence of calls is made on a good buffer, with counts that are not negative and
  within the arrays passed, every access stays inside the array: the calls all succeed, leaving a good
  buffer of the same size with the cursor not moved back, or one of them throws the buffer overflow, or a
  \<^verbatim>\<open>get_boolean\<close> finds at the cursor a byte that is neither 0 nor 1, which is undefined.
\<close>

theorem buffer_calls_stay_inside:
  assumes "buf_ok b" "\<forall>p \<in> set ps. op_ok p"
  shows "case put_all run_op ps b of
      Inl e \<Rightarrow> e = Buffer_Overflow \<or> e = Undefined_Behaviour \<and>
        (\<exists>ps1 ps2 b1. ps = ps1 @ GetBoolean # ps2 \<and> put_all run_op ps1 b = Inr b1 \<and> room 1 b1 \<and> hd (rest b1) \<notin> {0, 1})
    | Inr b' \<Rightarrow> buf_ok b' \<and> mb_size b' = mb_size b \<and> mb_offset b \<le> mb_offset b'"
  using run_ops_safe [OF assms] unfolding safe_run_def bad_boolean_def .

lemma buf_ok_new: "unat n < 2 ^ 31 \<Longrightarrow> buf_ok (MemoryBuffer_new n)"
  by (simp add: buf_ok_def MemoryBuffer_new_def)

theorem buffer_calls_stay_inside_witness:
  "\<exists>b'. put_all run_op [PutUint16 513, PutString ''ab'', GetBoolean, GetUint16] (MemoryBuffer_new 8) = Inr b' \<and>
    buf_ok b' \<and> mb_size b' = mb_size (MemoryBuffer_new 8) \<and> mb_offset (MemoryBuffer_new 8) \<le> mb_offset b'"
proof -
  let ?ps = "[PutUint16 513, PutString ''ab'', GetBoolean, GetUint16]"
  obtain b' where b': "put_all run_op ?ps (MemoryBuffer_new 8) = Inr b'"
  proof -
    have "case put_all run_op ?ps (MemoryBuffer_new 8) of Inl e \<Rightarrow> False | Inr b \<Rightarrow> True" by code_simp
    then show ?thesis using that by (cases "put_all run_op ?ps (MemoryBuffer_new 8)") simp_all
  qed
  then show ?thesis using buffer_calls_stay_inside [of "MemoryBuffer_new 8" ?ps] by (simp add: buf_ok_new)
qed

text \<open>
  A negative count passed to \<^verbatim>\<open>get_string\<close> is converted to a huge
  \<^verbatim>\<open>size_t\<close> whose sum with the cursor wraps around: the overflow check
  passes, the string is empty and the cursor moves back by the count.
\<close>

theorem get_string_negative_rewinds:
  assumes "buf_ok b" "sint n < 0" "0 \<le> int (unat (mb_offset b)) + sint n"
  shows "\<exists>b'. get_string n b = Inr ('''', b') \<and> mb_buf b' = mb_buf b \<and>
    int (unat (mb_offset b')) = int (unat (mb_offset b)) + sint n"
proof -
  let ?o = "unat (mb_offset b)"
  have small: "?o < 2 ^ 31" "?o \<le> unat (mb_size b)" using assms(1) by (auto simp: buf_ok_def)
  let ?m = "nat (int ?o + sint n)"
  have m: "int ?m = int ?o + sint n" using assms(3) by (rule nat_0_le)
  moreover have "int ?m < int ?o" unfolding calculation using assms(2) by linarith
  ultimately have m: "int ?m = int ?o + sint n" "?m < ?o" by (simp_all only: of_nat_less_iff)
  have "(scast n + mb_offset b :: u64) = word_of_int (sint n + int ?o)"
    by simp
  also have "\<dots> = of_int (int ?m)" unfolding m(1) by (simp only: add.commute)
  also have "\<dots> = of_nat ?m" by (rule of_int_of_nat_eq)
  finally have sum: "(scast n + mb_offset b :: u64) = of_nat ?m" .
  have unat_sum: "unat (scast n + mb_offset b :: u64) = ?m"
    unfolding sum using m(2) small(1) by (simp add: unat_of_nat take_bit_nat_eq_self)
  have hi: "sint (ucast (scast n + mb_offset b :: u64) :: u32) = int ?m"
    using sint_ucast_small [of "scast n + mb_offset b"] unat_sum m(2) small(1) by simp
  have "\<not> is_overflow (scast n) b"
    unfolding is_overflow_def word_less_nat_alt unat_sum using m(2) small(2) by simp
  then have "get_string n b = Inr ('''', advance (scast n) b)"
    using hi sint_ucast_small [OF small(1)] m assms(2) by (simp add: get_string_def Let_def)
  moreover have "int (unat (mb_offset (advance (scast n) b))) = int ?o + sint n"
    using unat_sum m(1) by (simp add: advance_def add.commute)
  ultimately show ?thesis by (auto simp: advance_def)
qed

theorem get_string_negative_rewinds_witness:
  "\<exists>b'. get_string (- 3) (advance 5 (MemoryBuffer_new 8)) = Inr ('''', b') \<and>
    mb_buf b' = mb_buf (advance 5 (MemoryBuffer_new 8)) \<and>
    int (unat (mb_offset b')) = int (unat (mb_offset (advance 5 (MemoryBuffer_new 8)))) + sint (- 3 :: u32)"
  by (rule get_string_negative_rewinds) (simp_all add: buf_ok_def advance_def MemoryBuffer_new_def)

end
