(* ===== verification/Std_Map.thy ===== *)
theory Std_Map
  imports Dibi_Prelude
begin

text \<open>
  \<^verbatim>\<open>std::map\<close> with a comparator that may throw. A map is the sequence of its
  entries in iteration order; \<open>cmp a b\<close> is the comparator's answer to "does a come before b". Lookup
  and insertion find the lower bound of the key, the first entry that does not come before it, and ask
  the comparator once more whether the key comes before that entry. The locale \<open>cmp_order\<close> is the
  contract the library asks of a comparator, and the lemmas in it are what the map then promises.
\<close>

fun map_find :: "('k \<Rightarrow> 'k \<Rightarrow> bool result) \<Rightarrow> 'k \<Rightarrow> ('k \<times> 'v) list \<Rightarrow> 'v option result" where
  "map_find cmp k [] = Inr None"
| "map_find cmp k ((k', v') # m) =
     bindR (cmp k' k) (\<lambda>before. if before then map_find cmp k m
       else bindR (cmp k k') (\<lambda>after. Inr (if after then None else Some v')))"

text \<open>\<^verbatim>\<open>m.insert({k, v})\<close>: an equivalent key that is present keeps its value.\<close>

fun map_insert :: "('k \<Rightarrow> 'k \<Rightarrow> bool result) \<Rightarrow> 'k \<Rightarrow> 'v \<Rightarrow> ('k \<times> 'v) list \<Rightarrow> ('k \<times> 'v) list result" where
  "map_insert cmp k v [] = Inr [(k, v)]"
| "map_insert cmp k v ((k', v') # m) =
     bindR (cmp k' k) (\<lambda>before. if before
       then bindR (map_insert cmp k v m) (\<lambda>m. Inr ((k', v') # m))
       else bindR (cmp k k') (\<lambda>after. Inr (if after then (k, v) # (k', v') # m else (k', v') # m)))"

text \<open>\<^verbatim>\<open>m[k] = v\<close>: an equivalent key that is present gets the new value.\<close>

fun map_assign :: "('k \<Rightarrow> 'k \<Rightarrow> bool result) \<Rightarrow> 'k \<Rightarrow> 'v \<Rightarrow> ('k \<times> 'v) list \<Rightarrow> ('k \<times> 'v) list result" where
  "map_assign cmp k v [] = Inr [(k, v)]"
| "map_assign cmp k v ((k', v') # m) =
     bindR (cmp k' k) (\<lambda>before. if before
       then bindR (map_assign cmp k v m) (\<lambda>m. Inr ((k', v') # m))
       else bindR (cmp k k') (\<lambda>after. Inr (if after then (k, v) # (k', v') # m else (k', v) # m)))"

section \<open>The comparator's contract\<close>

locale cmp_order =
  fixes key :: "'k \<Rightarrow> bool"
    and cmp :: "'k \<Rightarrow> 'k \<Rightarrow> bool result"
    and lt :: "'k \<Rightarrow> 'k \<Rightarrow> bool"
  assumes cmp_eq: "key a \<Longrightarrow> key b \<Longrightarrow> cmp a b = Inr (lt a b)"
    and lt_irrefl: "key a \<Longrightarrow> \<not> lt a a"
    and lt_trans: "key a \<Longrightarrow> key b \<Longrightarrow> key c \<Longrightarrow> lt a b \<Longrightarrow> lt b c \<Longrightarrow> lt a c"
    and lt_total: "key a \<Longrightarrow> key b \<Longrightarrow> a \<noteq> b \<Longrightarrow> lt a b \<or> lt b a"
begin

definition map_ok :: "('k \<times> 'v) list \<Rightarrow> bool" where
  "map_ok m \<longleftrightarrow> sorted_wrt lt (map fst m) \<and> (\<forall>k \<in> fst ` set m. key k)"

lemma map_ok_Nil [simp]: "map_ok []"
  by (simp add: map_ok_def)

lemma map_ok_Cons:
  "map_ok ((k, v) # m) \<longleftrightarrow> key k \<and> (\<forall>k' \<in> fst ` set m. lt k k') \<and> map_ok m"
  by (auto simp: map_ok_def)

lemma lt_asym: "key a \<Longrightarrow> key b \<Longrightarrow> lt a b \<Longrightarrow> \<not> lt b a"
  using lt_irrefl lt_trans by blast

lemma map_of_before:
  assumes "map_ok m" "key k" "\<forall>k' \<in> fst ` set m. lt k k'"
  shows "map_of m k = None"
proof -
  have "k \<notin> fst ` set m" using assms lt_irrefl by blast
  then show ?thesis by (simp add: map_of_eq_None_iff)
qed

lemma find_eq:
  assumes "map_ok m" "key k"
  shows "map_find cmp k m = Inr (map_of m k)"
  using assms(1)
proof (induction m)
  case Nil
  then show ?case by simp
next
  case (Cons e m)
  obtain k' v' where e: "e = (k', v')" by (cases e)
  have ok: "key k'" "\<forall>k'' \<in> fst ` set m. lt k' k''" "map_ok m"
    using Cons.prems by (simp_all add: e map_ok_Cons)
  consider "lt k' k" | "k' = k" | "lt k k'" using lt_total [OF assms(2) ok(1)] by blast
  then show ?case
  proof cases
    case 1
    then have "k' \<noteq> k" using lt_irrefl assms(2) by blast
    with 1 show ?thesis using Cons.IH ok by (simp add: e cmp_eq assms(2))
  next
    case 2
    then show ?thesis using ok by (simp add: e cmp_eq lt_irrefl assms(2))
  next
    case 3
    then have "\<not> lt k' k" "k' \<noteq> k" using lt_asym lt_irrefl ok(1) assms(2) by blast+
    moreover have "map_of m k = None"
      using 3 ok assms(2) by (intro map_of_before) (auto intro: lt_trans simp: map_ok_def)
    ultimately show ?thesis using 3 ok by (simp add: e cmp_eq assms(2))
  qed
qed

text \<open>Insertion: an old entry wins, assignment: the new entry wins.\<close>

lemma insert_eq:
  assumes "map_ok m" "key k"
  shows "\<exists>m'. map_insert cmp k v m = Inr m' \<and> map_ok m' \<and> fst ` set m' = insert k (fst ` set m) \<and>
    map_of m' = (map_of m)(k := Some (case map_of m k of None \<Rightarrow> v | Some w \<Rightarrow> w)) \<and>
    length m' = length m + (if k \<in> fst ` set m then 0 else 1)"
  using assms(1)
proof (induction m)
  case Nil
  then show ?case by (simp add: map_ok_Cons assms(2) fun_eq_iff)
next
  case (Cons e m)
  obtain k' v' where e: "e = (k', v')" by (cases e)
  have ok: "key k'" "\<forall>k'' \<in> fst ` set m. lt k' k''" "map_ok m"
    using Cons.prems by (simp_all add: e map_ok_Cons)
  obtain m' where m': "map_insert cmp k v m = Inr m'" "map_ok m'"
      "fst ` set m' = insert k (fst ` set m)"
      "map_of m' = (map_of m)(k := Some (case map_of m k of None \<Rightarrow> v | Some w \<Rightarrow> w))"
      "length m' = length m + (if k \<in> fst ` set m then 0 else 1)"
    using Cons.IH [OF ok(3)] by blast
  consider "lt k' k" | "k' = k" | "lt k k'" using lt_total [OF assms(2) ok(1)] by blast
  then show ?case
  proof cases
    case 1
    then have "k' \<noteq> k" using lt_irrefl assms(2) by blast
    with 1 show ?thesis using m' ok by (auto simp: e cmp_eq assms(2) map_ok_Cons)
  next
    case 2
    then show ?thesis using Cons.prems ok by (auto simp: e cmp_eq lt_irrefl assms(2))
  next
    case 3
    then have ne: "\<not> lt k' k" "k' \<noteq> k" using lt_asym lt_irrefl ok(1) assms(2) by blast+
    have before: "\<forall>k'' \<in> fst ` set m. lt k k''"
      using 3 ok assms(2) by (auto intro: lt_trans simp: map_ok_def)
    then have "map_of m k = None" "k \<notin> fst ` set m"
      using ok assms(2) by (auto intro: map_of_before dest: lt_irrefl)
    then show ?thesis
      using 3 ne ok before by (auto simp: e cmp_eq assms(2) map_ok_Cons)
  qed
qed

lemma assign_eq:
  assumes "map_ok m" "key k"
  shows "\<exists>m'. map_assign cmp k v m = Inr m' \<and> map_ok m' \<and> fst ` set m' = insert k (fst ` set m) \<and>
    map_of m' = (map_of m)(k \<mapsto> v) \<and> length m' \<le> Suc (length m)"
  using assms(1)
proof (induction m)
  case Nil
  then show ?case by (simp add: map_ok_Cons assms(2) fun_eq_iff)
next
  case (Cons e m)
  obtain k' v' where e: "e = (k', v')" by (cases e)
  have ok: "key k'" "\<forall>k'' \<in> fst ` set m. lt k' k''" "map_ok m"
    using Cons.prems by (simp_all add: e map_ok_Cons)
  obtain m' where m': "map_assign cmp k v m = Inr m'" "map_ok m'"
      "fst ` set m' = insert k (fst ` set m)" "map_of m' = (map_of m)(k \<mapsto> v)" "length m' \<le> Suc (length m)"
    using Cons.IH [OF ok(3)] by blast
  consider "lt k' k" | "k' = k" | "lt k k'" using lt_total [OF assms(2) ok(1)] by blast
  then show ?case
  proof cases
    case 1
    then have "k' \<noteq> k" using lt_irrefl assms(2) by blast
    with 1 show ?thesis using m' ok by (auto simp: e cmp_eq assms(2) map_ok_Cons)
  next
    case 2
    then show ?thesis using Cons.prems ok by (auto simp: e cmp_eq lt_irrefl assms(2) map_ok_Cons)
  next
    case 3
    then have "\<not> lt k' k" using lt_asym ok(1) assms(2) by blast
    moreover have "\<forall>k'' \<in> fst ` set m. lt k k''"
      using 3 ok assms(2) by (auto intro: lt_trans simp: map_ok_def)
    ultimately show ?thesis using 3 ok by (auto simp: e cmp_eq assms(2) map_ok_Cons)
  qed
qed

text \<open>Entries assigned in iteration order are appended: rebuilding a map from its own sequence.\<close>

lemma assign_last:
  assumes "map_ok m" "key k" "\<forall>k' \<in> fst ` set m. lt k' k"
  shows "map_assign cmp k v m = Inr (m @ [(k, v)])"
  using assms
  by (induction m) (auto simp: map_ok_Cons cmp_eq)

lemma insert_present:
  assumes "map_ok m" "key k" "k \<in> fst ` set m"
  shows "map_insert cmp k v m = Inr m"
  using assms(1,3)
proof (induction m)
  case (Cons e m)
  obtain k' v' where e: "e = (k', v')" by (cases e)
  have ok: "key k'" "\<forall>k'' \<in> fst ` set m. lt k' k''" "map_ok m"
    using Cons.prems by (simp_all add: e map_ok_Cons)
  show ?case
  proof (cases "k' = k")
    case True
    then show ?thesis using ok by (simp add: e cmp_eq lt_irrefl)
  next
    case False
    then have "k \<in> fst ` set m" using Cons.prems by (auto simp: e)
    then show ?thesis using ok assms(2) Cons.IH by (auto simp: e cmp_eq)
  qed
qed simp

lemma insert_last:
  assumes "map_ok m" "key k" "\<forall>k' \<in> fst ` set m. lt k' k"
  shows "map_insert cmp k v m = Inr (m @ [(k, v)])"
  using assms
  by (induction m) (auto simp: map_ok_Cons cmp_eq)

lemma map_ok_append:
  "map_ok (m @ m') \<longleftrightarrow> map_ok m \<and> map_ok m' \<and> (\<forall>k \<in> fst ` set m. \<forall>k' \<in> fst ` set m'. lt k k')"
  by (auto simp: map_ok_def sorted_wrt_append)

lemma assign_all:
  assumes "map_ok (m @ es)"
  shows "put_all (\<lambda>(k, v) m. map_assign cmp k v m) es m = Inr (m @ es)"
  using assms
proof (induction es arbitrary: m)
  case Nil
  then show ?case by simp
next
  case (Cons e es)
  obtain k v where e: "e = (k, v)" by (cases e)
  have "map_assign cmp k v m = Inr (m @ [(k, v)])"
    using Cons.prems by (intro assign_last) (auto simp: e map_ok_append map_ok_Cons)
  moreover have "map_ok ((m @ [(k, v)]) @ es)" using Cons.prems by (simp add: e)
  ultimately show ?case using Cons.IH [of "m @ [(k, v)]"] by (simp add: e)
qed

lemma assign_present:
  assumes "map_ok m" "(k, v) \<in> set m"
  shows "map_assign cmp k v m = Inr m"
  using assms
proof (induction m)
  case (Cons e m)
  obtain k' v' where e: "e = (k', v')" by (cases e)
  have ok: "key k'" "\<forall>k'' \<in> fst ` set m. lt k' k''" "map_ok m"
    using Cons.prems by (simp_all add: e map_ok_Cons)
  show ?case
  proof (cases "(k, v) \<in> set m")
    case True
    then have "k \<in> fst ` set m" by force
    then have "key k" "lt k' k" using ok by (auto simp: map_ok_def)
    then show ?thesis using ok True Cons.IH by (simp add: e cmp_eq)
  next
    case False
    then show ?thesis using Cons.prems ok by (simp add: e cmp_eq lt_irrefl)
  qed
qed simp

end

section \<open>Maps keyed by strings\<close>

text \<open>The order of \<^verbatim>\<open>std::map<std::string, ...>\<close>.\<close>

definition string_less :: "string \<Rightarrow> string \<Rightarrow> bool result" where
  "string_less a b = Inr (a < b)"

interpretation smap: cmp_order "\<lambda>_. True" string_less "(<)"
  by unfold_locales (auto simp: string_less_def)

end
