(* ===== verification/Catalog_Data.thy ===== *)
theory Catalog_Data
  imports Memory_Buffer Std_Map
begin

text \<open>
  \<^verbatim>\<open>catalog::Data\<close>: the values a column can hold and their types. A pointer to a
  \<^verbatim>\<open>Data\<close> object is a \<open>data option\<close> (\<open>None\<close> is
  \<^verbatim>\<open>nullptr\<close>), since \<^verbatim>\<open>Data::from\<close> returns a null pointer for
  a type it does not know. The lemmas show that every class is a codec (\<open>datac\<close>) whose image has
  exactly the length its type announces, and that \<^verbatim>\<open>DataCmp\<close> orders the values
  of an integer or string type strictly and totally, greatest first.
\<close>

section \<open>Data::Type\<close>

text \<open>
  \<^verbatim>\<open>static_cast\<close> of a byte to the enumeration keeps the values up to 15 (the
  range of an enumeration whose largest enumerator is 8), 9 to 15 without a name, and is undefined beyond.
\<close>

datatype type_id =
    T_ASCII | T_BIGINT | T_BOOLEAN | T_DOUBLE | T_FLOAT | T_INT | T_SMALLINT | T_TINYINT | T_BLOB
  | T_UNNAMED u8

fun type_id_code :: "type_id \<Rightarrow> u8" where
  "type_id_code T_ASCII = 0"
| "type_id_code T_BIGINT = 1"
| "type_id_code T_BOOLEAN = 2"
| "type_id_code T_DOUBLE = 3"
| "type_id_code T_FLOAT = 4"
| "type_id_code T_INT = 5"
| "type_id_code T_SMALLINT = 6"
| "type_id_code T_TINYINT = 7"
| "type_id_code T_BLOB = 8"
| "type_id_code (T_UNNAMED w) = w"

definition type_id_cast :: "u8 \<Rightarrow> type_id result" where
  "type_id_cast w =
     (if w = 0 then Inr T_ASCII else if w = 1 then Inr T_BIGINT else if w = 2 then Inr T_BOOLEAN
      else if w = 3 then Inr T_DOUBLE else if w = 4 then Inr T_FLOAT else if w = 5 then Inr T_INT
      else if w = 6 then Inr T_SMALLINT else if w = 7 then Inr T_TINYINT else if w = 8 then Inr T_BLOB
      else if w < 16 then Inr (T_UNNAMED w) else Inl Undefined_Behaviour)"

record data_type =
  ty_id :: type_id
  ty_length :: u32

definition Type_from :: "MemoryBuffer \<Rightarrow> (data_type \<times> MemoryBuffer) result" where
  "Type_from buf =
     bindR (get_int8 buf) (\<lambda>(id, buf).
     bindR (get_int32 buf) (\<lambda>(sz, buf).
     bindR (type_id_cast id) (\<lambda>i. Inr (\<lparr>ty_id = i, ty_length = sz\<rparr>, buf))))"

definition Type_length :: "data_type \<Rightarrow> u64" where
  "Type_length t = ucast (ty_length t)"

definition Type_size :: "data_type \<Rightarrow> u64" where
  "Type_size t = 1 + 4"

definition Type_bytes :: "data_type \<Rightarrow> MemoryBuffer \<Rightarrow> MemoryBuffer result" where
  "Type_bytes t buf = bindR (put_int8 (type_id_code (ty_id t)) buf) (put_uint32 (ty_length t))"

definition Type_eq :: "data_type \<Rightarrow> data_type \<Rightarrow> bool" where
  "Type_eq lhs rhs \<longleftrightarrow> ty_id lhs = ty_id rhs \<and> Type_length lhs = Type_length rhs"

section \<open>The Data classes\<close>

text \<open>
  One constructor per subclass. Integers are words read as signed, floating point values are bit
  patterns, and a blob is its bytes, \<^verbatim>\<open>m_size\<close> being their number. The type of an
  object is fixed by its constructor.
\<close>

datatype data =
    ASCIIData string
  | BigIntData u64
  | BooleanData bool
  | DoubleData u64
  | FloatData u32
  | IntData u32
  | SmallIntData u16
  | TinyIntData u8
  | BlobData "byte list"

type_synonym dptr = "data option"

fun type_of :: "data \<Rightarrow> data_type" where
  "type_of (ASCIIData s) = \<lparr>ty_id = T_ASCII, ty_length = of_nat (length s)\<rparr>"
| "type_of (BigIntData v) = \<lparr>ty_id = T_BIGINT, ty_length = 8\<rparr>"
| "type_of (BooleanData v) = \<lparr>ty_id = T_BOOLEAN, ty_length = 1\<rparr>"
| "type_of (DoubleData v) = \<lparr>ty_id = T_DOUBLE, ty_length = 8\<rparr>"
| "type_of (FloatData v) = \<lparr>ty_id = T_FLOAT, ty_length = 4\<rparr>"
| "type_of (IntData v) = \<lparr>ty_id = T_INT, ty_length = 4\<rparr>"
| "type_of (SmallIntData v) = \<lparr>ty_id = T_SMALLINT, ty_length = 2\<rparr>"
| "type_of (TinyIntData v) = \<lparr>ty_id = T_TINYINT, ty_length = 1\<rparr>"
| "type_of (BlobData bs) = \<lparr>ty_id = T_BLOB, ty_length = of_nat (length bs)\<rparr>"

text \<open>\<^verbatim>\<open>Data::from(Buffer *, Type)\<close>.\<close>

definition Data_from :: "data_type \<Rightarrow> MemoryBuffer \<Rightarrow> (dptr \<times> MemoryBuffer) result" where
  "Data_from t buf = (case ty_id t of
     T_ASCII \<Rightarrow> bindR (get_string (ty_length t) buf) (\<lambda>(v, buf). Inr (Some (ASCIIData v), buf))
   | T_BIGINT \<Rightarrow> bindR (get_int64 buf) (\<lambda>(v, buf). Inr (Some (BigIntData v), buf))
   | T_BOOLEAN \<Rightarrow> bindR (get_boolean buf) (\<lambda>(v, buf). Inr (Some (BooleanData v), buf))
   | T_DOUBLE \<Rightarrow> bindR (get_double buf) (\<lambda>(v, buf). Inr (Some (DoubleData v), buf))
   | T_FLOAT \<Rightarrow> bindR (get_float buf) (\<lambda>(v, buf). Inr (Some (FloatData v), buf))
   | T_INT \<Rightarrow> bindR (get_int32 buf) (\<lambda>(v, buf). Inr (Some (IntData v), buf))
   | T_SMALLINT \<Rightarrow> bindR (get_int16 buf) (\<lambda>(v, buf). Inr (Some (SmallIntData v), buf))
   | T_TINYINT \<Rightarrow> bindR (get_int8 buf) (\<lambda>(v, buf). Inr (Some (TinyIntData v), buf))
   | T_BLOB \<Rightarrow> bindR (get_blob (ty_length t) buf) (\<lambda>(v, buf). Inr (Some (BlobData v), buf))
   | T_UNNAMED w \<Rightarrow> Inr (None, buf))"

text \<open>
  \<^verbatim>\<open>BlobData::data\<close> copies with an \<^verbatim>\<open>int\<close> index into a
  zeroed array of \<open>m_size\<close> bytes.
\<close>

definition BlobData_data :: "byte list \<Rightarrow> byte list" where
  "BlobData_data bs =
     (let n = nat (sint (of_nat (length bs) :: u32)) in take n bs @ replicate (length bs - n) 0)"

text \<open>
  \<^verbatim>\<open>Data::from(Data *)\<close>, the copy, with the dynamic cast of every case.
\<close>

definition Data_copy :: "dptr \<Rightarrow> data result" where
  "Data_copy p = bindR (deref p) (\<lambda>d. case ty_id (type_of d) of
     T_ASCII \<Rightarrow> (case d of ASCIIData v \<Rightarrow> Inr (ASCIIData v) | _ \<Rightarrow> Inl undefined_data_type_error)
   | T_BIGINT \<Rightarrow> (case d of BigIntData v \<Rightarrow> Inr (BigIntData v) | _ \<Rightarrow> Inl undefined_data_type_error)
   | T_BOOLEAN \<Rightarrow> (case d of BooleanData v \<Rightarrow> Inr (BooleanData v) | _ \<Rightarrow> Inl undefined_data_type_error)
   | T_DOUBLE \<Rightarrow> (case d of DoubleData v \<Rightarrow> Inr (DoubleData v) | _ \<Rightarrow> Inl undefined_data_type_error)
   | T_FLOAT \<Rightarrow> (case d of FloatData v \<Rightarrow> Inr (FloatData v) | _ \<Rightarrow> Inl undefined_data_type_error)
   | T_INT \<Rightarrow> (case d of IntData v \<Rightarrow> Inr (IntData v) | _ \<Rightarrow> Inl undefined_data_type_error)
   | T_SMALLINT \<Rightarrow> (case d of SmallIntData v \<Rightarrow> Inr (SmallIntData v) | _ \<Rightarrow> Inl undefined_data_type_error)
   | T_TINYINT \<Rightarrow> (case d of TinyIntData v \<Rightarrow> Inr (TinyIntData v) | _ \<Rightarrow> Inl undefined_data_type_error)
   | T_BLOB \<Rightarrow> (case d of BlobData v \<Rightarrow> Inr (BlobData (BlobData_data v)) | _ \<Rightarrow> Inl undefined_data_type_error)
   | T_UNNAMED w \<Rightarrow> Inl undefined_data_type_error)"

text \<open>
  The IEEE-754 relation \<open>\<le>\<close> on bit patterns of \<open>w\<close> bits with \<open>m\<close> bits of significand:
  false when one side is a NaN, signed zeros equal, otherwise by sign and magnitude.
\<close>

definition ieee_nan :: "nat \<Rightarrow> 'a::len word \<Rightarrow> bool" where
  "ieee_nan m x \<longleftrightarrow> unat (take_bit (LENGTH('a) - 1) x) > 2 ^ (LENGTH('a) - 1) - 2 ^ m"

definition ieee_key :: "'a::len word \<Rightarrow> int" where
  "ieee_key x =
     (let mag = int (unat (take_bit (LENGTH('a) - 1) x)) in if bit x (LENGTH('a) - 1) then - mag else mag)"

definition ieee_le :: "nat \<Rightarrow> 'a::len word \<Rightarrow> 'a word \<Rightarrow> bool" where
  "ieee_le m x y \<longleftrightarrow> \<not> ieee_nan m x \<and> \<not> ieee_nan m y \<and> ieee_key x \<le> ieee_key y"

text \<open>The virtual methods \<^verbatim>\<open>compare\<close> and \<^verbatim>\<open>bytes\<close>.\<close>

fun compare :: "data \<Rightarrow> dptr \<Rightarrow> bool result" where
  "compare (ASCIIData v) other = (case other of
     Some (ASCIIData r) \<Rightarrow> Inr (\<not> v \<le> r) | _ \<Rightarrow> Inl incompatible_data_types_error)"
| "compare (BigIntData v) other = (case other of
     Some (BigIntData r) \<Rightarrow> Inr (\<not> sint v \<le> sint r) | _ \<Rightarrow> Inl incompatible_data_types_error)"
| "compare (BooleanData v) other = Inl uncomparable_type_error"
| "compare (DoubleData v) other = (case other of
     Some (DoubleData r) \<Rightarrow> Inr (\<not> ieee_le 52 v r) | _ \<Rightarrow> Inl incompatible_data_types_error)"
| "compare (FloatData v) other = (case other of
     Some (FloatData r) \<Rightarrow> Inr (\<not> ieee_le 23 v r) | _ \<Rightarrow> Inl incompatible_data_types_error)"
| "compare (IntData v) other = (case other of
     Some (IntData r) \<Rightarrow> Inr (\<not> sint v \<le> sint r) | _ \<Rightarrow> Inl incompatible_data_types_error)"
| "compare (SmallIntData v) other = (case other of
     Some (SmallIntData r) \<Rightarrow> Inr (\<not> sint v \<le> sint r) | _ \<Rightarrow> Inl incompatible_data_types_error)"
| "compare (TinyIntData v) other = (case other of
     Some (TinyIntData r) \<Rightarrow> Inr (\<not> sint v \<le> sint r) | _ \<Rightarrow> Inl incompatible_data_types_error)"
| "compare (BlobData v) other = Inl uncomparable_type_error"

fun Data_bytes :: "data \<Rightarrow> MemoryBuffer \<Rightarrow> MemoryBuffer result" where
  "Data_bytes (ASCIIData v) buf = put_string v buf"
| "Data_bytes (BigIntData v) buf = put_int64 v buf"
| "Data_bytes (BooleanData v) buf = put_boolean v buf"
| "Data_bytes (DoubleData v) buf = put_double v buf"
| "Data_bytes (FloatData v) buf = put_float v buf"
| "Data_bytes (IntData v) buf = put_int32 v buf"
| "Data_bytes (SmallIntData v) buf = put_int16 v buf"
| "Data_bytes (TinyIntData v) buf = put_int8 v buf"
| "Data_bytes (BlobData v) buf = put_blob v (of_nat (length v)) buf"

text \<open>\<^verbatim>\<open>BlobData::set_data\<close> overwrites the front of the blob.\<close>

definition BlobData_set_data :: "byte list \<Rightarrow> byte list \<Rightarrow> byte list result" where
  "BlobData_set_data new old =
     (if length old < length new then Inl Blob_Error else Inr (new @ drop (length new) old))"

text \<open>\<^verbatim>\<open>DataCmp\<close>, and \<^verbatim>\<open>value->bytes(buf)\<close>.\<close>

definition DataCmp :: "dptr \<Rightarrow> dptr \<Rightarrow> bool result" where
  "DataCmp lhs rhs = bindR (deref lhs) (\<lambda>d. compare d rhs)"

definition dptr_bytes :: "dptr \<Rightarrow> MemoryBuffer \<Rightarrow> MemoryBuffer result" where
  "dptr_bytes p buf = bindR (deref p) (\<lambda>d. Data_bytes d buf)"

section \<open>Types and values are codecs\<close>

fun id_ok :: "type_id \<Rightarrow> bool" where
  "id_ok (T_UNNAMED w) = (9 \<le> w \<and> w < 16)"
| "id_ok _ = True"

abbreviation type_ok :: "data_type \<Rightarrow> bool" where
  "type_ok t \<equiv> id_ok (ty_id t)"

definition Type_enc :: "data_type \<Rightarrow> byte list" where
  "Type_enc t = [type_id_code (ty_id t)] @ to_le 4 (ty_length t)"

lemma length_Type_enc [simp]: "length (Type_enc t) = 5"
  by (simp add: Type_enc_def)

lemma type_id_cast_code: "id_ok i \<Longrightarrow> type_id_cast (type_id_code i) = Inr i"
proof (cases i)
  case (T_UNNAMED w)
  moreover assume "id_ok i"
  moreover have "w \<noteq> 0" "w \<noteq> 1" "w \<noteq> 2" "w \<noteq> 3" "w \<noteq> 4" "w \<noteq> 5" "w \<noteq> 6" "w \<noteq> 7" "w \<noteq> 8"
    if "9 \<le> w" using that by (auto simp: word_le_nat_alt)
  ultimately show ?thesis by (simp add: type_id_cast_def)
qed (simp_all add: type_id_cast_def)

interpretation typec: codec type_ok Type_enc Type_bytes Type_from
proof
  fix t :: data_type
  show "writes (Type_enc t) (Type_bytes t)"
    unfolding Type_enc_def Type_bytes_def [abs_def] by (rule writes_bind) (rule codec_intros)+
  assume ok: "type_ok t"
  show "reads (Type_enc t) t Type_from"
    unfolding Type_enc_def Type_from_def [abs_def]
    by (rule reads_bind, rule codec_intros, rule reads_last, rule codec_intros)
      (simp add: type_id_cast_code ok)
qed

fun data_ok :: "data \<Rightarrow> bool" where
  "data_ok (ASCIIData s) = (length s < 2 ^ 31)"
| "data_ok (BlobData bs) = (length bs < 2 ^ 31)"
| "data_ok _ = True"

fun Data_enc :: "data \<Rightarrow> byte list" where
  "Data_enc (ASCIIData v) = bytes_of_string v"
| "Data_enc (BigIntData v) = to_le 8 v"
| "Data_enc (BooleanData v) = bool_byte v"
| "Data_enc (DoubleData v) = to_le 8 v"
| "Data_enc (FloatData v) = to_le 4 v"
| "Data_enc (IntData v) = to_le 4 v"
| "Data_enc (SmallIntData v) = to_le 2 v"
| "Data_enc (TinyIntData v) = [v]"
| "Data_enc (BlobData v) = v"

fun dptr_enc :: "dptr \<Rightarrow> byte list" where
  "dptr_enc None = []"
| "dptr_enc (Some d) = Data_enc d"

definition dptr_ok :: "data_type \<Rightarrow> dptr \<Rightarrow> bool" where
  "dptr_ok t p \<longleftrightarrow> (\<exists>d. p = Some d \<and> data_ok d \<and> type_of d = t)"

lemma length_Data_enc: "data_ok d \<Longrightarrow> length (Data_enc d) = unat (ty_length (type_of d))"
  by (cases d) (simp_all add: unat_of_nat take_bit_nat_eq_self)

lemma length_dptr_enc: "dptr_ok t p \<Longrightarrow> length (dptr_enc p) = unat (ty_length t)"
  by (auto simp: dptr_ok_def length_Data_enc)

lemma Data_bytes_unfold:
  "Data_bytes (ASCIIData s) = put_string s" "Data_bytes (BigIntData w64) = put_int64 w64"
  "Data_bytes (BooleanData v) = put_boolean v" "Data_bytes (DoubleData w64) = put_double w64"
  "Data_bytes (FloatData w32) = put_float w32" "Data_bytes (IntData w32) = put_int32 w32"
  "Data_bytes (SmallIntData w16) = put_int16 w16" "Data_bytes (TinyIntData w8) = put_int8 w8"
  "Data_bytes (BlobData bs) = put_blob bs (of_nat (length bs))"
  by (rule ext, simp)+

lemma writes_Data: "data_ok d \<Longrightarrow> writes (Data_enc d) (Data_bytes d)"
  by (cases d) (simp_all add: Data_bytes_unfold codec_intros)

lemma reads_Data: "data_ok d \<Longrightarrow> reads (Data_enc d) (Some d) (Data_from (type_of d))"
  unfolding Data_from_def [abs_def]
  by (cases d; simp; rule reads_last, rule codec_intros) simp_all

interpretation datac: codec "dptr_ok t" dptr_enc dptr_bytes "Data_from t" for t
proof
  fix p assume "dptr_ok t p"
  then obtain d where d: "p = Some d" "data_ok d" "type_of d = t" by (auto simp: dptr_ok_def)
  have "dptr_bytes p = Data_bytes d" by (rule ext) (simp add: dptr_bytes_def d)
  then show "writes (dptr_enc p) (dptr_bytes p)" using writes_Data [OF d(2)] by (simp add: d)
  show "reads (dptr_enc p) p (Data_from t)" using reads_Data [OF d(2)] d by simp
qed

lemma Data_copy_eq: "data_ok d \<Longrightarrow> Data_copy (Some d) = Inr d"
  by (cases d) (simp_all add: Data_copy_def BlobData_data_def sint_of_nat_small)

section \<open>The order of the sort keys\<close>

text \<open>
  The types whose values \<^verbatim>\<open>DataCmp\<close> orders strictly and totally. Booleans and
  blobs throw; a NaN makes a floating point column no order, and its two zeros are different bit patterns.
\<close>

fun ordered_id :: "type_id \<Rightarrow> bool" where
  "ordered_id T_ASCII = True"
| "ordered_id T_BIGINT = True"
| "ordered_id T_INT = True"
| "ordered_id T_SMALLINT = True"
| "ordered_id T_TINYINT = True"
| "ordered_id _ = False"

fun data_before :: "data \<Rightarrow> data \<Rightarrow> bool" where
  "data_before (ASCIIData a) (ASCIIData b) = (b < a)"
| "data_before (BigIntData a) (BigIntData b) = (sint b < sint a)"
| "data_before (IntData a) (IntData b) = (sint b < sint a)"
| "data_before (SmallIntData a) (SmallIntData b) = (sint b < sint a)"
| "data_before (TinyIntData a) (TinyIntData b) = (sint b < sint a)"
| "data_before _ _ = False"

definition key_ok :: "data_type \<Rightarrow> dptr \<Rightarrow> bool" where
  "key_ok t p \<longleftrightarrow> ordered_id (ty_id t) \<and> dptr_ok t p"

definition key_before :: "dptr \<Rightarrow> dptr \<Rightarrow> bool" where
  "key_before p q = (case (p, q) of (Some a, Some b) \<Rightarrow> data_before a b | _ \<Rightarrow> False)"

lemma same_type_cases:
  assumes "ordered_id (ty_id t)" "type_of a = t" "type_of b = t"
  obtains s r where "a = ASCIIData s" "b = ASCIIData r"
    | v w where "a = BigIntData v" "b = BigIntData w"
    | v w where "a = IntData v" "b = IntData w"
    | v w where "a = SmallIntData v" "b = SmallIntData w"
    | v w where "a = TinyIntData v" "b = TinyIntData w"
  using assms by (cases a; cases b) auto

lemma data_before_trans: "data_before a b \<Longrightarrow> data_before b c \<Longrightarrow> data_before a c"
  by (cases a; cases b; cases c) auto

lemma data_before_irrefl: "\<not> data_before a a"
  by (cases a) auto

lemma compare_before:
  assumes "ordered_id (ty_id t)" "type_of a = t" "type_of b = t"
  shows "compare a (Some b) = Inr (data_before a b)"
  using assms by (rule same_type_cases) (simp_all add: not_le)

lemma data_before_total:
  assumes "ordered_id (ty_id t)" "type_of a = t" "type_of b = t" "a \<noteq> b"
  shows "data_before a b \<or> data_before b a"
  using assms(1-3) by (rule same_type_cases) (use assms(4) in \<open>auto simp: not_less_iff_gr_or_eq dest: sint_inj\<close>)

interpretation dmap: cmp_order "key_ok t" DataCmp key_before for t
proof
  fix a b c
  show "key_ok t a \<Longrightarrow> key_ok t b \<Longrightarrow> DataCmp a b = Inr (key_before a b)"
    by (auto simp: key_ok_def dptr_ok_def DataCmp_def key_before_def compare_before)
  show "key_ok t a \<Longrightarrow> \<not> key_before a a"
    by (auto simp: key_before_def data_before_irrefl split: option.split)
  show "key_ok t a \<Longrightarrow> key_ok t b \<Longrightarrow> key_ok t c \<Longrightarrow> key_before a b \<Longrightarrow> key_before b c \<Longrightarrow> key_before a c"
    by (auto simp: key_before_def split: option.splits dest: data_before_trans)
  show "key_ok t a \<Longrightarrow> key_ok t b \<Longrightarrow> a \<noteq> b \<Longrightarrow> key_before a b \<or> key_before b a"
    by (auto simp: key_ok_def dptr_ok_def key_before_def dest: data_before_total)
qed

section \<open>Properties\<close>

text \<open>
  Property C13. For sort keys of one integer or string type, \<^verbatim>\<open>DataCmp\<close> answers
  without throwing and is a strict total order, the contract \<^verbatim>\<open>std::map\<close> asks
  of a comparator; the greater key comes first.
\<close>

theorem DataCmp_strict_total_order:
  assumes "key_ok t a" "key_ok t b" "key_ok t c"
  shows "DataCmp a a = Inr False \<and>
    (DataCmp a b = Inr True \<longrightarrow> DataCmp b a = Inr False) \<and>
    (DataCmp a b = Inr True \<longrightarrow> DataCmp b c = Inr True \<longrightarrow> DataCmp a c = Inr True) \<and>
    (a \<noteq> b \<longrightarrow> DataCmp a b = Inr True \<or> DataCmp b a = Inr True)"
  using dmap.cmp_eq [OF assms(1,1)] dmap.cmp_eq [OF assms(1,2)] dmap.cmp_eq [OF assms(2,1)]
    dmap.cmp_eq [OF assms(2,3)] dmap.cmp_eq [OF assms(1,3)] dmap.lt_irrefl [OF assms(1)]
    dmap.lt_asym [OF assms(1,2)] dmap.lt_trans [OF assms] dmap.lt_total [OF assms(1,2)]
  by simp

theorem DataCmp_strict_total_order_witness:
  "DataCmp (Some (IntData 5)) (Some (IntData 5)) = Inr False \<and>
   DataCmp (Some (IntData (- 1))) (Some (IntData 5)) = Inr False \<and>
   DataCmp (Some (IntData 5)) (Some (IntData (- 2))) = Inr True"
proof -
  let ?t = "\<lparr>ty_id = T_INT, ty_length = 4\<rparr>"
  have ok: "key_ok ?t (Some (IntData 5))" "key_ok ?t (Some (IntData (- 1)))"
      "key_ok ?t (Some (IntData (- 2)))"
    by (simp_all add: key_ok_def dptr_ok_def)
  have "DataCmp (Some (IntData 5)) (Some (IntData (- 1))) = Inr True"
      "DataCmp (Some (IntData (- 1))) (Some (IntData (- 2))) = Inr True"
    by (simp_all add: DataCmp_def)
  then show ?thesis using DataCmp_strict_total_order [OF ok] by blast
qed

text \<open>
  The order of the keys is descending: of two integer keys the one with the greater signed
  value comes first, of two strings the lexicographically greater one; a boolean or blob key throws
  \<^verbatim>\<open>uncomparable_type_error\<close>, and keys of two different classes throw
  \<^verbatim>\<open>incompatible_data_types_error\<close>.
\<close>

theorem DataCmp_descending:
  "DataCmp (Some (IntData v)) (Some (IntData w)) = Inr (sint w < sint v) \<and>
   DataCmp (Some (BigIntData v')) (Some (BigIntData w')) = Inr (sint w' < sint v') \<and>
   DataCmp (Some (ASCIIData s)) (Some (ASCIIData s')) = Inr (s' < s) \<and>
   DataCmp (Some (BooleanData x)) p = Inl uncomparable_type_error \<and>
   DataCmp (Some (BlobData bs)) p = Inl uncomparable_type_error \<and>
   DataCmp (Some (IntData v)) (Some (ASCIIData s)) = Inl incompatible_data_types_error"
  by (simp add: DataCmp_def not_le)

section \<open>Changing a value\<close>

text \<open>
  An object with its \<^verbatim>\<open>m_type\<close>, and the \<^verbatim>\<open>set_data\<close> methods, each of which takes a value of its
  class only (\<open>None\<close> otherwise: such a call is not well typed). They change the value and not the type.
\<close>

record data_object =
  ob_type :: data_type
  ob_data :: data

definition Data_object :: "data \<Rightarrow> data_object" where
  "Data_object d = \<lparr>ob_type = type_of d, ob_data = d\<rparr>"

definition set_value :: "data \<Rightarrow> data \<Rightarrow> data result option" where
  "set_value v old = (case old of
     ASCIIData _ \<Rightarrow> (case v of ASCIIData s \<Rightarrow> Some (Inr (ASCIIData s)) | _ \<Rightarrow> None)
   | BigIntData _ \<Rightarrow> (case v of BigIntData i \<Rightarrow> Some (Inr (BigIntData i)) | _ \<Rightarrow> None)
   | BooleanData _ \<Rightarrow> (case v of BooleanData b \<Rightarrow> Some (Inr (BooleanData b)) | _ \<Rightarrow> None)
   | DoubleData _ \<Rightarrow> (case v of DoubleData x \<Rightarrow> Some (Inr (DoubleData x)) | _ \<Rightarrow> None)
   | FloatData _ \<Rightarrow> (case v of FloatData x \<Rightarrow> Some (Inr (FloatData x)) | _ \<Rightarrow> None)
   | IntData _ \<Rightarrow> (case v of IntData i \<Rightarrow> Some (Inr (IntData i)) | _ \<Rightarrow> None)
   | SmallIntData _ \<Rightarrow> (case v of SmallIntData i \<Rightarrow> Some (Inr (SmallIntData i)) | _ \<Rightarrow> None)
   | TinyIntData _ \<Rightarrow> (case v of TinyIntData i \<Rightarrow> Some (Inr (TinyIntData i)) | _ \<Rightarrow> None)
   | BlobData bs \<Rightarrow> (case v of
       BlobData new \<Rightarrow> Some (bindR (BlobData_set_data new bs) (\<lambda>bs. Inr (BlobData bs)))
     | _ \<Rightarrow> None))"

definition set_data :: "data \<Rightarrow> data_object \<Rightarrow> data_object result option" where
  "set_data v ob = map_option (\<lambda>r. bindR r (\<lambda>d. Inr (ob\<lparr>ob_data := d\<rparr>))) (set_value v (ob_data ob))"

text \<open>
  The type goes on describing the object exactly when it is not a string, or a string of the same length as before.
\<close>

theorem set_data_type:
  assumes "ob_type ob = type_of (ob_data ob)" "set_data v ob = Some (Inr ob')"
  shows "ob_type ob' = ob_type ob \<and> (ob_type ob' = type_of (ob_data ob') \<longleftrightarrow>
    (case (ob_data ob, ob_data ob') of
       (ASCIIData s, ASCIIData t) \<Rightarrow> (of_nat (length s) :: u32) = of_nat (length t)
     | _ \<Rightarrow> True))"
  using assms
  by (auto simp: set_data_def set_value_def BlobData_set_data_def bindR_eq_Inr split: data.splits if_splits)

text \<open>A string set to a longer one is written whole but read back, by its type, only up to its old length.\<close>

theorem set_data_string_cut:
  assumes "set_data (ASCIIData t) (Data_object (ASCIIData s)) = Some (Inr ob)" "length s \<le> length t" "length t < 2 ^ 31"
  shows "writes (bytes_of_string t) (Data_bytes (ob_data ob)) \<and>
    reads (bytes_of_string (take (length s) t)) (Some (ASCIIData (take (length s) t))) (Data_from (ob_type ob))"
proof -
  have ob: "ob = \<lparr>ob_type = type_of (ASCIIData s), ob_data = ASCIIData t\<rparr>"
    using assms(1) by (simp add: set_data_def set_value_def Data_object_def)
  have "type_of (ASCIIData s) = type_of (ASCIIData (take (length s) t))" using assms(2) by simp
  then have "ob_type ob = type_of (ASCIIData (take (length s) t))" using ob by simp
  then show ?thesis
    using writes_Data [of "ASCIIData t"] reads_Data [of "ASCIIData (take (length s) t)"] assms(2,3) ob by simp
qed

end
