(* ===== verification/Catalog_Schema.thy ===== *)
theory Catalog_Schema
  imports Catalog_Data
begin

text \<open>
  \<^verbatim>\<open>catalog::Field\<close>, \<^verbatim>\<open>Schema\<close>,
  \<^verbatim>\<open>Record\<close> and \<^verbatim>\<open>Table\<close>: the description of a table and
  its rows. Each class is a codec (\<open>fieldc\<close>, \<open>schemac\<close>, \<open>recordc\<close>, \<open>tablec\<close>), the
  \<^verbatim>\<open>size()\<close> methods announce exactly the bytes that are written, and a record that
  \<^verbatim>\<open>Schema::verify\<close> accepts fills \<^verbatim>\<open>record_size()\<close> bytes.
\<close>

section \<open>Field\<close>

record field =
  fd_name :: string
  fd_type :: data_type

definition Field_from :: "MemoryBuffer \<Rightarrow> (field \<times> MemoryBuffer) result" where
  "Field_from buf =
     bindR (get_uint8 buf) (\<lambda>(name_length, buf).
     bindR (get_string (ucast name_length) buf) (\<lambda>(name, buf).
     bindR (Type_from buf) (\<lambda>(t, buf). Inr (\<lparr>fd_name = name, fd_type = t\<rparr>, buf))))"

definition Field_size :: "field \<Rightarrow> u64" where
  "Field_size f = 1 + of_nat (length (fd_name f)) + Type_size (fd_type f)"

definition Field_bytes :: "field \<Rightarrow> MemoryBuffer \<Rightarrow> MemoryBuffer result" where
  "Field_bytes f buf =
     bindR (put_uint8 (of_nat (length (fd_name f))) buf) (\<lambda>buf.
     bindR (put_string (fd_name f) buf) (Type_bytes (fd_type f)))"

section \<open>Schema\<close>

record schema =
  sc_sort_key_index :: u64
  sc_partition_key_index :: u64
  sc_fields :: "field list"

type_synonym row = "dptr list"

definition Schema_from :: "MemoryBuffer \<Rightarrow> (schema \<times> MemoryBuffer) result" where
  "Schema_from buf =
     bindR (get_uint8 buf) (\<lambda>(fields_length, buf).
     bindR (get_many (unat fields_length) Field_from buf) (\<lambda>(fields, buf).
     bindR (get_uint64 buf) (\<lambda>(sort_index, buf).
     bindR (get_uint64 buf) (\<lambda>(partition_index, buf).
       Inr (\<lparr>sc_sort_key_index = sort_index, sc_partition_key_index = partition_index,
             sc_fields = fields\<rparr>, buf)))))"

text \<open>\<^verbatim>\<open>Schema::verify\<close>: the sizes, then the types position by position.\<close>

fun verify_types :: "row \<Rightarrow> field list \<Rightarrow> bool result" where
  "verify_types (v # vs) (f # fs) =
     bindR (deref v) (\<lambda>d. if \<not> Type_eq (type_of d) (fd_type f) then Inr False else verify_types vs fs)"
| "verify_types _ _ = Inr True"

definition Schema_verify :: "schema \<Rightarrow> row \<Rightarrow> bool result" where
  "Schema_verify s values =
     (if length values \<noteq> length (sc_fields s) then Inr False else verify_types values (sc_fields s))"

definition Schema_push_back :: "field \<Rightarrow> schema \<Rightarrow> schema" where
  "Schema_push_back f s = s\<lparr>sc_fields := sc_fields s @ [f]\<rparr>"

definition set_sort_key_index :: "u64 \<Rightarrow> schema \<Rightarrow> schema" where
  "set_sort_key_index i s = s\<lparr>sc_sort_key_index := i\<rparr>"

text \<open>The setter of the partition key assigns the sort key.\<close>

definition set_partition_key_index :: "u64 \<Rightarrow> schema \<Rightarrow> schema" where
  "set_partition_key_index sort_key_index s = s\<lparr>sc_sort_key_index := sort_key_index\<rparr>"

definition record_size :: "schema \<Rightarrow> u64" where
  "record_size s = sum_list (map (\<lambda>f. Type_length (fd_type f)) (sc_fields s))"

definition Schema_size :: "schema \<Rightarrow> u64" where
  "Schema_size s = 1 + sum_list (map Field_size (sc_fields s)) + 8 + 8"

definition Schema_bytes :: "schema \<Rightarrow> MemoryBuffer \<Rightarrow> MemoryBuffer result" where
  "Schema_bytes s buf =
     bindR (put_uint8 (of_nat (length (sc_fields s))) buf) (\<lambda>buf.
     bindR (put_all Field_bytes (sc_fields s) buf) (\<lambda>buf.
     bindR (put_uint64 (sc_sort_key_index s) buf) (put_uint64 (sc_partition_key_index s))))"

section \<open>Record\<close>

text \<open>A record is its vector of pointers. Parsing reads one value per field of the schema.\<close>

fun read_values :: "field list \<Rightarrow> MemoryBuffer \<Rightarrow> (row \<times> MemoryBuffer) result" where
  "read_values [] buf = Inr ([], buf)"
| "read_values (f # fs) buf =
     bindR (Data_from (fd_type f) buf) (\<lambda>(v, buf).
     bindR (read_values fs buf) (\<lambda>(vs, buf). Inr (v # vs, buf)))"

definition Record_from :: "schema \<Rightarrow> MemoryBuffer \<Rightarrow> (row \<times> MemoryBuffer) result" where
  "Record_from s buf = read_values (sc_fields s) buf"

definition Record_bytes :: "row \<Rightarrow> MemoryBuffer \<Rightarrow> MemoryBuffer result" where
  "Record_bytes values buf = put_all dptr_bytes values buf"

section \<open>Table\<close>

record table =
  tb_name :: string
  tb_schema :: schema
  tb_last_sstable_id :: u64

definition Table_from :: "MemoryBuffer \<Rightarrow> (table \<times> MemoryBuffer) result" where
  "Table_from buf =
     bindR (get_uint8 buf) (\<lambda>(name_length, buf).
     bindR (get_string (ucast name_length) buf) (\<lambda>(name, buf).
     bindR (Schema_from buf) (\<lambda>(s, buf).
     bindR (get_uint64 buf) (\<lambda>(i, buf).
       Inr (\<lparr>tb_name = name, tb_schema = s, tb_last_sstable_id = i\<rparr>, buf)))))"

definition Table_size :: "table \<Rightarrow> u64" where
  "Table_size t = 1 + of_nat (length (tb_name t)) + Schema_size (tb_schema t) + 8"

definition Table_bytes :: "table \<Rightarrow> MemoryBuffer \<Rightarrow> MemoryBuffer result" where
  "Table_bytes t buf =
     bindR (put_uint8 (of_nat (length (tb_name t))) buf) (\<lambda>buf.
     bindR (put_string (tb_name t) buf) (\<lambda>buf.
     bindR (Schema_bytes (tb_schema t) buf) (put_uint64 (tb_last_sstable_id t))))"

section \<open>The codecs\<close>

definition name_ok :: "string \<Rightarrow> bool" where
  "name_ok s \<longleftrightarrow> length s < 256"

lemma ucast_of_nat_byte: "n < 256 \<Longrightarrow> (ucast (of_nat n :: u8) :: u32) = of_nat n"
  by (simp add: unsigned_of_nat take_bit_nat_eq_self)

lemma unat_of_nat_byte: "n < 256 \<Longrightarrow> unat (of_nat n :: u8) = n"
  by (simp add: unat_of_nat take_bit_nat_eq_self)

lemma reads_name:
  "name_ok s \<Longrightarrow> reads (bytes_of_string s) s (get_string (ucast (of_nat (length s) :: u8)))"
  using reads_string [of s] by (simp add: ucast_of_nat_byte name_ok_def)

lemma writes_name: "name_ok s \<Longrightarrow> writes (bytes_of_string s) (put_string s)"
  using writes_string [of s] by (simp add: name_ok_def)

definition Field_enc :: "field \<Rightarrow> byte list" where
  "Field_enc f =
     [of_nat (length (fd_name f))] @ bytes_of_string (fd_name f) @ Type_enc (fd_type f)"

definition field_ok :: "field \<Rightarrow> bool" where
  "field_ok f \<longleftrightarrow> name_ok (fd_name f) \<and> type_ok (fd_type f)"

lemma length_Field_enc [simp]: "length (Field_enc f) = 6 + length (fd_name f)"
  by (simp add: Field_enc_def)

interpretation fieldc: codec field_ok Field_enc Field_bytes Field_from
proof
  fix f assume ok: "field_ok f"
  then have n: "name_ok (fd_name f)" and t: "type_ok (fd_type f)" by (simp_all add: field_ok_def)
  show "writes (Field_enc f) (Field_bytes f)"
    unfolding Field_enc_def Field_bytes_def [abs_def]
    by (intro writes_bind codec_intros writes_name n typec.put_writes t)
  show "reads (Field_enc f) f Field_from"
    unfolding Field_enc_def Field_from_def [abs_def]
    by (rule reads_bind, rule codec_intros, rule reads_bind, rule reads_name [OF n],
        rule reads_last, rule typec.get_reads [OF t]) simp
qed

definition Schema_enc :: "schema \<Rightarrow> byte list" where
  "Schema_enc s = [of_nat (length (sc_fields s))] @ concat (map Field_enc (sc_fields s)) @
     to_le 8 (sc_sort_key_index s) @ to_le 8 (sc_partition_key_index s)"

definition schema_ok :: "schema \<Rightarrow> bool" where
  "schema_ok s \<longleftrightarrow> length (sc_fields s) < 256 \<and> (\<forall>f \<in> set (sc_fields s). field_ok f)"

interpretation schemac: codec schema_ok Schema_enc Schema_bytes Schema_from
proof
  fix s assume "schema_ok s"
  then have n: "length (sc_fields s) < 256" and f: "\<And>f. f \<in> set (sc_fields s) \<Longrightarrow> field_ok f"
    by (simp_all add: schema_ok_def)
  show "writes (Schema_enc s) (Schema_bytes s)"
    unfolding Schema_enc_def Schema_bytes_def [abs_def]
    by (intro writes_bind codec_intros writes_put_all fieldc.put_writes f)
  show "reads (Schema_enc s) s Schema_from"
    unfolding Schema_enc_def Schema_from_def [abs_def]
    by (rule reads_bind, rule codec_intros, rule reads_bind, subst unat_of_nat_byte [OF n],
        rule reads_get_many, rule fieldc.get_reads, erule f, rule reads_bind, rule codec_intros,
        rule reads_last, rule codec_intros) simp
qed

definition Table_enc :: "table \<Rightarrow> byte list" where
  "Table_enc t = [of_nat (length (tb_name t))] @ bytes_of_string (tb_name t) @
     Schema_enc (tb_schema t) @ to_le 8 (tb_last_sstable_id t)"

definition table_ok :: "table \<Rightarrow> bool" where
  "table_ok t \<longleftrightarrow> name_ok (tb_name t) \<and> schema_ok (tb_schema t)"

interpretation tablec: codec table_ok Table_enc Table_bytes Table_from
proof
  fix t assume "table_ok t"
  then have n: "name_ok (tb_name t)" and s: "schema_ok (tb_schema t)"
    by (simp_all add: table_ok_def)
  show "writes (Table_enc t) (Table_bytes t)"
    unfolding Table_enc_def Table_bytes_def [abs_def]
    by (intro writes_bind codec_intros writes_name n schemac.put_writes s)
  show "reads (Table_enc t) t Table_from"
    unfolding Table_enc_def Table_from_def [abs_def]
    by (rule reads_bind, rule codec_intros, rule reads_bind, rule reads_name [OF n],
        rule reads_bind, rule schemac.get_reads [OF s], rule reads_last, rule codec_intros) simp
qed

text \<open>Records: \<open>row_ok\<close> is the shape \<^verbatim>\<open>Schema::verify\<close> accepts.\<close>

definition row_ok :: "schema \<Rightarrow> row \<Rightarrow> bool" where
  "row_ok s r \<longleftrightarrow> list_all2 (\<lambda>f p. dptr_ok (fd_type f) p) (sc_fields s) r"

definition row_enc :: "row \<Rightarrow> byte list" where
  "row_enc r = concat (map dptr_enc r)"

lemma reads_values:
  "list_all2 (\<lambda>f p. dptr_ok (fd_type f) p) fs r \<Longrightarrow> reads (row_enc r) r (read_values fs)"
proof (induction fs r rule: list_all2_induct)
  case Nil
  have "read_values [] = (\<lambda>b. Inr ([], b))" by (rule ext) simp
  then show ?case by (simp add: row_enc_def reads_Nil)
next
  case (Cons f fs p r)
  have eq: "read_values (f # fs) = (\<lambda>buf. bindR (Data_from (fd_type f) buf) (\<lambda>(v, buf).
     bindR (read_values fs buf) (\<lambda>(vs, buf). Inr (v # vs, buf))))"
    by (rule ext) simp
  show ?case
    unfolding eq row_enc_def list.map concat.simps
    by (rule reads_bind, rule datac.get_reads [OF Cons.hyps(1)], rule reads_last,
        rule Cons.IH [unfolded row_enc_def]) simp
qed

interpretation recordc: codec "row_ok s" row_enc Record_bytes "Record_from s" for s
proof
  fix r assume ok: "row_ok s r"
  then have "\<And>p. p \<in> set r \<Longrightarrow> \<exists>t. dptr_ok t p"
    by (auto simp: row_ok_def list_all2_conv_all_nth in_set_conv_nth)
  then show "writes (row_enc r) (Record_bytes r)"
    unfolding row_enc_def Record_bytes_def [abs_def]
    by (intro writes_put_all) (metis datac.put_writes)
  show "reads (row_enc r) r (Record_from s)"
    unfolding Record_from_def [abs_def] using ok by (simp add: row_ok_def reads_values)
qed

section \<open>Announced sizes\<close>

lemma Field_size_eq: "Field_size f = of_nat (length (Field_enc f))"
  by (simp add: Field_size_def Type_size_def)

lemma Schema_size_eq: "Schema_size s = of_nat (length (Schema_enc s))"
proof -
  have "sum_list (map Field_size fs) = of_nat (length (concat (map Field_enc fs)))" for fs
    by (induction fs) (simp_all add: Field_size_eq)
  then show ?thesis by (simp add: Schema_size_def Schema_enc_def)
qed

lemma Table_size_eq: "Table_size t = of_nat (length (Table_enc t))"
  by (simp add: Table_size_def Table_enc_def Schema_size_eq)

lemma record_size_eq:
  assumes "row_ok s r"
  shows "record_size s = of_nat (length (row_enc r))"
proof -
  have "sum_list (map (\<lambda>f. Type_length (fd_type f)) fs) = of_nat (length (row_enc r))"
    if "list_all2 (\<lambda>f p. dptr_ok (fd_type f) p) fs r" for fs r
    using that
    by (induction fs r rule: list_all2_induct)
      (simp_all add: row_enc_def length_dptr_enc Type_length_def)
  then show ?thesis using assms by (simp add: record_size_def row_ok_def)
qed

lemma length_row_enc:
  assumes "row_ok s r"
  shows "length (row_enc r) = sum_list (map (\<lambda>f. unat (ty_length (fd_type f))) (sc_fields s))"
proof -
  have "length (row_enc r) = sum_list (map (\<lambda>f. unat (ty_length (fd_type f))) fs)"
    if "list_all2 (\<lambda>f p. dptr_ok (fd_type f) p) fs r" for fs
    using that by (induction fs r rule: list_all2_induct) (simp_all add: row_enc_def length_dptr_enc)
  then show ?thesis using assms by (simp add: row_ok_def)
qed

lemma length_Field_enc_bound: "field_ok f \<Longrightarrow> length (Field_enc f) < 262"
  by (simp add: field_ok_def name_ok_def)

lemma length_Schema_enc_bound:
  assumes "schema_ok s"
  shows "length (Schema_enc s) < 2 ^ 17"
proof -
  have "length (concat (map Field_enc fs)) \<le> 262 * length fs" if "\<forall>f \<in> set fs. field_ok f" for fs
    using that by (induction fs) (auto dest!: length_Field_enc_bound)
  then show ?thesis
    using assms by (fastforce simp: Schema_enc_def schema_ok_def)
qed

lemma length_Table_enc_bound: "table_ok t \<Longrightarrow> length (Table_enc t) < 2 ^ 18"
  using length_Schema_enc_bound [of "tb_schema t"]
  by (simp add: Table_enc_def table_ok_def name_ok_def)

section \<open>Verification of a record\<close>

lemma unat_Type_length [simp]: "unat (Type_length t) = unat (ty_length t)"
  by (simp add: Type_length_def unsigned_ucast_eq take_bit_nat_eq_self less_le_trans [OF unsigned_less])

lemma Type_eq_iff: "Type_eq a b \<longleftrightarrow> a = b"
proof -
  have "Type_length a = Type_length b \<Longrightarrow> ty_length a = ty_length b"
    by (metis unat_Type_length word_unat_eq_iff)
  then show ?thesis by (auto simp: Type_eq_def)
qed

lemma verify_types_eq:
  assumes "length r = length fs" "\<And>p. p \<in> set r \<Longrightarrow> \<exists>d. p = Some d \<and> data_ok d"
  shows "verify_types r fs = Inr (list_all2 (\<lambda>f p. dptr_ok (fd_type f) p) fs r)"
  using assms
proof (induction r fs rule: list_induct2)
  case Nil
  then show ?case by simp
next
  case (Cons p r f fs)
  then obtain d where "p = Some d" "data_ok d" by (meson list.set_intros(1))
  then show ?case using Cons by (simp add: Type_eq_iff dptr_ok_def)
qed

lemma Schema_verify_eq:
  assumes "\<And>p. p \<in> set r \<Longrightarrow> \<exists>d. p = Some d \<and> data_ok d"
  shows "Schema_verify s r = Inr (row_ok s r)"
  using assms verify_types_eq [of r "sc_fields s"]
  by (auto simp: Schema_verify_def row_ok_def dest: list_all2_lengthD)

text \<open>A good row has a value of the field's type at every position of the schema.\<close>

lemma row_ok_nth:
  assumes "row_ok s r" "i < length (sc_fields s)"
  shows "i < length r \<and> dptr_ok (fd_type (sc_fields s ! i)) (r ! i)"
  using assms by (auto simp: row_ok_def list_all2_conv_all_nth)

section \<open>Properties\<close>

text \<open>
  Property C9. A table description whose name and column names have fewer than 256 characters and which
  has fewer than 256 columns survives serialisation: written to a buffer of
  \<^verbatim>\<open>size()\<close> bytes it fills the buffer exactly, and parsing these bytes gives the same
  table and consumes all of them.
\<close>

theorem table_roundtrip:
  assumes "table_ok t"
  shows "\<exists>b b'. Table_bytes t (MemoryBuffer_new (Table_size t)) = Inr b \<and>
    Table_from (MemoryBuffer_of (MemoryBuffer_bytes b) (Table_size t)) = Inr (t, b') \<and>
    mb_offset b' = Table_size t"
proof -
  have "length (Table_enc t) < 2 ^ 31" using length_Table_enc_bound [OF assms] by simp
  then show ?thesis using tablec.exact_roundtrip [OF assms _ Table_size_eq] by blast
qed

definition example_schema :: schema where
  "example_schema = \<lparr>sc_sort_key_index = 0, sc_partition_key_index = 0,
     sc_fields = [\<lparr>fd_name = ''id'', fd_type = \<lparr>ty_id = T_INT, ty_length = 4\<rparr>\<rparr>,
                  \<lparr>fd_name = ''name'', fd_type = \<lparr>ty_id = T_ASCII, ty_length = 3\<rparr>\<rparr>]\<rparr>"

definition example_table :: table where
  "example_table = \<lparr>tb_name = ''students'', tb_schema = example_schema, tb_last_sstable_id = 7\<rparr>"

lemma example_table_ok: "table_ok example_table"
  by (simp add: example_table_def example_schema_def table_ok_def name_ok_def schema_ok_def field_ok_def)

theorem table_roundtrip_witness:
  "\<exists>b b'. Table_bytes example_table (MemoryBuffer_new (Table_size example_table)) = Inr b \<and>
    Table_from (MemoryBuffer_of (MemoryBuffer_bytes b) (Table_size example_table)) = Inr (example_table, b') \<and>
    mb_offset b' = Table_size example_table"
  by (rule table_roundtrip) (rule example_table_ok)

text \<open>
  Property C17. \<^verbatim>\<open>Table::size()\<close> is exact: a buffer of up to \<open>2 ^ 31 - 1\<close>
  bytes takes the table when it has at least \<^verbatim>\<open>size()\<close> bytes, and throws the
  overflow when it has fewer.
\<close>

theorem table_size_exact:
  assumes "table_ok t" "unat n < 2 ^ 31"
  shows "if Table_size t \<le> n then \<exists>b. Table_bytes t (MemoryBuffer_new n) = Inr b
    else Table_bytes t (MemoryBuffer_new n) = Inl Buffer_Overflow"
proof -
  have "unat (Table_size t) = length (Table_enc t)"
    using length_Table_enc_bound [OF assms(1)]
    by (simp add: Table_size_eq unat_of_nat take_bit_nat_eq_self)
  then show ?thesis using tablec.fits_iff [OF assms] by (simp add: word_le_nat_alt)
qed

theorem table_size_exact_witness:
  "if Table_size example_table \<le> 10 then \<exists>b. Table_bytes example_table (MemoryBuffer_new 10) = Inr b
    else Table_bytes example_table (MemoryBuffer_new 10) = Inl Buffer_Overflow"
  by (rule table_size_exact) (simp_all add: example_table_ok)

text \<open>
  Property C10. \<^verbatim>\<open>Schema::verify\<close> guards the data file: a record of non-null values that it
  accepts fills \<^verbatim>\<open>record_size()\<close> bytes exactly, and parsing these bytes with the
  schema gives the record back.
\<close>

theorem verified_record_roundtrip:
  assumes "\<And>p. p \<in> set r \<Longrightarrow> \<exists>d. p = Some d \<and> data_ok d" "Schema_verify s r = Inr True"
    "length (row_enc r) < 2 ^ 31"
  shows "\<exists>b b'. Record_bytes r (MemoryBuffer_new (record_size s)) = Inr b \<and>
    MemoryBuffer_bytes b = row_enc r \<and>
    Record_from s (MemoryBuffer_of (MemoryBuffer_bytes b) (record_size s)) = Inr (r, b') \<and>
    mb_offset b' = record_size s"
proof -
  have "row_ok s r" using Schema_verify_eq [OF assms(1)] assms(2) by simp
  then show ?thesis using recordc.exact_roundtrip [OF _ assms(3)] record_size_eq by blast
qed

definition example_row :: row where
  "example_row = [Some (IntData 42), Some (ASCIIData ''ada'')]"

theorem verified_record_roundtrip_witness:
  "\<exists>b b'. Record_bytes example_row (MemoryBuffer_new (record_size example_schema)) = Inr b \<and>
    MemoryBuffer_bytes b = row_enc example_row \<and>
    Record_from example_schema (MemoryBuffer_of (MemoryBuffer_bytes b) (record_size example_schema)) =
      Inr (example_row, b') \<and>
    mb_offset b' = record_size example_schema"
  by (rule verified_record_roundtrip)
    (auto simp: example_row_def example_schema_def row_enc_def Schema_verify_def Type_eq_def)

text \<open>
  Property C18. \<^verbatim>\<open>Schema::verify\<close> accepts a record of non-null values exactly when it has
  one value per column and each value has the type identifier and the length of its column.
\<close>

theorem Schema_verify_iff:
  assumes "\<And>p. p \<in> set r \<Longrightarrow> p \<noteq> None"
  shows "Schema_verify s r = Inr (length r = length (sc_fields s) \<and>
    (\<forall>i < length r. type_of (the (r ! i)) = fd_type (sc_fields s ! i)))"
proof -
  have "verify_types r fs = Inr (\<forall>i < length r. type_of (the (r ! i)) = fd_type (fs ! i))"
    if "length r = length fs" "\<And>p. p \<in> set r \<Longrightarrow> p \<noteq> None" for r fs
    using that
  proof (induction r fs rule: list_induct2)
    case (Cons p r f fs)
    then obtain d where d: "p = Some d" by fastforce
    have "(\<forall>i < length (p # r). type_of (the ((p # r) ! i)) = fd_type ((f # fs) ! i)) \<longleftrightarrow>
        type_of d = fd_type f \<and> (\<forall>i < length r. type_of (the (r ! i)) = fd_type (fs ! i))"
      by (auto simp: d nth_Cons split: nat.split)
    then show ?case using Cons by (simp add: d Type_eq_iff)
  qed simp
  then show ?thesis using assms by (simp add: Schema_verify_def)
qed

theorem Schema_verify_iff_witness:
  "Schema_verify example_schema [Some (IntData 42), Some (ASCIIData ''lovelace'')] = Inr False"
proof -
  let ?r = "[Some (IntData 42), Some (ASCIIData ''lovelace'')]"
  have "Schema_verify example_schema ?r = Inr (length ?r = length (sc_fields example_schema) \<and>
      (\<forall>i < length ?r. type_of (the (?r ! i)) = fd_type (sc_fields example_schema ! i)))"
    by (rule Schema_verify_iff) auto
  moreover have "type_of (the (?r ! 1)) \<noteq> fd_type (sc_fields example_schema ! 1)"
    by (simp add: example_schema_def)
  then have "\<not> (\<forall>i < length ?r. type_of (the (?r ! i)) = fd_type (sc_fields example_schema ! i))"
    by (metis One_nat_def length_Cons lessI list.size(3) numeral_2_eq_2)
  ultimately show ?thesis by simp
qed

end
