(* ===== verification/Mem_Summary.thy ===== *)
theory Mem_Summary
  imports Catalog_Schema
begin

text \<open>
  \<^verbatim>\<open>mem::Summary\<close>: the first key of every index page of an sstable. It is a codec
  (\<open>summaryc\<close>) for up to 255 keys, \<^verbatim>\<open>push_back\<close> keeps its image inside one
  page of 4096 bytes, and \<^verbatim>\<open>find_page_number\<close> is compared with the page that holds
  the key.
\<close>

section \<open>The class Summary\<close>

record summary =
  sm_sort_keys :: "dptr list"
  sm_type :: data_type

definition Summary_new :: "data_type \<Rightarrow> summary" where
  "Summary_new t = \<lparr>sm_sort_keys = [], sm_type = t\<rparr>"

definition Summary_from :: "MemoryBuffer \<Rightarrow> (summary \<times> MemoryBuffer) result" where
  "Summary_from buf =
     bindR (get_uint8 buf) (\<lambda>(sort_keys_length, buf).
     bindR (Type_from buf) (\<lambda>(t, buf).
     bindR (get_many (unat sort_keys_length) (Data_from t) buf) (\<lambda>(values, buf).
       Inr (\<lparr>sm_sort_keys = values, sm_type = t\<rparr>, buf))))"

text \<open>The scan from position \<open>i\<close>; the page number is cut to a byte when it is returned.\<close>

fun find_page_from :: "nat \<Rightarrow> dptr list \<Rightarrow> dptr \<Rightarrow> u8 result" where
  "find_page_from i [] k = Inr (of_nat i - 1)"
| "find_page_from i (p # ps) k =
     bindR (deref p) (\<lambda>d. bindR (compare d k) (\<lambda>after.
       if after then Inr (of_nat i - 1) else find_page_from (Suc i) ps k))"

definition find_page_number :: "summary \<Rightarrow> dptr \<Rightarrow> u8 result" where
  "find_page_number sm k =
     (if length (sm_sort_keys sm) = 0 then Inl (invalid_argument ''Summary is empty'')
      else if length (sm_sort_keys sm) = 1 then Inr 0
      else find_page_from 0 (sm_sort_keys sm) k)"

definition Summary_size :: "summary \<Rightarrow> u64" where
  "Summary_size sm =
     1 + Type_size (sm_type sm) + of_nat (length (sm_sort_keys sm)) * Type_length (sm_type sm)"

definition Summary_push_back :: "dptr \<Rightarrow> summary \<Rightarrow> (bool \<times> summary) result" where
  "Summary_push_back k sm =
     (if Summary_size sm + Type_length (sm_type sm) > 4096 then Inr (False, sm)
      else bindR (Data_copy k) (\<lambda>d. Inr (True, sm\<lparr>sm_sort_keys := sm_sort_keys sm @ [Some d]\<rparr>)))"

definition Summary_bytes :: "summary \<Rightarrow> MemoryBuffer \<Rightarrow> MemoryBuffer result" where
  "Summary_bytes sm buf =
     bindR (put_uint8 (of_nat (length (sm_sort_keys sm))) buf) (\<lambda>buf.
     bindR (Type_bytes (sm_type sm) buf) (put_all dptr_bytes (sm_sort_keys sm)))"

section \<open>The codec\<close>

definition Summary_enc :: "summary \<Rightarrow> byte list" where
  "Summary_enc sm = [of_nat (length (sm_sort_keys sm))] @ Type_enc (sm_type sm) @
     concat (map dptr_enc (sm_sort_keys sm))"

definition summary_ok :: "summary \<Rightarrow> bool" where
  "summary_ok sm \<longleftrightarrow> length (sm_sort_keys sm) < 256 \<and> type_ok (sm_type sm) \<and>
     (\<forall>p \<in> set (sm_sort_keys sm). dptr_ok (sm_type sm) p)"

interpretation summaryc: codec summary_ok Summary_enc Summary_bytes Summary_from
proof
  fix sm assume "summary_ok sm"
  then have n: "length (sm_sort_keys sm) < 256" and t: "type_ok (sm_type sm)"
    and k: "\<And>p. p \<in> set (sm_sort_keys sm) \<Longrightarrow> dptr_ok (sm_type sm) p"
    by (simp_all add: summary_ok_def)
  show "writes (Summary_enc sm) (Summary_bytes sm)"
    unfolding Summary_enc_def Summary_bytes_def [abs_def]
    by (intro writes_bind codec_intros writes_put_all typec.put_writes t)
      (rule datac.put_writes, erule k)
  show "reads (Summary_enc sm) sm Summary_from"
    unfolding Summary_enc_def Summary_from_def [abs_def]
    by (rule reads_bind, rule codec_intros, rule reads_bind, rule typec.get_reads [OF t],
        rule reads_last, subst unat_of_nat_byte [OF n], rule reads_get_many,
        rule datac.get_reads, erule k) simp
qed

lemma length_keys_enc:
  "\<forall>p \<in> set ps. dptr_ok t p \<Longrightarrow> length (concat (map dptr_enc ps)) = length ps * unat (ty_length t)"
  by (induction ps) (simp_all add: length_dptr_enc)

lemma length_Summary_enc:
  "\<forall>p \<in> set (sm_sort_keys sm). dptr_ok (sm_type sm) p \<Longrightarrow>
   length (Summary_enc sm) = 6 + length (sm_sort_keys sm) * unat (ty_length (sm_type sm))"
  by (simp add: Summary_enc_def length_keys_enc)

lemma Summary_size_eq:
  "\<forall>p \<in> set (sm_sort_keys sm). dptr_ok (sm_type sm) p \<Longrightarrow>
   Summary_size sm = of_nat (length (Summary_enc sm))"
  by (simp add: length_Summary_enc Summary_size_def Type_size_def Type_length_def)

section \<open>Invariant of push\_back\<close>

text \<open>What \<^verbatim>\<open>push_back\<close> keeps: keys of the type, an image of at most one page.\<close>

definition summary_inv :: "summary \<Rightarrow> bool" where
  "summary_inv sm \<longleftrightarrow> (\<forall>p \<in> set (sm_sort_keys sm). dptr_ok (sm_type sm) p) \<and>
     length (Summary_enc sm) \<le> 4096"

lemma summary_inv_new: "summary_inv (Summary_new t)"
  by (simp add: summary_inv_def Summary_new_def Summary_enc_def)

lemma push_back_guard:
  assumes "summary_inv sm"
  shows "Summary_size sm + Type_length (sm_type sm) > 4096 \<longleftrightarrow>
    4096 < length (Summary_enc sm) + unat (ty_length (sm_type sm))"
proof -
  have l: "length (Summary_enc sm) \<le> 4096" and s: "Summary_size sm = of_nat (length (Summary_enc sm))"
    using assms by (simp_all add: summary_inv_def Summary_size_eq)
  have "unat (ty_length (sm_type sm)) < 2 ^ 32"
    using unsigned_less [of "ty_length (sm_type sm)"] by simp
  then have "unat (Summary_size sm + Type_length (sm_type sm)) =
      length (Summary_enc sm) + unat (ty_length (sm_type sm))"
    using l by (simp add: s unat_word_ariths unat_of_nat take_bit_nat_eq_self)
  then show ?thesis by (simp add: word_less_nat_alt)
qed

lemma Summary_push_back_spec:
  assumes inv: "summary_inv sm" and k: "dptr_ok (sm_type sm) k"
  shows "Summary_push_back k sm =
    (if 4096 < length (Summary_enc sm) + unat (ty_length (sm_type sm)) then Inr (False, sm)
     else Inr (True, sm\<lparr>sm_sort_keys := sm_sort_keys sm @ [k]\<rparr>))"
  using k push_back_guard [OF inv]
  by (auto simp: Summary_push_back_def dptr_ok_def Data_copy_eq)

lemma Summary_push_back_inv:
  assumes inv: "summary_inv sm" and k: "dptr_ok (sm_type sm) k"
    and push: "Summary_push_back k sm = Inr (ok, sm')"
  shows "summary_inv sm' \<and> sm_type sm' = sm_type sm"
proof -
  have keys: "\<forall>p \<in> set (sm_sort_keys sm). dptr_ok (sm_type sm) p"
    using inv by (simp add: summary_inv_def)
  let ?sm = "sm\<lparr>sm_sort_keys := sm_sort_keys sm @ [k]\<rparr>"
  have "length (Summary_enc ?sm) = length (Summary_enc sm) + unat (ty_length (sm_type sm))"
    using keys k length_Summary_enc [of ?sm] length_Summary_enc [of sm] by simp
  then show ?thesis
    using push inv k unfolding Summary_push_back_spec [OF inv k]
    by (auto simp: summary_inv_def split: if_splits)
qed

section \<open>The page a key is looked up on\<close>

text \<open>The keys stored on page \<open>i\<close>: from its first key up to the first key of the next page.\<close>

definition on_page :: "dptr list \<Rightarrow> nat \<Rightarrow> dptr \<Rightarrow> bool" where
  "on_page ks i k \<longleftrightarrow> i < length ks \<and> (k = ks ! i \<or> key_before (ks ! i) k) \<and>
     (Suc i < length ks \<longrightarrow> key_before k (ks ! Suc i))"

lemma compare_key:
  "key_ok t p \<Longrightarrow> key_ok t k \<Longrightarrow> bindR (deref p) (\<lambda>d. compare d k) = Inr (key_before p k)"
  using dmap.cmp_eq by (simp add: DataCmp_def)

lemma find_page_from_none:
  assumes "\<forall>p \<in> set ps. key_ok t p \<and> \<not> key_before p k" "key_ok t k"
  shows "find_page_from i ps k = Inr (of_nat (i + length ps) - 1)"
  using assms(1)
proof (induction ps arbitrary: i)
  case (Cons p ps)
  then show ?case
    using compare_key [of t p k] assms(2) Cons.IH [of "Suc i"]
    by (auto simp: bindR_def algebra_simps split: sum.splits)
qed simp

lemma find_page_number_eq:
  assumes keys: "\<forall>p \<in> set (sm_sort_keys sm). key_ok t p" "sorted_wrt key_before (sm_sort_keys sm)"
    and len: "2 \<le> length (sm_sort_keys sm)" and k: "key_ok t k"
  shows "find_page_number sm k = Inr (if key_before (hd (sm_sort_keys sm)) k then 255
    else of_nat (length (sm_sort_keys sm)) - 1)"
proof -
  obtain p ps where ps: "sm_sort_keys sm = p # ps" using len by (cases "sm_sort_keys sm") auto
  have n: "length (sm_sort_keys sm) \<noteq> 0" "length (sm_sort_keys sm) \<noteq> 1" using len by auto
  show ?thesis
  proof (cases "key_before p k")
    case True
    then have "find_page_from 0 (p # ps) k = Inr (- 1)"
      using compare_key [of t p k] keys(1) k by (auto simp: ps bindR_def split: sum.splits)
    then show ?thesis using n True by (simp add: find_page_number_def ps)
  next
    case False
    have "\<not> key_before q k" if "q \<in> set ps" for q
      using that False keys k dmap.lt_trans [of t p q k] by (auto simp: ps)
    then show ?thesis
      using find_page_from_none [of "p # ps" t k 0] keys(1) k n False
      by (auto simp: find_page_number_def ps)
  qed
qed

section \<open>Properties\<close>

text \<open>
  Property C15. A summary of fewer than 256 keys whose image fits a page survives the page: written to a
  buffer of 4096 bytes and parsed from these bytes it is the same summary.
\<close>

theorem summary_roundtrip:
  assumes "summary_ok sm" "length (Summary_enc sm) \<le> 4096"
  shows "\<exists>b b'. Summary_bytes sm (MemoryBuffer_new 4096) = Inr b \<and>
    length (MemoryBuffer_bytes b) = 4096 \<and>
    Summary_from (MemoryBuffer_of (MemoryBuffer_bytes b) 4096) = Inr (sm, b')"
proof -
  obtain b where "Summary_bytes sm (MemoryBuffer_new 4096) = Inr b"
      "MemoryBuffer_bytes b = Summary_enc sm @ replicate (4096 - length (Summary_enc sm)) 0"
      "Summary_from (MemoryBuffer_of (MemoryBuffer_bytes b) 4096) =
        Inr (sm, skip (length (Summary_enc sm)) (MemoryBuffer_of (MemoryBuffer_bytes b) 4096))"
    using summaryc.roundtrip [OF assms(1), of 4096] assms(2) by auto
  then show ?thesis using assms(2) by auto
qed

definition example_summary :: summary where
  "example_summary = \<lparr>sm_sort_keys = [Some (IntData 30), Some (IntData 20), Some (IntData 10)],
     sm_type = \<lparr>ty_id = T_INT, ty_length = 4\<rparr>\<rparr>"

theorem summary_roundtrip_witness:
  "\<exists>b b'. Summary_bytes example_summary (MemoryBuffer_new 4096) = Inr b \<and>
    length (MemoryBuffer_bytes b) = 4096 \<and>
    Summary_from (MemoryBuffer_of (MemoryBuffer_bytes b) 4096) = Inr (example_summary, b')"
  by (rule summary_roundtrip)
    (auto simp: example_summary_def summary_ok_def dptr_ok_def Summary_enc_def Type_enc_def)

text \<open>
  Property C16. \<^verbatim>\<open>push_back\<close> keeps the summary inside its page: from a summary whose image
  is at most 4096 bytes, a key of its type is either appended, the image still fitting, or refused with
  the summary unchanged because one more key would not fit.
\<close>

theorem summary_push_back_keeps_page:
  assumes "summary_inv sm" "dptr_ok (sm_type sm) k"
  shows "\<exists>ok sm'. Summary_push_back k sm = Inr (ok, sm') \<and> summary_inv sm' \<and>
    (ok \<longleftrightarrow> length (Summary_enc sm) + unat (ty_length (sm_type sm)) \<le> 4096) \<and>
    sm_sort_keys sm' = (if ok then sm_sort_keys sm @ [k] else sm_sort_keys sm)"
proof -
  note spec = Summary_push_back_spec [OF assms]
  show ?thesis
  proof (cases "4096 < length (Summary_enc sm) + unat (ty_length (sm_type sm))")
    case True
    then show ?thesis using spec assms(1) by (intro exI [of _ False] exI [of _ sm]) simp
  next
    case False
    let ?sm = "sm\<lparr>sm_sort_keys := sm_sort_keys sm @ [k]\<rparr>"
    have push: "Summary_push_back k sm = Inr (True, ?sm)" using spec False by simp
    show ?thesis
      using Summary_push_back_inv [OF assms push] push False
      by (intro exI [of _ True] exI [of _ ?sm]) simp
  qed
qed

theorem summary_push_back_keeps_page_witness:
  "\<exists>ok sm'. Summary_push_back (Some (IntData 5)) example_summary = Inr (ok, sm') \<and> summary_inv sm' \<and>
    (ok \<longleftrightarrow> length (Summary_enc example_summary) + unat (ty_length (sm_type example_summary)) \<le> 4096) \<and>
    sm_sort_keys sm' = (if ok then sm_sort_keys example_summary @ [Some (IntData 5)]
      else sm_sort_keys example_summary)"
  by (rule summary_push_back_keeps_page)
    (auto simp: example_summary_def summary_inv_def dptr_ok_def Summary_enc_def Type_enc_def)

text \<open>
  Property C19. The scan of \<^verbatim>\<open>find_page_number\<close> takes the keys for ascending, but the memtable
  is written in descending order: for a summary of 2 to 255 pages it never returns the page a key is on.
  A key below the first key of the first page is looked for on page 255, any other key on the last page.
\<close>

theorem find_page_number_misses:
  assumes "\<forall>p \<in> set (sm_sort_keys sm). key_ok t p" "sorted_wrt key_before (sm_sort_keys sm)"
    "2 \<le> length (sm_sort_keys sm)" "length (sm_sort_keys sm) < 256" "key_ok t k"
  shows "find_page_number sm k = Inr (if key_before (hd (sm_sort_keys sm)) k then 255
      else of_nat (length (sm_sort_keys sm)) - 1) \<and>
    (\<forall>n. find_page_number sm k = Inr n \<longrightarrow> \<not> on_page (sm_sort_keys sm) (unat n) k)"
proof -
  let ?ks = "sm_sort_keys sm"
  have n: "unat (of_nat (length ?ks) - 1 :: u8) = length ?ks - 1"
    using assms(3,4) unat_of_nat_byte [of "length ?ks - 1"] by (simp add: of_nat_diff)
  have ne: "?ks \<noteq> []" and hd: "hd ?ks = ?ks ! 0" using assms(3) by (cases ?ks; auto)+
  have "key_before (hd ?ks) (?ks ! (length ?ks - 1))"
    using sorted_wrt_nth_less [OF assms(2), of 0 "length ?ks - 1"] assms(3) hd by simp
  moreover have "key_ok t (hd ?ks)" "key_ok t (?ks ! (length ?ks - 1))"
    using ne hd bspec [OF assms(1) nth_mem [of 0]] bspec [OF assms(1) nth_mem [of "length ?ks - 1"]]
    by simp_all
  ultimately have "\<not> on_page ?ks (length ?ks - 1) k" if "\<not> key_before (hd ?ks) k"
    using that dmap.lt_trans [OF _ _ assms(5)] by (auto simp: on_page_def)
  then show ?thesis
    using find_page_number_eq [OF assms(1-3,5)] n assms(4) by (auto simp: on_page_def)
qed

theorem find_page_number_misses_witness:
  "find_page_number example_summary (Some (IntData 25)) = Inr 255 \<and>
    \<not> on_page (sm_sort_keys example_summary) 255 (Some (IntData 25)) \<and>
    on_page (sm_sort_keys example_summary) 0 (Some (IntData 25))"
proof -
  have "find_page_number example_summary (Some (IntData 25)) = Inr (if key_before
        (hd (sm_sort_keys example_summary)) (Some (IntData 25)) then 255
      else of_nat (length (sm_sort_keys example_summary)) - 1) \<and>
    (\<forall>n. find_page_number example_summary (Some (IntData 25)) = Inr n \<longrightarrow>
      \<not> on_page (sm_sort_keys example_summary) (unat n) (Some (IntData 25)))"
    by (rule find_page_number_misses [where t = "\<lparr>ty_id = T_INT, ty_length = 4\<rparr>"])
      (auto simp: example_summary_def key_ok_def dptr_ok_def key_before_def)
  then show ?thesis by (simp add: example_summary_def key_before_def on_page_def)
qed

end
