(* ===== verification/Db_Index_Page.thy ===== *)
theory Db_Index_Page
  imports Mem_Summary
begin

text \<open>
  \<^verbatim>\<open>db::IndexPage\<close>: one page of 4096 bytes of (sort key, data file offset)
  entries, a \<^verbatim>\<open>std::map\<close> ordered by \<^verbatim>\<open>DataCmp\<close>. A page
  of up to 255 entries is a codec (\<open>pagec\<close>) and \<^verbatim>\<open>find_offset\<close> is then the
  lookup in the map.
\<close>

section \<open>The class IndexPage\<close>

record index_page =
  ip_sort_keys :: "(dptr \<times> u64) list"
  ip_type :: data_type

definition IndexPage_new :: "data_type \<Rightarrow> index_page" where
  "IndexPage_new t = \<lparr>ip_sort_keys = [], ip_type = t\<rparr>"

text \<open>The loop of \<^verbatim>\<open>IndexPage::from\<close>: a key, its offset, the assignment.\<close>

fun read_entries ::
  "nat \<Rightarrow> data_type \<Rightarrow> (dptr \<times> u64) list \<Rightarrow> MemoryBuffer \<Rightarrow> ((dptr \<times> u64) list \<times> MemoryBuffer) result" where
  "read_entries 0 t sort_keys buf = Inr (sort_keys, buf)"
| "read_entries (Suc n) t sort_keys buf =
     bindR (Data_from t buf) (\<lambda>(k, buf).
     bindR (get_uint64 buf) (\<lambda>(offset, buf).
     bindR (map_assign DataCmp k offset sort_keys) (\<lambda>sort_keys. read_entries n t sort_keys buf)))"

definition IndexPage_from :: "MemoryBuffer \<Rightarrow> (index_page \<times> MemoryBuffer) result" where
  "IndexPage_from buf =
     bindR (get_uint8 buf) (\<lambda>(sort_keys_length, buf).
     bindR (Type_from buf) (\<lambda>(t, buf).
     bindR (read_entries (unat sort_keys_length) t [] buf) (\<lambda>(sort_keys, buf).
       Inr (\<lparr>ip_sort_keys = sort_keys, ip_type = t\<rparr>, buf))))"

definition find_offset :: "index_page \<Rightarrow> dptr \<Rightarrow> u64 result" where
  "find_offset pg k =
     bindR (map_find DataCmp k (ip_sort_keys pg)) (\<lambda>r. case r of None \<Rightarrow> Inr (- 1) | Some v \<Rightarrow> Inr v)"

definition IndexPage_size :: "index_page \<Rightarrow> u64" where
  "IndexPage_size pg =
     1 + Type_size (ip_type pg) + of_nat (length (ip_sort_keys pg)) * (Type_length (ip_type pg) + 8)"

definition IndexPage_push_back :: "dptr \<Rightarrow> u64 \<Rightarrow> index_page \<Rightarrow> (bool \<times> index_page) result" where
  "IndexPage_push_back k offset pg =
     (if IndexPage_size pg + Type_length (ip_type pg) + 8 > 4096 then Inr (False, pg)
      else bindR (Data_copy k) (\<lambda>d.
           bindR (map_assign DataCmp (Some d) offset (ip_sort_keys pg)) (\<lambda>m.
             Inr (True, pg\<lparr>ip_sort_keys := m\<rparr>))))"

definition IndexPage_clear :: "index_page \<Rightarrow> index_page" where
  "IndexPage_clear pg = pg\<lparr>ip_sort_keys := []\<rparr>"

definition entry_bytes :: "dptr \<times> u64 \<Rightarrow> MemoryBuffer \<Rightarrow> MemoryBuffer result" where
  "entry_bytes e buf = bindR (dptr_bytes (fst e) buf) (put_uint64 (snd e))"

definition IndexPage_bytes :: "index_page \<Rightarrow> MemoryBuffer \<Rightarrow> MemoryBuffer result" where
  "IndexPage_bytes pg buf =
     bindR (put_uint8 (of_nat (length (ip_sort_keys pg))) buf) (\<lambda>buf.
     bindR (Type_bytes (ip_type pg) buf) (put_all entry_bytes (ip_sort_keys pg)))"

section \<open>The codec\<close>

definition entry_enc :: "dptr \<times> u64 \<Rightarrow> byte list" where
  "entry_enc e = dptr_enc (fst e) @ to_le 8 (snd e)"

definition IndexPage_enc :: "index_page \<Rightarrow> byte list" where
  "IndexPage_enc pg = [of_nat (length (ip_sort_keys pg))] @ Type_enc (ip_type pg) @
     concat (map entry_enc (ip_sort_keys pg))"

definition page_ok :: "index_page \<Rightarrow> bool" where
  "page_ok pg \<longleftrightarrow> length (ip_sort_keys pg) < 256 \<and> type_ok (ip_type pg) \<and>
     dmap.map_ok (ip_type pg) (ip_sort_keys pg)"

lemma map_ok_keys:
  "dmap.map_ok t m \<Longrightarrow> e \<in> set m \<Longrightarrow> dptr_ok t (fst e)"
  by (auto simp: dmap.map_ok_def key_ok_def)

lemma reads_entries:
  "dmap.map_ok t (m @ es) \<Longrightarrow>
   reads (concat (map entry_enc es)) (m @ es) (read_entries (length es) t m)"
proof (induction es arbitrary: m)
  case Nil
  have "read_entries 0 t m = (\<lambda>b. Inr (m, b))" by (rule ext) simp
  then show ?case by (simp add: reads_Nil)
next
  case (Cons e es)
  obtain k v where e: "e = (k, v)" by (cases e)
  have eq: "read_entries (length (e # es)) t m = (\<lambda>buf. bindR (Data_from t buf) (\<lambda>(k, buf).
     bindR (get_uint64 buf) (\<lambda>(offset, buf).
     bindR (map_assign DataCmp k offset m) (\<lambda>m. read_entries (length es) t m buf))))"
    by (rule ext) simp
  have k: "dptr_ok t k" using map_ok_keys [OF Cons.prems, of e] by (simp add: e)
  have a: "map_assign DataCmp k v m = Inr (m @ [e])"
    using Cons.prems dmap.assign_last [of t m k v]
    by (auto simp: e dmap.map_ok_append dmap.map_ok_Cons)
  have IH: "reads (concat (map entry_enc es)) (m @ e # es) (read_entries (length es) t (m @ [e]))"
    using Cons.IH [of "m @ [e]"] Cons.prems by simp
  have enc: "concat (map entry_enc (e # es)) =
      dptr_enc k @ to_le 8 v @ concat (map entry_enc es)"
    by (simp add: entry_enc_def e)
  show ?case
    unfolding eq enc
    by (rule reads_bind, rule datac.get_reads [OF k], rule reads_bind, rule codec_intros)
      (simp add: a IH)
qed

interpretation pagec: codec page_ok IndexPage_enc IndexPage_bytes IndexPage_from
proof
  fix pg assume ok: "page_ok pg"
  then have n: "length (ip_sort_keys pg) < 256" and t: "type_ok (ip_type pg)"
    and m: "dmap.map_ok (ip_type pg) ([] @ ip_sort_keys pg)"
    by (simp_all add: page_ok_def)
  have "writes (entry_enc e) (entry_bytes e)" if "e \<in> set (ip_sort_keys pg)" for e
    unfolding entry_enc_def entry_bytes_def [abs_def]
    by (intro writes_bind codec_intros) (use m that in \<open>auto intro: datac.put_writes map_ok_keys\<close>)
  then show "writes (IndexPage_enc pg) (IndexPage_bytes pg)"
    unfolding IndexPage_enc_def IndexPage_bytes_def [abs_def]
    by (intro writes_bind codec_intros writes_put_all typec.put_writes t)
  show "reads (IndexPage_enc pg) pg IndexPage_from"
    unfolding IndexPage_enc_def IndexPage_from_def [abs_def]
    by (rule reads_bind, rule codec_intros, rule reads_bind, rule typec.get_reads [OF t],
        rule reads_last, subst unat_of_nat_byte [OF n], rule reads_entries [OF m]) simp
qed

lemma length_entries_enc:
  "\<forall>e \<in> set es. dptr_ok t (fst e) \<Longrightarrow>
   length (concat (map entry_enc es)) = length es * (unat (ty_length t) + 8)"
  by (induction es) (simp_all add: entry_enc_def length_dptr_enc)

lemma length_IndexPage_enc:
  "dmap.map_ok (ip_type pg) (ip_sort_keys pg) \<Longrightarrow>
   length (IndexPage_enc pg) = 6 + length (ip_sort_keys pg) * (unat (ty_length (ip_type pg)) + 8)"
  using length_entries_enc [of "ip_sort_keys pg" "ip_type pg"] map_ok_keys
  by (fastforce simp: IndexPage_enc_def)

lemma IndexPage_size_eq:
  "dmap.map_ok (ip_type pg) (ip_sort_keys pg) \<Longrightarrow>
   IndexPage_size pg = of_nat (length (IndexPage_enc pg))"
  by (simp add: length_IndexPage_enc IndexPage_size_def Type_size_def Type_length_def)

lemma find_offset_eq:
  assumes "page_ok pg" "key_ok (ip_type pg) k"
  shows "find_offset pg k = Inr (case map_of (ip_sort_keys pg) k of None \<Rightarrow> - 1 | Some v \<Rightarrow> v)"
  using assms dmap.find_eq [of "ip_type pg" "ip_sort_keys pg" k]
  by (auto simp: find_offset_def page_ok_def split: option.split)

section \<open>Invariant of push\_back\<close>

definition page_inv :: "index_page \<Rightarrow> bool" where
  "page_inv pg \<longleftrightarrow> dmap.map_ok (ip_type pg) (ip_sort_keys pg) \<and> length (IndexPage_enc pg) \<le> 4096"

lemma page_inv_new: "page_inv (IndexPage_new t)"
  by (simp add: page_inv_def IndexPage_new_def IndexPage_enc_def)

lemma page_push_back_guard:
  assumes "page_inv pg"
  shows "IndexPage_size pg + Type_length (ip_type pg) + 8 > 4096 \<longleftrightarrow>
    4096 < length (IndexPage_enc pg) + unat (ty_length (ip_type pg)) + 8"
proof -
  have l: "length (IndexPage_enc pg) \<le> 4096"
    and s: "IndexPage_size pg = of_nat (length (IndexPage_enc pg))"
    using assms by (simp_all add: page_inv_def IndexPage_size_eq)
  have "unat (ty_length (ip_type pg)) < 2 ^ 32"
    using unsigned_less [of "ty_length (ip_type pg)"] by simp
  then have "unat (IndexPage_size pg + Type_length (ip_type pg) + 8) =
      length (IndexPage_enc pg) + unat (ty_length (ip_type pg)) + 8"
    using l by (simp add: s unat_word_ariths unat_of_nat take_bit_nat_eq_self)
  then show ?thesis by (simp add: word_less_nat_alt)
qed

text \<open>A key after all the keys of the page is appended when its entry fits.\<close>

lemma IndexPage_push_back_last:
  assumes inv: "page_inv pg" and k: "key_ok (ip_type pg) k"
    and after: "\<forall>k' \<in> fst ` set (ip_sort_keys pg). key_before k' k"
    and fits: "length (IndexPage_enc pg) + unat (ty_length (ip_type pg)) + 8 \<le> 4096"
  shows "IndexPage_push_back k v pg = Inr (True, pg\<lparr>ip_sort_keys := ip_sort_keys pg @ [(k, v)]\<rparr>)"
proof -
  obtain d where d: "k = Some d" "data_ok d" using k by (auto simp: key_ok_def dptr_ok_def)
  have "map_assign DataCmp k v (ip_sort_keys pg) = Inr (ip_sort_keys pg @ [(k, v)])"
    using inv k after by (intro dmap.assign_last) (auto simp: page_inv_def)
  then show ?thesis
    using fits page_push_back_guard [OF inv] by (simp add: IndexPage_push_back_def d Data_copy_eq)
qed

text \<open>Writing a page needs no bound on the number of entries: only the count byte wraps.\<close>

lemma writes_IndexPage:
  assumes "dmap.map_ok (ip_type pg) (ip_sort_keys pg)"
  shows "writes (IndexPage_enc pg) (IndexPage_bytes pg)"
proof -
  have "writes (entry_enc e) (entry_bytes e)" if "e \<in> set (ip_sort_keys pg)" for e
    unfolding entry_enc_def entry_bytes_def [abs_def]
    by (intro writes_bind codec_intros) (use assms that in \<open>auto intro: datac.put_writes map_ok_keys\<close>)
  then show ?thesis
    unfolding IndexPage_enc_def IndexPage_bytes_def [abs_def] Type_bytes_def [abs_def] Type_enc_def
    by (intro writes_bind codec_intros writes_put_all)
qed

section \<open>Properties\<close>

text \<open>
  Property C11. A key of the page's type pushed on a page that has room for one more entry is found again:
  the page stays ordered and within 4096 bytes, \<^verbatim>\<open>find_offset\<close> of the key is the offset
  given, and of any other key what it was before.
\<close>

theorem index_page_push_find:
  assumes "page_inv pg" "type_ok (ip_type pg)" "length (ip_sort_keys pg) < 255" "key_ok (ip_type pg) k"
    "length (IndexPage_enc pg) + unat (ty_length (ip_type pg)) + 8 \<le> 4096" "key_ok (ip_type pg) k'"
  shows "\<exists>pg'. IndexPage_push_back k v pg = Inr (True, pg') \<and> page_inv pg' \<and> page_ok pg' \<and>
    find_offset pg' k' = (if k' = k then Inr v else find_offset pg k')"
proof -
  let ?t = "ip_type pg"
  have ok: "dmap.map_ok ?t (ip_sort_keys pg)" using assms(1) by (simp add: page_inv_def)
  obtain d where d: "k = Some d" "data_ok d" using assms(4) by (auto simp: key_ok_def dptr_ok_def)
  obtain m where m: "map_assign DataCmp k v (ip_sort_keys pg) = Inr m" "dmap.map_ok ?t m"
      "map_of m = (map_of (ip_sort_keys pg))(k \<mapsto> v)" "length m \<le> Suc (length (ip_sort_keys pg))"
    using dmap.assign_eq [OF ok assms(4), of v] by blast
  let ?pg = "pg\<lparr>ip_sort_keys := m\<rparr>"
  have push: "IndexPage_push_back k v pg = Inr (True, ?pg)"
    using page_push_back_guard [OF assms(1)] assms(5) m(1) by (simp add: IndexPage_push_back_def d Data_copy_eq)
  have "length (IndexPage_enc ?pg) \<le> length (IndexPage_enc pg) + unat (ty_length ?t) + 8"
    using length_IndexPage_enc [of ?pg] length_IndexPage_enc [OF ok] m(2,4)
      mult_le_mono1 [OF m(4), of "unat (ty_length ?t) + 8"] by simp
  then have inv: "page_inv ?pg" "page_ok ?pg" "page_ok pg"
    using assms(2,3,5) m(2,4) ok by (simp_all add: page_inv_def page_ok_def)
  show ?thesis
    using push inv find_offset_eq [OF inv(2), of k'] find_offset_eq [OF inv(3) assms(6)] assms(6) m(3)
    by (intro exI [of _ ?pg]) simp
qed

definition example_page :: index_page where
  "example_page = \<lparr>ip_sort_keys = [(Some (IntData 30), 0), (Some (IntData 10), 7)],
     ip_type = \<lparr>ty_id = T_INT, ty_length = 4\<rparr>\<rparr>"

lemma example_page_ok: "page_inv example_page" "page_ok example_page"
  by (simp_all add: example_page_def page_inv_def page_ok_def dmap.map_ok_def key_ok_def dptr_ok_def
      key_before_def IndexPage_enc_def Type_enc_def entry_enc_def)

theorem index_page_push_find_witness:
  "\<exists>pg'. IndexPage_push_back (Some (IntData 20)) 14 example_page = Inr (True, pg') \<and>
    page_inv pg' \<and> page_ok pg' \<and> find_offset pg' (Some (IntData 10)) =
      (if Some (IntData 10) = Some (IntData 20) then Inr 14
       else find_offset example_page (Some (IntData 10)))"
  by (rule index_page_push_find)
    (use example_page_ok in \<open>simp_all add: example_page_def key_ok_def dptr_ok_def IndexPage_enc_def
      Type_enc_def entry_enc_def\<close>)

text \<open>
  Property C12. A page of fewer than 256 entries written to a buffer of 4096 bytes and parsed from these
  bytes is the same page, and a lookup in it answers what the map says, \<open>-1\<close> for an absent key.
\<close>

theorem index_page_roundtrip_lookup:
  assumes "page_ok pg" "length (IndexPage_enc pg) \<le> 4096" "key_ok (ip_type pg) k"
  shows "\<exists>b b'. IndexPage_bytes pg (MemoryBuffer_new 4096) = Inr b \<and>
    IndexPage_from (MemoryBuffer_of (MemoryBuffer_bytes b) 4096) = Inr (pg, b') \<and>
    find_offset pg k = Inr (case map_of (ip_sort_keys pg) k of None \<Rightarrow> - 1 | Some v \<Rightarrow> v)"
  using pagec.roundtrip [OF assms(1), of 4096] assms(2) find_offset_eq [OF assms(1,3)] by auto

theorem index_page_roundtrip_lookup_witness:
  "\<exists>b b'. IndexPage_bytes example_page (MemoryBuffer_new 4096) = Inr b \<and>
    IndexPage_from (MemoryBuffer_of (MemoryBuffer_bytes b) 4096) = Inr (example_page, b') \<and>
    find_offset example_page (Some (IntData 10)) = Inr (case map_of (ip_sort_keys example_page)
      (Some (IntData 10)) of None \<Rightarrow> - 1 | Some v \<Rightarrow> v)"
  by (rule index_page_roundtrip_lookup)
    (use example_page_ok in \<open>simp_all add: example_page_def page_inv_def key_ok_def dptr_ok_def\<close>)

text \<open>
  The number of entries is written as one byte. A page of exactly 256 entries, which the
  guard of \<^verbatim>\<open>push_back\<close> admits for keys of up to 7 bytes, announces none: parsed from
  its bytes it is empty and every key is lost.
\<close>

theorem index_page_256_lost:
  assumes "page_inv pg" "type_ok (ip_type pg)" "length (ip_sort_keys pg) = 256"
  shows "\<exists>b b'. IndexPage_bytes pg (MemoryBuffer_new 4096) = Inr b \<and>
    IndexPage_from (MemoryBuffer_of (MemoryBuffer_bytes b) 4096) = Inr (IndexPage_new (ip_type pg), b')"
proof -
  let ?b = "emit (IndexPage_enc pg) (MemoryBuffer_new 4096)"
  let ?r = "MemoryBuffer_of (MemoryBuffer_bytes ?b) 4096"
  have len: "length (IndexPage_enc pg) \<le> 4096" using assms(1) by (simp add: page_inv_def)
  have "buf_ok (MemoryBuffer_new 4096)" "room (length (IndexPage_enc pg)) (MemoryBuffer_new 4096)"
    using len by (simp add: buf_ok_new, simp add: room_def MemoryBuffer_new_def)
  then have put: "IndexPage_bytes pg (MemoryBuffer_new 4096) = Inr ?b"
    using assms(1) writesD [OF writes_IndexPage] by (simp add: page_inv_def)
  have bytes: "MemoryBuffer_bytes ?b = IndexPage_enc pg @ replicate (4096 - length (IndexPage_enc pg)) 0"
    using sint_ucast_small [of 4096] len
    by (simp add: MemoryBuffer_bytes_def MemoryBuffer_new_def emit_def Let_def)
  have empty: "page_ok (IndexPage_new (ip_type pg))"
    using assms(2) by (simp add: page_ok_def IndexPage_new_def)
  have "IndexPage_enc pg = IndexPage_enc (IndexPage_new (ip_type pg)) @
      concat (map entry_enc (ip_sort_keys pg))"
    using assms(3) by (simp add: IndexPage_enc_def IndexPage_new_def)
  then have "rest ?r = IndexPage_enc (IndexPage_new (ip_type pg)) @
      concat (map entry_enc (ip_sort_keys pg)) @ replicate (4096 - length (IndexPage_enc pg)) 0"
    using bytes by (simp add: rest_def MemoryBuffer_of_def)
  moreover have "buf_ok ?r" using bytes len by (simp add: buf_ok_def MemoryBuffer_of_def)
  ultimately show ?thesis using put pagec.get_prefix [OF empty] by blast
qed

definition full_page :: index_page where
  "full_page = \<lparr>ip_sort_keys = map (\<lambda>i. (Some (TinyIntData (word_of_int i)), 0)) (rev [-128..127]),
     ip_type = \<lparr>ty_id = T_TINYINT, ty_length = 1\<rparr>\<rparr>"

lemma tiny_keys_sorted:
  assumes "sorted_wrt (\<lambda>i j. j < i) xs" "\<forall>i \<in> set xs. - 128 \<le> i \<and> i \<le> 127"
  shows "dmap.map_ok \<lparr>ty_id = T_TINYINT, ty_length = 1\<rparr>
    (map (\<lambda>i. (Some (TinyIntData (word_of_int i)), 0)) xs)"
proof -
  have tiny: "sint (word_of_int i :: u8) = i" if "- 128 \<le> i" "i \<le> 127" for i
    using that by (simp add: signed_of_int signed_take_bit_int_eq_self)
  show ?thesis
    using assms
    by (induction xs) (auto simp: dmap.map_ok_Cons key_ok_def dptr_ok_def key_before_def tiny)
qed

lemma full_page_inv: "page_inv full_page"
proof -
  have "sorted_wrt (\<lambda>i j. j < i) (rev [- 128..127 :: int])"
    unfolding sorted_wrt_rev by (rule sorted_wrt_upto)
  then have ok: "dmap.map_ok (ip_type full_page) (ip_sort_keys full_page)"
    unfolding full_page_def index_page.simps by (rule tiny_keys_sorted) simp
  have "length (ip_sort_keys full_page) = 256"
    unfolding full_page_def index_page.simps length_map length_rev length_upto by simp
  then show ?thesis using ok length_IndexPage_enc [OF ok] by (simp add: page_inv_def full_page_def)
qed

theorem index_page_256_lost_witness:
  "\<exists>b b'. IndexPage_bytes full_page (MemoryBuffer_new 4096) = Inr b \<and>
    IndexPage_from (MemoryBuffer_of (MemoryBuffer_bytes b) 4096) =
      Inr (IndexPage_new (ip_type full_page), b')"
  by (rule index_page_256_lost) (rule full_page_inv, simp_all only: full_page_def index_page.simps
      length_map length_rev length_upto data_type.simps, simp_all)

end
