(* ===== verification/Io_Files.thy ===== *)
theory Io_Files
  imports Db_Index_Page
begin

text \<open>
  The file system as the storage engine uses it through \<^verbatim>\<open>open\<close>,
  \<^verbatim>\<open>lseek\<close>, \<^verbatim>\<open>read\<close>, \<^verbatim>\<open>write\<close> and
  \<^verbatim>\<open>mkdir\<close>, and the names of the three files of an sstable. A path is the string it is
  written as (the engine never uses two spellings of one path).
\<close>

section \<open>Files and system calls\<close>

text \<open>
  \<open>fs_bad\<close> are the paths on which \<^verbatim>\<open>read\<close> and
  \<^verbatim>\<open>write\<close> fail (a full or defective disk).
\<close>

record fs =
  fs_dirs :: "string list"
  fs_files :: "string \<Rightarrow> byte list option"
  fs_bad :: "string list"

text \<open>A descriptor: the path it is open on and its position, or \<open>None\<close> for \<open>-1\<close>.\<close>

type_synonym fd = "(string \<times> nat) option"

definition parent_dir :: "string \<Rightarrow> string" where
  "parent_dir p = rev (tl (dropWhile (\<lambda>c. c \<noteq> CHR ''/'') (rev p)))"

text \<open>\<^verbatim>\<open>open(p, O_WRONLY | O_CREAT)\<close>: an existing file keeps its contents.\<close>

definition open_create :: "string \<Rightarrow> fs \<Rightarrow> fd \<times> fs" where
  "open_create p f =
     (if p \<in> set (fs_dirs f) then (None, f)
      else case fs_files f p of
        Some c \<Rightarrow> (Some (p, 0), f)
      | None \<Rightarrow> if parent_dir p \<in> set (fs_dirs f)
                then (Some (p, 0), f\<lparr>fs_files := (fs_files f)(p \<mapsto> [])\<rparr>) else (None, f))"

text \<open>\<^verbatim>\<open>open\<close> without \<^verbatim>\<open>O_CREAT\<close>.\<close>

definition open_existing :: "string \<Rightarrow> fs \<Rightarrow> fd" where
  "open_existing p f = (if fs_files f p = None then None else Some (p, 0))"

text \<open>\<^verbatim>\<open>lseek(fd, offset, SEEK_SET)\<close>: a negative offset leaves the position.\<close>

definition lseek :: "fd \<Rightarrow> u64 \<Rightarrow> fd" where
  "lseek d offset = (case d of None \<Rightarrow> None
     | Some (p, pos) \<Rightarrow> if sint offset < 0 then Some (p, pos) else Some (p, unat offset))"

text \<open>One call of \<^verbatim>\<open>read\<close> or \<^verbatim>\<open>write\<close> moves at most this many bytes.\<close>

definition max_transfer :: nat where
  "max_transfer = 0x7ffff000"

definition overwrite :: "nat \<Rightarrow> byte list \<Rightarrow> byte list \<Rightarrow> byte list" where
  "overwrite pos data c =
     take pos c @ replicate (pos - length c) 0 @ data @ drop (pos + length data) c"

text \<open>The count \<^verbatim>\<open>write\<close> returns is \<open>None\<close> for \<open>-1\<close>.\<close>

definition sys_write :: "fd \<Rightarrow> byte list \<Rightarrow> fs \<Rightarrow> nat option \<times> fd \<times> fs" where
  "sys_write d data f = (case d of
     None \<Rightarrow> (None, d, f)
   | Some (p, pos) \<Rightarrow>
       if p \<in> set (fs_bad f) then (None, d, f)
       else let out = take max_transfer data;
                c = (case fs_files f p of None \<Rightarrow> [] | Some c \<Rightarrow> c)
            in (Some (length out), Some (p, pos + length out),
                f\<lparr>fs_files := (fs_files f)(p \<mapsto> overwrite pos out c)\<rparr>))"

text \<open>The bytes \<^verbatim>\<open>read\<close> delivers; \<open>None\<close> for \<open>-1\<close>.\<close>

definition sys_read :: "fd \<Rightarrow> nat \<Rightarrow> fs \<Rightarrow> byte list option" where
  "sys_read d n f = (case d of
     None \<Rightarrow> None
   | Some (p, pos) \<Rightarrow>
       if p \<in> set (fs_bad f) then None
       else case fs_files f p of None \<Rightarrow> None | Some c \<Rightarrow> Some (take (min n max_transfer) (drop pos c)))"

text \<open>
  Reading into \<^verbatim>\<open>new unsigned char[n]\<close>: what the call does not fill is what the
  memory held, \<open>junk\<close>.
\<close>

definition read_into :: "(nat \<Rightarrow> byte) \<Rightarrow> fd \<Rightarrow> nat \<Rightarrow> fs \<Rightarrow> byte list" where
  "read_into junk d n f =
     (let got = (case sys_read d n f of None \<Rightarrow> [] | Some bs \<Rightarrow> bs)
      in got @ map junk [length got..<n])"

definition sys_mkdir :: "string \<Rightarrow> fs \<Rightarrow> bool \<times> fs" where
  "sys_mkdir p f =
     (if p \<in> set (fs_dirs f) \<or> fs_files f p \<noteq> None \<or> parent_dir p \<notin> set (fs_dirs f) then (False, f)
      else (True, f\<lparr>fs_dirs := p # fs_dirs f\<rparr>))"

lemma lseek_small:
  assumes "n < 2 ^ 63"
  shows "lseek (Some (p, pos)) (of_nat n) = Some (p, n)"
proof -
  have "sint (of_nat n :: u64) = int n"
    using assms by (simp add: signed_of_nat signed_take_bit_int_eq_self)
  moreover have "unat (of_nat n :: u64) = n"
    using assms by (simp add: unat_of_nat take_bit_nat_eq_self)
  ultimately show ?thesis by (simp add: lseek_def)
qed

section \<open>The files of an sstable\<close>

definition sstable_path :: "string \<Rightarrow> string \<Rightarrow> string \<Rightarrow> u64 \<Rightarrow> string" where
  "sstable_path base table kind i =
     base @ ''/'' @ table @ ''/'' @ kind @ to_string_nat (unat i) @ ''.db''"

abbreviation summary_path :: "string \<Rightarrow> string \<Rightarrow> u64 \<Rightarrow> string" where
  "summary_path base table i \<equiv> sstable_path base table ''summary_'' i"

abbreviation index_path :: "string \<Rightarrow> string \<Rightarrow> u64 \<Rightarrow> string" where
  "index_path base table i \<equiv> sstable_path base table ''index_'' i"

abbreviation data_path :: "string \<Rightarrow> string \<Rightarrow> u64 \<Rightarrow> string" where
  "data_path base table i \<equiv> sstable_path base table ''data_'' i"

lemma sstable_path_same_kind:
  "sstable_path base table kind i = sstable_path base table kind j \<longleftrightarrow> i = j"
  by (simp add: sstable_path_def to_string_nat_inj word_unat_eq_iff)

lemma sstable_path_kinds [simp]:
  "summary_path base table i \<noteq> index_path base table j"
  "summary_path base table i \<noteq> data_path base table j"
  "index_path base table i \<noteq> summary_path base table j"
  "index_path base table i \<noteq> data_path base table j"
  "data_path base table i \<noteq> summary_path base table j"
  "data_path base table i \<noteq> index_path base table j"
  by (simp_all add: sstable_path_def)

text \<open>The directory of the three files is the table's.\<close>

lemma parent_dir_append:
  assumes "CHR ''/'' \<notin> set n"
  shows "parent_dir (d @ ''/'' @ n) = d"
proof -
  have "dropWhile (\<lambda>c. c \<noteq> CHR ''/'') (rev n @ CHR ''/'' # rev d) = CHR ''/'' # rev d"
    using assms by (subst dropWhile_append2) auto
  then show ?thesis by (simp add: parent_dir_def)
qed

lemma digits_no_slash: "CHR ''/'' \<notin> set (to_string_nat n)"
  using to_string_nat_digits [of "CHR ''/''" n] by (auto simp: is_digit_def)

lemma parent_sstable_path:
  assumes "CHR ''/'' \<notin> set kind"
  shows "parent_dir (sstable_path base table kind i) = base @ ''/'' @ table"
proof -
  have "sstable_path base table kind i =
      (base @ ''/'' @ table) @ ''/'' @ (kind @ to_string_nat (unat i) @ ''.db'')"
    by (simp add: sstable_path_def)
  then show ?thesis
    using assms digits_no_slash [of "unat i"] by (simp only:) (rule parent_dir_append, auto)
qed

section \<open>Prefixes of files\<close>

text \<open>
  An sstable never shortens a file, so what matters of a file is what it starts with.
\<close>

definition file_starts :: "fs \<Rightarrow> string \<Rightarrow> byte list \<Rightarrow> bool" where
  "file_starts f p bs \<longleftrightarrow> (\<exists>c. fs_files f p = Some (bs @ c)) \<and> p \<notin> set (fs_bad f)"

lemma overwrite_end: "overwrite (length bs) data (bs @ c) = bs @ data @ drop (length data) c"
  by (simp add: overwrite_def)

lemma read_into_prefix:
  assumes "file_starts f p (xs @ bs)" "length bs = n" "n \<le> max_transfer"
  shows "read_into junk (Some (p, length xs)) n f = bs"
  using assms by (auto simp: file_starts_def read_into_def sys_read_def)

lemma open_existing_starts: "file_starts f p bs \<Longrightarrow> open_existing p f = Some (p, 0)"
  by (auto simp: file_starts_def open_existing_def)

text \<open>Two file systems that differ at most in the contents of some files.\<close>

definition touched :: "string set \<Rightarrow> fs \<Rightarrow> fs \<Rightarrow> bool" where
  "touched P f f' \<longleftrightarrow> fs_dirs f' = fs_dirs f \<and> fs_bad f' = fs_bad f \<and>
     (\<forall>q. q \<notin> P \<longrightarrow> fs_files f' q = fs_files f q)"

lemma touched_refl [simp]: "touched P f f"
  by (simp add: touched_def)

lemma touched_trans: "touched P f f' \<Longrightarrow> touched Q f' f'' \<Longrightarrow> touched (P \<union> Q) f f''"
  by (simp add: touched_def)

lemma touched_mono: "touched P f f' \<Longrightarrow> P \<subseteq> Q \<Longrightarrow> touched Q f f'"
  by (auto simp: touched_def)

lemma file_starts_touched: "file_starts f p bs \<Longrightarrow> touched P f f' \<Longrightarrow> p \<notin> P \<Longrightarrow> file_starts f' p bs"
  by (auto simp: file_starts_def touched_def)

lemma file_starts_prefix: "file_starts f p (xs @ ys) \<Longrightarrow> file_starts f p xs"
  by (auto simp: file_starts_def)

lemma sys_write_ex:
  assumes "file_starts f p bs" "length data \<le> max_transfer"
  shows "\<exists>f'. sys_write (Some (p, length bs)) data f =
      (Some (length data), Some (p, length bs + length data), f') \<and>
    file_starts f' p (bs @ data) \<and> touched {p} f f'"
proof -
  obtain c where c: "fs_files f p = Some (bs @ c)" "p \<notin> set (fs_bad f)"
    using assms(1) by (auto simp: file_starts_def)
  let ?f = "f\<lparr>fs_files := (fs_files f)(p \<mapsto> bs @ data @ drop (length data) c)\<rparr>"
  have "sys_write (Some (p, length bs)) data f =
      (Some (length data), Some (p, length bs + length data), ?f)"
    using c assms(2) by (simp add: sys_write_def overwrite_end)
  then show ?thesis using c by (auto simp: file_starts_def touched_def)
qed

lemma open_create_ex:
  assumes "p \<notin> set (fs_dirs f)" "parent_dir p \<in> set (fs_dirs f)" "p \<notin> set (fs_bad f)"
  shows "\<exists>f'. open_create p f = (Some (p, 0), f') \<and> file_starts f' p [] \<and> touched {p} f f'"
  using assms by (cases "fs_files f p") (auto simp: open_create_def file_starts_def touched_def)

end
