(* ===== verification/Io_Disk_Manager.thy ===== *)
theory Io_Disk_Manager
  imports Io_Files
begin

text \<open>
  \<^verbatim>\<open>io::DiskManager\<close>: the three loads. \<open>junk\<close> gives, for a path, what the
  freshly allocated read buffer holds; a missing or short file is logged and the buffer parsed all the
  same. The lemmas state what each load returns when the file holds the image of an object.
\<close>

definition load_summary ::
  "(string \<Rightarrow> nat \<Rightarrow> byte) \<Rightarrow> string \<Rightarrow> string \<Rightarrow> u64 \<Rightarrow> fs \<Rightarrow> summary result" where
  "load_summary junk database_path table_name sstable_id f =
     (let p = summary_path database_path table_name sstable_id;
          buf = read_into (junk p) (open_existing p f) 4096 f
      in bindR (Summary_from (MemoryBuffer_of buf 4096)) (\<lambda>(sm, _). Inr sm))"

definition load_index_page ::
  "(string \<Rightarrow> nat \<Rightarrow> byte) \<Rightarrow> string \<Rightarrow> string \<Rightarrow> u64 \<Rightarrow> u8 \<Rightarrow> fs \<Rightarrow> index_page result" where
  "load_index_page junk database_path table_name sstable_id page_num f =
     (let p = index_path database_path table_name sstable_id;
          d = lseek (open_existing p f) (ucast page_num * 4096);
          buf = read_into (junk p) d 4096 f
      in bindR (IndexPage_from (MemoryBuffer_of buf 4096)) (\<lambda>(pg, _). Inr pg))"

definition get_record_from_data ::
  "(string \<Rightarrow> nat \<Rightarrow> byte) \<Rightarrow> string \<Rightarrow> string \<Rightarrow> u64 \<Rightarrow> schema \<Rightarrow> u64 \<Rightarrow> fs \<Rightarrow> row result" where
  "get_record_from_data junk database_path table_name sstable_id s offset f =
     (let p = data_path database_path table_name sstable_id;
          d = lseek (open_existing p f) offset;
          buf = read_into (junk p) d (unat (record_size s)) f
      in bindR (Record_from s (MemoryBuffer_of buf (record_size s))) (\<lambda>(r, _). Inr r))"

section \<open>What the loads return\<close>

lemma buffer_over:
  assumes "length bs = unat n" "unat n < 2 ^ 31"
  shows "buf_ok (MemoryBuffer_of bs n)" "rest (MemoryBuffer_of bs n) = bs"
  using assms by (simp_all add: buf_ok_def MemoryBuffer_of_def rest_def)

lemma page_transfer: "(4096 :: nat) \<le> max_transfer"
  by (simp add: max_transfer_def)

lemma load_summary_eq:
  assumes "file_starts f (summary_path base table i) (Summary_enc sm @ zs)"
    "summary_ok sm" "length (Summary_enc sm @ zs) = 4096"
  shows "load_summary junk base table i f = Inr sm"
proof -
  let ?bs = "Summary_enc sm @ zs"
  have "read_into (junk p) (Some (p, 0)) 4096 f = ?bs" if "p = summary_path base table i" for p
    using read_into_prefix [of f p "[]" ?bs 4096] assms(1,3) page_transfer that by simp
  then show ?thesis
    using summaryc.get_prefix [OF assms(2) buffer_over] assms open_existing_starts [OF assms(1)]
    by (simp add: load_summary_def Let_def)
qed

lemma load_index_page_eq:
  assumes "file_starts f (index_path base table i) (xs @ IndexPage_enc pg @ zs)"
    "page_ok pg" "length (IndexPage_enc pg @ zs) = 4096" "length xs = unat n * 4096"
  shows "load_index_page junk base table i n f = Inr pg"
proof -
  let ?p = "index_path base table i"
  let ?bs = "IndexPage_enc pg @ zs"
  have n: "unat n < 2 ^ 8" using unsigned_less [of n] by simp
  have "unat (ucast n * 4096 :: u64) = unat n * 4096"
    using n by (simp add: unat_word_ariths unsigned_ucast_eq take_bit_nat_eq_self)
  then have "(ucast n * 4096 :: u64) = of_nat (length xs)"
    using assms(4) by (metis of_nat_unat ucast_id)
  then have "lseek (Some (?p, 0)) (ucast n * 4096) = Some (?p, length xs)"
    using lseek_small [of "length xs" ?p 0] assms(4) n by simp
  moreover have "read_into (junk ?p) (Some (?p, length xs)) 4096 f = ?bs"
    using read_into_prefix [OF assms(1,3) page_transfer] .
  ultimately show ?thesis
    using pagec.get_prefix [OF assms(2) buffer_over] assms open_existing_starts [OF assms(1)]
    by (simp add: load_index_page_def Let_def)
qed

lemma get_record_from_data_eq:
  assumes "file_starts f (data_path base table i) (xs @ row_enc r @ zs)" "row_ok s r"
    "length xs + length (row_enc r) < 2 ^ 30"
  shows "get_record_from_data junk base table i s (of_nat (length xs)) f = Inr r"
proof -
  let ?p = "data_path base table i"
  have n: "unat (record_size s) = length (row_enc r)"
    using record_size_eq [OF assms(2)] assms(3) by (simp add: unat_of_nat take_bit_nat_eq_self)
  have st: "file_starts f ?p (xs @ row_enc r)"
    using assms(1) by (auto simp: file_starts_def)
  have "read_into (junk ?p) (Some (?p, length xs)) (unat (record_size s)) f = row_enc r"
    using read_into_prefix [OF st] n assms(3) by (simp add: max_transfer_def)
  moreover have "lseek (Some (?p, 0)) (of_nat (length xs)) = Some (?p, length xs)"
    using assms(3) by (simp add: lseek_small)
  moreover have "buf_ok (MemoryBuffer_of (row_enc r) (record_size s))"
      "rest (MemoryBuffer_of (row_enc r) (record_size s)) = row_enc r @ []"
    using buffer_over [of "row_enc r" "record_size s"] n assms(3) by simp_all
  ultimately show ?thesis
    using recordc.get_prefix [OF assms(2)] open_existing_starts [OF st]
    by (simp add: get_record_from_data_def Let_def)
qed

end
