(* ===== verification/Io_Table_Builder.thy ===== *)
theory Io_Table_Builder
  imports Io_Disk_Manager
begin

text \<open>
  \<^verbatim>\<open>io::TableBuilder\<close>: writes a memtable out as the data, index and summary files
  of a new sstable. The main lemma, \<open>TableBuilder_new_eq\<close>, says what the three files hold when the
  memtable fits one index page.
\<close>

section \<open>The class TableBuilder\<close>

record table_builder =
  bd_base_path :: string
  bd_table_name :: string
  bd_schema :: schema
  bd_new_sstable_id :: u64
  bd_records :: "(dptr \<times> row) list"
  bd_summary_fd :: fd
  bd_index_fd :: fd
  bd_data_fd :: fd
  bd_summary :: "summary option"
  bd_index_page :: "index_page option"

text \<open>\<^verbatim>\<open>write_index_file\<close>: the page into a buffer of 4096 bytes, one write.\<close>

definition write_index_file :: "table_builder \<Rightarrow> (fs, bool \<times> table_builder) cmd" where
  "write_index_file b =
     bindC (liftC (deref (bd_index_page b))) (\<lambda>pg.
     bindC (liftC (IndexPage_bytes pg (MemoryBuffer_new 4096))) (\<lambda>buf f.
       case sys_write (bd_index_fd b) (take 4096 (MemoryBuffer_bytes buf)) f of
         (None, d, f) \<Rightarrow> (Inr (False, b\<lparr>bd_index_fd := d\<rparr>), f)
       | (Some wc, d, f) \<Rightarrow> (Inr (True, b\<lparr>bd_index_fd := d\<rparr>), f)))"

definition write_summary_file :: "table_builder \<Rightarrow> (fs, table_builder) cmd" where
  "write_summary_file b =
     bindC (liftC (deref (bd_summary b))) (\<lambda>sm.
     bindC (liftC (Summary_bytes sm (MemoryBuffer_new 4096))) (\<lambda>buf f.
       case sys_write (bd_summary_fd b) (take 4096 (MemoryBuffer_bytes buf)) f of
         (wc, d, f) \<Rightarrow> (Inr (b\<lparr>bd_summary_fd := d\<rparr>), f)))"

text \<open>\<^verbatim>\<open>m_summary->push_back(key)\<close>, whose answer is not looked at.\<close>

definition push_summary :: "dptr \<Rightarrow> table_builder \<Rightarrow> (fs, table_builder) cmd" where
  "push_summary k b =
     bindC (liftC (deref (bd_summary b))) (\<lambda>sm.
     bindC (liftC (Summary_push_back k sm)) (\<lambda>(_, sm). liftC (Inr (b\<lparr>bd_summary := Some sm\<rparr>))))"

definition push_index :: "dptr \<Rightarrow> u64 \<Rightarrow> table_builder \<Rightarrow> (fs, bool \<times> table_builder) cmd" where
  "push_index k key_offset b =
     bindC (liftC (deref (bd_index_page b))) (\<lambda>pg.
     bindC (liftC (IndexPage_push_back k key_offset pg)) (\<lambda>(ok, pg).
       liftC (Inr (ok, b\<lparr>bd_index_page := Some pg\<rparr>))))"

text \<open>The full page goes to disk and a new one is started with the key that did not fit.\<close>

definition next_page :: "dptr \<Rightarrow> u64 \<Rightarrow> table_builder \<Rightarrow> (fs, bool \<times> table_builder) cmd" where
  "next_page k key_offset b =
     bindC (push_summary k b) (\<lambda>b.
     bindC (write_index_file b) (\<lambda>(ok, b).
       if \<not> ok then liftC (Inr (False, b))
       else bindC (liftC (deref (bd_index_page b))) (\<lambda>pg.
            bindC (push_index k key_offset (b\<lparr>bd_index_page := Some (IndexPage_clear pg)\<rparr>)) (\<lambda>(_, b).
              liftC (Inr (True, b))))))"

text \<open>
  The loop over the memtable. Its first result is false after an early
  \<^verbatim>\<open>return\<close>.
\<close>

fun build_loop ::
  "(dptr \<times> row) list \<Rightarrow> u64 \<Rightarrow> table_builder \<Rightarrow> (fs, bool \<times> table_builder) cmd" where
  "build_loop [] key_offset b f = (Inr (True, b), f)"
| "build_loop ((k, r) # records) key_offset b f =
     bindC (liftC (Record_bytes r (MemoryBuffer_new (record_size (bd_schema b))))) (\<lambda>buf f.
       case sys_write (bd_data_fd b) (take (unat (record_size (bd_schema b))) (MemoryBuffer_bytes buf)) f of
         (None, d, f) \<Rightarrow> (Inr (False, b\<lparr>bd_data_fd := d\<rparr>), f)
       | (Some wc, d, f) \<Rightarrow>
           bindC (push_index k key_offset (b\<lparr>bd_data_fd := d\<rparr>)) (\<lambda>(ok, b).
           bindC (if ok then liftC (Inr (True, b)) else next_page k key_offset b) (\<lambda>(going, b).
             if \<not> going then liftC (Inr (False, b))
             else build_loop records (key_offset + record_size (bd_schema b)) b)) f) f"

definition construct_sstable_files :: "table_builder \<Rightarrow> (fs, table_builder) cmd" where
  "construct_sstable_files b = (case bd_records b of
     [] \<Rightarrow> liftC (Inl Undefined_Behaviour)
   | (k, _) # _ \<Rightarrow>
       bindC (liftC (deref k)) (\<lambda>d.
       bindC (push_summary k (b\<lparr>bd_summary := Some (Summary_new (type_of d)),
                bd_index_page := Some (IndexPage_new (type_of d))\<rparr>)) (\<lambda>b.
       bindC (build_loop (bd_records b) 0 b) (\<lambda>(going, b).
         if \<not> going then liftC (Inr b)
         else bindC (write_index_file b) (\<lambda>(ok, b).
           if \<not> ok then liftC (Inr b) else write_summary_file b)))))"

text \<open>The constructor: it opens the three files and constructs the sstable.\<close>

definition TableBuilder_new ::
  "string \<Rightarrow> string \<Rightarrow> schema \<Rightarrow> u64 \<Rightarrow> (dptr \<times> row) list \<Rightarrow> (fs, table_builder) cmd" where
  "TableBuilder_new base_path table_name s sstable_id records f =
     (let (sfd, f) = open_create (summary_path base_path table_name sstable_id) f;
          (ifd, f) = open_create (index_path base_path table_name sstable_id) f;
          (dfd, f) = open_create (data_path base_path table_name sstable_id) f
      in construct_sstable_files
           \<lparr>bd_base_path = base_path, bd_table_name = table_name, bd_schema = s,
            bd_new_sstable_id = sstable_id, bd_records = records,
            bd_summary_fd = sfd, bd_index_fd = ifd, bd_data_fd = dfd,
            bd_summary = None, bd_index_page = None\<rparr> f)"

definition get_new_summary :: "table_builder \<Rightarrow> summary option \<times> table_builder" where
  "get_new_summary b = (bd_summary b, b\<lparr>bd_summary := None\<rparr>)"

section \<open>What a memtable that fits one page leaves on disk\<close>

text \<open>An image of up to 4096 bytes in a page of 4096.\<close>

definition in_page :: "byte list \<Rightarrow> byte list" where
  "in_page bs = bs @ replicate (4096 - length bs) 0"

lemma length_in_page: "length bs \<le> 4096 \<Longrightarrow> length (in_page bs) = 4096"
  by (simp add: in_page_def)

lemma write_index_file_ex:
  assumes "bd_index_page b = Some pg" "page_ok pg" "length (IndexPage_enc pg) \<le> 4096"
    "bd_index_fd b = Some (p, length xs)" "file_starts f p xs"
  shows "\<exists>f'. write_index_file b f = (Inr (True, b\<lparr>bd_index_fd := Some (p, length xs + 4096)\<rparr>), f') \<and>
    file_starts f' p (xs @ in_page (IndexPage_enc pg)) \<and> touched {p} f f'"
proof -
  obtain buf where buf: "IndexPage_bytes pg (MemoryBuffer_new 4096) = Inr buf"
      "MemoryBuffer_bytes buf = in_page (IndexPage_enc pg)"
    using pagec.roundtrip [OF assms(2), of 4096] assms(3) by (auto simp: in_page_def)
  obtain f' where "sys_write (Some (p, length xs)) (in_page (IndexPage_enc pg)) f =
      (Some 4096, Some (p, length xs + 4096), f')"
      "file_starts f' p (xs @ in_page (IndexPage_enc pg))" "touched {p} f f'"
    using sys_write_ex [OF assms(5), of "in_page (IndexPage_enc pg)"] length_in_page [OF assms(3)]
      page_transfer by auto
  then show ?thesis
    using assms(1,3,4) buf length_in_page [OF assms(3)] by (simp add: write_index_file_def)
qed

lemma write_summary_file_ex:
  assumes "bd_summary b = Some sm" "summary_ok sm" "length (Summary_enc sm) \<le> 4096"
    "bd_summary_fd b = Some (p, length xs)" "file_starts f p xs"
  shows "\<exists>f'. write_summary_file b f = (Inr (b\<lparr>bd_summary_fd := Some (p, length xs + 4096)\<rparr>), f') \<and>
    file_starts f' p (xs @ in_page (Summary_enc sm)) \<and> touched {p} f f'"
proof -
  obtain buf where buf: "Summary_bytes sm (MemoryBuffer_new 4096) = Inr buf"
      "MemoryBuffer_bytes buf = in_page (Summary_enc sm)"
    using summaryc.roundtrip [OF assms(2), of 4096] assms(3) by (auto simp: in_page_def)
  obtain f' where "sys_write (Some (p, length xs)) (in_page (Summary_enc sm)) f =
      (Some 4096, Some (p, length xs + 4096), f')"
      "file_starts f' p (xs @ in_page (Summary_enc sm))" "touched {p} f f'"
    using sys_write_ex [OF assms(5), of "in_page (Summary_enc sm)"] length_in_page [OF assms(3)]
      page_transfer by auto
  then show ?thesis
    using assms(1,3,4) buf length_in_page [OF assms(3)] by (simp add: write_summary_file_def)
qed

text \<open>The index entries of a memtable: records of \<open>n\<close> bytes from offset \<open>pos\<close> on.\<close>

fun entries_from :: "nat \<Rightarrow> nat \<Rightarrow> (dptr \<times> row) list \<Rightarrow> (dptr \<times> u64) list" where
  "entries_from pos n [] = []"
| "entries_from pos n ((k, r) # m) = (k, of_nat pos) # entries_from (pos + n) n m"

definition rows_enc :: "(dptr \<times> row) list \<Rightarrow> byte list" where
  "rows_enc m = concat (map (\<lambda>(k, r). row_enc r) m)"

lemma fst_entries_from [simp]: "map fst (entries_from pos n m) = map fst m"
  by (induction m arbitrary: pos) auto

lemma length_entries_from [simp]: "length (entries_from pos n m) = length m"
  by (induction m arbitrary: pos) auto

lemma map_ok_fst: "map fst m = map fst m' \<Longrightarrow> dmap.map_ok t m \<longleftrightarrow> dmap.map_ok t m'"
  by (metis dmap.map_ok_def list.set_map)

lemma write_record_bytes:
  assumes "row_ok s r" "length (row_enc r) < 2 ^ 30"
  shows "\<exists>buf. Record_bytes r (MemoryBuffer_new (record_size s)) = Inr buf \<and>
    take (unat (record_size s)) (MemoryBuffer_bytes buf) = row_enc r"
proof -
  have n: "unat (record_size s) = length (row_enc r)"
    using record_size_eq [OF assms(1)] assms(2) by (simp add: unat_of_nat take_bit_nat_eq_self)
  obtain buf where "Record_bytes r (MemoryBuffer_new (record_size s)) = Inr buf"
      "MemoryBuffer_bytes buf = row_enc r @ replicate (unat (record_size s) - length (row_enc r)) 0"
    using recordc.roundtrip [OF assms(1), of "record_size s"] n assms(2) by auto
  then show ?thesis using n by simp
qed

lemma push_index_last:
  assumes "bd_index_page b = Some pg"
    "dmap.map_ok (ip_type pg) (ip_sort_keys pg @ (k, v) # es)"
    "6 + (length (ip_sort_keys pg) + 1) * (unat (ty_length (ip_type pg)) + 8) \<le> 4096"
  shows "push_index k v b f =
    (Inr (True, b\<lparr>bd_index_page := Some (pg\<lparr>ip_sort_keys := ip_sort_keys pg @ [(k, v)]\<rparr>)\<rparr>), f)"
proof -
  have m: "dmap.map_ok (ip_type pg) (ip_sort_keys pg)" "key_ok (ip_type pg) k"
      "\<forall>k' \<in> fst ` set (ip_sort_keys pg). key_before k' k"
    using assms(2) by (auto simp: dmap.map_ok_append dmap.map_ok_Cons)
  have l: "length (IndexPage_enc pg) + unat (ty_length (ip_type pg)) + 8 \<le> 4096"
    using length_IndexPage_enc [OF m(1)] assms(3) by simp
  then have "page_inv pg" using m(1) by (simp add: page_inv_def)
  then show ?thesis
    using IndexPage_push_back_last [OF _ m(2,3) l] assms(1) by (simp add: push_index_def)
qed

text \<open>One turn of the loop when the entry fits the page.\<close>

lemma build_loop_step:
  assumes page: "bd_index_page b = Some pg"
      "dmap.map_ok (ip_type pg) (ip_sort_keys pg @ (k, v) # es)"
      "6 + (length (ip_sort_keys pg) + 1) * (unat (ty_length (ip_type pg)) + 8) \<le> 4096"
    and row: "row_ok (bd_schema b) r" "length (row_enc r) < 2 ^ 30"
    and fd: "bd_data_fd b = Some (p, length xs)" "file_starts f p xs"
  shows "\<exists>f'. build_loop ((k, r) # m) v b f =
      build_loop m (v + record_size (bd_schema b))
        (b\<lparr>bd_data_fd := Some (p, length xs + length (row_enc r)),
           bd_index_page := Some (pg\<lparr>ip_sort_keys := ip_sort_keys pg @ [(k, v)]\<rparr>)\<rparr>) f' \<and>
    file_starts f' p (xs @ row_enc r) \<and> touched {p} f f'"
proof -
  obtain buf where buf: "Record_bytes r (MemoryBuffer_new (record_size (bd_schema b))) = Inr buf"
      "take (unat (record_size (bd_schema b))) (MemoryBuffer_bytes buf) = row_enc r"
    using write_record_bytes [OF row] by blast
  obtain f' where f': "sys_write (Some (p, length xs)) (row_enc r) f =
      (Some (length (row_enc r)), Some (p, length xs + length (row_enc r)), f')"
      "file_starts f' p (xs @ row_enc r)" "touched {p} f f'"
    using sys_write_ex [OF fd(2), of "row_enc r"] row(2) by (auto simp: max_transfer_def)
  let ?b = "b\<lparr>bd_data_fd := Some (p, length xs + length (row_enc r))\<rparr>"
  have "push_index k v ?b f' =
    (Inr (True, ?b\<lparr>bd_index_page := Some (pg\<lparr>ip_sort_keys := ip_sort_keys pg @ [(k, v)]\<rparr>)\<rparr>), f')"
    using page by (intro push_index_last) simp_all
  then show ?thesis using buf f' fd(1) by auto
qed

lemma build_loop_fits:
  assumes "bd_index_page b = Some pg"
    "dmap.map_ok (ip_type pg) (ip_sort_keys pg @ entries_from pos n m)"
    "6 + (length (ip_sort_keys pg) + length m) * (unat (ty_length (ip_type pg)) + 8) \<le> 4096"
    "\<forall>(k, r) \<in> set m. row_ok (bd_schema b) r \<and> length (row_enc r) = n" "n < 2 ^ 30"
    "bd_data_fd b = Some (p, length xs)" "file_starts f p xs"
  shows "\<exists>f'. build_loop m (of_nat pos) b f =
      (Inr (True, b\<lparr>bd_data_fd := Some (p, length xs + length (rows_enc m)),
         bd_index_page := Some (pg\<lparr>ip_sort_keys := ip_sort_keys pg @ entries_from pos n m\<rparr>)\<rparr>), f') \<and>
    file_starts f' p (xs @ rows_enc m) \<and> touched {p} f f'"
  using assms
proof (induction m arbitrary: pos b pg xs f)
  case Nil
  then show ?case by (auto simp: rows_enc_def)
next
  case (Cons e m)
  obtain k r where e: "e = (k, r)" by (cases e)
  let ?pg = "pg\<lparr>ip_sort_keys := ip_sort_keys pg @ [(k, of_nat pos)]\<rparr>"
  let ?b = "b\<lparr>bd_data_fd := Some (p, length xs + length (row_enc r)), bd_index_page := Some ?pg\<rparr>"
  have row: "row_ok (bd_schema b) r" "length (row_enc r) = n" using Cons.prems(4) by (auto simp: e)
  have fits: "6 + (length (ip_sort_keys pg) + 1) * (unat (ty_length (ip_type pg)) + 8) \<le> 4096"
    by (rule order_trans [OF _ Cons.prems(3)]) (intro add_mono mult_le_mono; simp)
  have keys: "dmap.map_ok (ip_type pg) (ip_sort_keys pg @ (k, of_nat pos) # entries_from (pos + n) n m)"
    using Cons.prems(2) by (simp add: e)
  obtain f1 where f1: "build_loop ((k, r) # m) (of_nat pos) b f =
        build_loop m (of_nat pos + record_size (bd_schema b)) ?b f1"
      "file_starts f1 p (xs @ row_enc r)" "touched {p} f f1"
    using build_loop_step [OF Cons.prems(1) keys fits row(1) _ Cons.prems(6,7), of m] row(2) Cons.prems(5)
    by blast
  have off: "of_nat pos + record_size (bd_schema b) = of_nat (pos + n)"
    using record_size_eq [OF row(1)] row(2) by simp
  obtain f' where f': "build_loop m (of_nat (pos + n)) ?b f1 =
      (Inr (True, ?b\<lparr>bd_data_fd := Some (p, length (xs @ row_enc r) + length (rows_enc m)),
         bd_index_page := Some (?pg\<lparr>ip_sort_keys := ip_sort_keys ?pg @ entries_from (pos + n) n m\<rparr>)\<rparr>), f')"
      "file_starts f' p ((xs @ row_enc r) @ rows_enc m)" "touched {p} f1 f'"
    using Cons.IH [of ?b ?pg "pos + n" "xs @ row_enc r" f1] keys Cons.prems(3-5) f1(2)
    by (auto simp: e)
  have "touched {p} f f'" using touched_trans [OF f1(3) f'(3)] by simp
  then show ?case
    using f1(1) f' off by (auto simp: e rows_enc_def add.assoc)
qed

text \<open>A memtable that fits one page, with rows of the schema and keys of type \<open>t\<close>.\<close>

definition memtable_ok :: "schema \<Rightarrow> data_type \<Rightarrow> (dptr \<times> row) list \<Rightarrow> bool" where
  "memtable_ok s t m \<longleftrightarrow> m \<noteq> [] \<and> length m < 256 \<and> dmap.map_ok t m \<and> type_ok t \<and>
     6 + length m * (unat (ty_length t) + 8) \<le> 4096 \<and>
     (\<forall>(k, r) \<in> set m. row_ok s r \<and> length (row_enc r) = unat (record_size s)) \<and>
     length m * unat (record_size s) < 2 ^ 30"

definition sstable_page :: "schema \<Rightarrow> data_type \<Rightarrow> (dptr \<times> row) list \<Rightarrow> index_page" where
  "sstable_page s t m = \<lparr>ip_sort_keys = entries_from 0 (unat (record_size s)) m, ip_type = t\<rparr>"

definition sstable_summary :: "data_type \<Rightarrow> (dptr \<times> row) list \<Rightarrow> summary" where
  "sstable_summary t m = \<lparr>sm_sort_keys = [fst (hd m)], sm_type = t\<rparr>"

definition holds_sstable ::
  "string \<Rightarrow> string \<Rightarrow> schema \<Rightarrow> data_type \<Rightarrow> u64 \<Rightarrow> (dptr \<times> row) list \<Rightarrow> fs \<Rightarrow> bool" where
  "holds_sstable base table s t i m f \<longleftrightarrow>
     file_starts f (data_path base table i) (rows_enc m) \<and>
     file_starts f (index_path base table i) (in_page (IndexPage_enc (sstable_page s t m))) \<and>
     file_starts f (summary_path base table i) (in_page (Summary_enc (sstable_summary t m)))"

definition sstable_paths :: "string \<Rightarrow> string \<Rightarrow> u64 \<Rightarrow> string set" where
  "sstable_paths base table i =
     {summary_path base table i, index_path base table i, data_path base table i}"

text \<open>The table's directory exists, and nothing stands in the way of its files.\<close>

definition table_dir_ok :: "string \<Rightarrow> string \<Rightarrow> fs \<Rightarrow> bool" where
  "table_dir_ok base table f \<longleftrightarrow> base @ ''/'' @ table \<in> set (fs_dirs f) \<and>
     (\<forall>i. \<forall>p \<in> sstable_paths base table i. p \<notin> set (fs_dirs f) \<and> p \<notin> set (fs_bad f))"

lemma table_dir_ok_touched: "table_dir_ok base table f \<Longrightarrow> touched P f f' \<Longrightarrow> table_dir_ok base table f'"
  by (simp add: table_dir_ok_def touched_def)

lemma memtable_hd:
  assumes "memtable_ok s t m"
  obtains d r m' where "m = (Some d, r) # m'" "data_ok d" "type_of d = t" "ordered_id (ty_id t)"
  using assms
  by (cases m) (auto simp: memtable_ok_def dmap.map_ok_def key_ok_def dptr_ok_def)

lemma sstable_page_ok:
  assumes "memtable_ok s t m"
  shows "page_ok (sstable_page s t m)" "length (IndexPage_enc (sstable_page s t m)) \<le> 4096"
proof -
  have "dmap.map_ok t (entries_from 0 (unat (record_size s)) m)"
    using assms map_ok_fst [of "entries_from 0 (unat (record_size s)) m" m]
    by (simp add: memtable_ok_def)
  then show "page_ok (sstable_page s t m)" "length (IndexPage_enc (sstable_page s t m)) \<le> 4096"
    using assms length_IndexPage_enc [of "sstable_page s t m"]
    by (simp_all add: memtable_ok_def page_ok_def sstable_page_def)
qed

lemma sstable_summary_ok:
  assumes "memtable_ok s t m"
  shows "summary_ok (sstable_summary t m)" "length (Summary_enc (sstable_summary t m)) \<le> 4096"
    "summary_inv (sstable_summary t m)"
proof -
  obtain d r m' where m: "m = (Some d, r) # m'" "data_ok d" "type_of d = t" "ordered_id (ty_id t)"
    using assms by (rule memtable_hd)
  have k: "\<forall>p \<in> set (sm_sort_keys (sstable_summary t m)). dptr_ok (sm_type (sstable_summary t m)) p"
    using m by (simp add: sstable_summary_def dptr_ok_def)
  have "6 + length m * (unat (ty_length t) + 8) \<le> 4096" using assms by (simp add: memtable_ok_def)
  then have "6 + unat (ty_length t) \<le> 4096" using m(1) by simp
  then show l: "length (Summary_enc (sstable_summary t m)) \<le> 4096"
    using length_Summary_enc [OF k] by (simp add: sstable_summary_def)
  then show "summary_inv (sstable_summary t m)" using k by (simp add: summary_inv_def)
  show "summary_ok (sstable_summary t m)"
    using k assms by (simp add: summary_ok_def sstable_summary_def memtable_ok_def)
qed

lemma push_summary_first:
  assumes "memtable_ok s t m" "bd_summary b = Some (Summary_new t)"
  shows "push_summary (fst (hd m)) b f = (Inr (b\<lparr>bd_summary := Some (sstable_summary t m)\<rparr>), f)"
proof -
  have k: "dptr_ok t (fst (hd m))" and len: "6 + unat (ty_length t) \<le> 4096"
    using sstable_summary_ok(2,3) [OF assms(1)]
      length_Summary_enc [of "sstable_summary t m"]
    by (auto simp: summary_inv_def sstable_summary_def)
  have "length (Summary_enc (Summary_new t)) = 6" by (simp add: Summary_enc_def Summary_new_def)
  then have "Summary_push_back (fst (hd m)) (Summary_new t) = Inr (True, sstable_summary t m)"
    using Summary_push_back_spec [OF summary_inv_new, of t "fst (hd m)"] k len
    by (simp add: Summary_new_def sstable_summary_def)
  then show ?thesis using assms(2) by (simp add: push_summary_def)
qed

lemma construct_sstable_files_ex:
  assumes m: "memtable_ok s t m"
    and b: "bd_records b = m" "bd_schema b = s" "bd_summary_fd b = Some (ps, 0)"
      "bd_index_fd b = Some (pi, 0)" "bd_data_fd b = Some (pd, 0)"
    and distinct: "ps \<noteq> pi" "ps \<noteq> pd" "pi \<noteq> pd"
    and files: "file_starts f ps []" "file_starts f pi []" "file_starts f pd []"
  shows "\<exists>b' f'. construct_sstable_files b f = (Inr b', f') \<and>
    bd_summary b' = Some (sstable_summary t m) \<and> touched {ps, pi, pd} f f' \<and>
    file_starts f' pd (rows_enc m) \<and> file_starts f' pi (in_page (IndexPage_enc (sstable_page s t m))) \<and>
    file_starts f' ps (in_page (Summary_enc (sstable_summary t m)))"
proof -
  let ?n = "unat (record_size s)"
  let ?pg = "sstable_page s t m"
  let ?sm = "sstable_summary t m"
  obtain d r m' where hd: "m = (Some d, r) # m'" "type_of d = t" using m by (rule memtable_hd)
  let ?b0 = "b\<lparr>bd_summary := Some (Summary_new t), bd_index_page := Some (IndexPage_new t)\<rparr>"
  let ?b1 = "?b0\<lparr>bd_summary := Some ?sm\<rparr>"
  have push: "push_summary (Some d) ?b0 f = (Inr ?b1, f)"
    using push_summary_first [OF m, of ?b0 f] hd(1) by simp
  have keys: "dmap.map_ok t (ip_sort_keys (IndexPage_new t) @ entries_from 0 ?n m)"
    using sstable_page_ok(1) [OF m] by (simp add: page_ok_def sstable_page_def IndexPage_new_def)
  have n: "?n < 2 ^ 30" and rows: "\<forall>(k, r) \<in> set m. row_ok s r \<and> length (row_enc r) = ?n"
    and fits: "6 + length m * (unat (ty_length t) + 8) \<le> 4096"
    using m hd(1) by (auto simp: memtable_ok_def)
  let ?b2 = "?b1\<lparr>bd_data_fd := Some (pd, length (rows_enc m)), bd_index_page := Some ?pg\<rparr>"
  obtain f2 where loop: "build_loop m 0 ?b1 f = (Inr (True, ?b2), f2)"
      "file_starts f2 pd (rows_enc m)" "touched {pd} f f2"
    using build_loop_fits [of ?b1 "IndexPage_new t" 0 ?n m pd "[]" f] keys fits rows n b files(3)
    by (auto simp: sstable_page_def IndexPage_new_def)
  have "file_starts f2 pi []" using file_starts_touched [OF files(2) loop(3)] distinct by simp
  then obtain f3 where idx: "write_index_file ?b2 f2 =
        (Inr (True, ?b2\<lparr>bd_index_fd := Some (pi, 4096)\<rparr>), f3)"
      "file_starts f3 pi (in_page (IndexPage_enc ?pg))" "touched {pi} f2 f3"
    using write_index_file_ex [of ?b2 ?pg pi "[]" f2] sstable_page_ok [OF m] b by auto
  let ?b3 = "?b2\<lparr>bd_index_fd := Some (pi, 4096)\<rparr>"
  have t3: "touched {pd, pi} f f3" using touched_trans [OF loop(3) idx(3)] by (simp add: insert_commute)
  have "file_starts f3 ps []" using file_starts_touched [OF files(1) t3] distinct by simp
  then obtain f4 where smy: "write_summary_file ?b3 f3 =
        (Inr (?b3\<lparr>bd_summary_fd := Some (ps, 4096)\<rparr>), f4)"
      "file_starts f4 ps (in_page (Summary_enc ?sm))" "touched {ps} f3 f4"
    using write_summary_file_ex [of ?b3 ?sm ps "[]" f3] sstable_summary_ok [OF m] b by auto
  have "touched {ps, pi, pd} f f4"
    using touched_trans [OF t3 smy(3)] by (rule touched_mono) auto
  moreover have "file_starts f4 pd (rows_enc m)" "file_starts f4 pi (in_page (IndexPage_enc ?pg))"
    using file_starts_touched [OF file_starts_touched [OF loop(2) idx(3)] smy(3)]
      file_starts_touched [OF idx(2) smy(3)] distinct by auto
  moreover have "construct_sstable_files b f = (Inr (?b3\<lparr>bd_summary_fd := Some (ps, 4096)\<rparr>), f4)"
    using push loop(1) idx(1) smy(1) hd b(1) by (simp add: construct_sstable_files_def)
  ultimately show ?thesis using smy(2) by auto
qed

lemma TableBuilder_new_ex:
  assumes m: "memtable_ok s t m" and dir: "table_dir_ok base table f"
  shows "\<exists>b f'. TableBuilder_new base table s i m f = (Inr b, f') \<and>
    bd_summary b = Some (sstable_summary t m) \<and> touched (sstable_paths base table i) f f' \<and>
    holds_sstable base table s t i m f'"
proof -
  let ?ps = "summary_path base table i"
  let ?pi = "index_path base table i"
  let ?pd = "data_path base table i"
  have parent: "parent_dir ?ps = base @ ''/'' @ table" "parent_dir ?pi = base @ ''/'' @ table"
      "parent_dir ?pd = base @ ''/'' @ table"
    by (rule parent_sstable_path; simp)+
  note dirD = dir [unfolded table_dir_ok_def sstable_paths_def]
  obtain f1 where f1: "open_create ?ps f = (Some (?ps, 0), f1)" "file_starts f1 ?ps []"
      "touched {?ps} f f1"
    using open_create_ex [of ?ps f] dirD parent by auto
  obtain f2 where f2: "open_create ?pi f1 = (Some (?pi, 0), f2)" "file_starts f2 ?pi []"
      "touched {?pi} f1 f2"
    using open_create_ex [of ?pi f1] dirD parent f1(3) by (auto simp: touched_def)
  obtain f3 where f3: "open_create ?pd f2 = (Some (?pd, 0), f3)" "file_starts f3 ?pd []"
      "touched {?pd} f2 f3"
    using open_create_ex [of ?pd f2] dirD parent f1(3) f2(3) by (auto simp: touched_def)
  have "file_starts f3 ?ps []" "file_starts f3 ?pi []"
    using file_starts_touched [OF file_starts_touched [OF f1(2) f2(3)] f3(3)]
      file_starts_touched [OF f2(2) f3(3)] by simp_all
  note starts = this f3(2)
  let ?b = "\<lparr>bd_base_path = base, bd_table_name = table, bd_schema = s, bd_new_sstable_id = i,
    bd_records = m, bd_summary_fd = Some (?ps, 0), bd_index_fd = Some (?pi, 0),
    bd_data_fd = Some (?pd, 0), bd_summary = None, bd_index_page = None\<rparr>"
  have "TableBuilder_new base table s i m f = construct_sstable_files ?b f3"
    using f1(1) f2(1) f3(1) by (simp add: TableBuilder_new_def)
  moreover obtain b f4 where "construct_sstable_files ?b f3 = (Inr b, f4)"
      "bd_summary b = Some (sstable_summary t m)" "touched {?ps, ?pi, ?pd} f3 f4"
      "holds_sstable base table s t i m f4"
    using construct_sstable_files_ex [OF m, of ?b ?ps ?pi ?pd f3] starts
    by (simp add: holds_sstable_def) blast
  moreover have "touched {?ps, ?pi, ?pd} f f3"
    by (rule touched_mono [OF touched_trans [OF touched_trans [OF f1(3) f2(3)] f3(3)]]) auto
  ultimately show ?thesis
    using touched_trans [of "{?ps, ?pi, ?pd}" f f3] by (fastforce simp: sstable_paths_def)
qed

end
