(* ===== verification/Db_Table_Manager.thy ===== *)
theory Db_Table_Manager
  imports Io_Table_Builder
begin

text \<open>
  \<^verbatim>\<open>db::TableManager\<close>: one table, as a memtable in memory and a list of sstables on
  disk. The abstract specification keeps one pending entry and a map of everything flushed; the lemmas
  show that reads and writes implement it, for a sort key whose type \<^verbatim>\<open>DataCmp\<close>
  orders and whose two entries of a flush fit one index page.
\<close>

section \<open>The class TableManager\<close>

record table_manager =
  tm_base_path :: string
  tm_table_name :: string
  tm_schema :: schema
  tm_current_sstable_id :: u64
  tm_summaries :: "summary option list"
  tm_memtable :: "(dptr \<times> row) list"

definition TableManager_new ::
  "string \<Rightarrow> string \<Rightarrow> schema \<Rightarrow> summary option list \<Rightarrow> table_manager" where
  "TableManager_new base_path table_name s summaries =
     \<lparr>tm_base_path = base_path, tm_table_name = table_name, tm_schema = s,
      tm_current_sstable_id = of_nat (length summaries), tm_summaries = summaries, tm_memtable = []\<rparr>"

text \<open>
  The loop of \<^verbatim>\<open>read_record\<close> over the sstables, from the newest: \<open>Suc i\<close>
  sstables are left while \<^verbatim>\<open>sstable_id\<close> is \<open>i\<close>.
\<close>

fun read_sstables ::
  "(string \<Rightarrow> nat \<Rightarrow> byte) \<Rightarrow> table_manager \<Rightarrow> dptr \<Rightarrow> fs \<Rightarrow> nat \<Rightarrow> row result" where
  "read_sstables junk tm k f 0 = Inl non_existent_record_error"
| "read_sstables junk tm k f (Suc i) =
     bindR (vec_at (tm_summaries tm) i) (\<lambda>p.
     bindR (deref p) (\<lambda>sm.
     bindR (find_page_number sm k) (\<lambda>page_number.
     bindR (load_index_page junk (tm_base_path tm) (tm_table_name tm) (of_nat i) page_number f) (\<lambda>pg.
     bindR (Data_copy k) (\<lambda>d.
     bindR (find_offset pg (Some d)) (\<lambda>key_offset.
       if key_offset \<noteq> - 1
       then get_record_from_data junk (tm_base_path tm) (tm_table_name tm) (of_nat i) (tm_schema tm)
              key_offset f
       else read_sstables junk tm k f i))))))"

definition TableManager_read_record ::
  "(string \<Rightarrow> nat \<Rightarrow> byte) \<Rightarrow> table_manager \<Rightarrow> dptr \<Rightarrow> fs \<Rightarrow> row result" where
  "TableManager_read_record junk tm k f =
     bindR (map_find DataCmp k (tm_memtable tm)) (\<lambda>found. case found of
       Some r \<Rightarrow> Inr r
     | None \<Rightarrow> read_sstables junk tm k f (nat (sint (tm_current_sstable_id tm - 1) + 1)))"

definition TableManager_flush :: "(table_manager \<times> fs, unit) cmd" where
  "TableManager_flush = (\<lambda>(tm, f).
     case TableBuilder_new (tm_base_path tm) (tm_table_name tm) (tm_schema tm)
            (tm_current_sstable_id tm) (tm_memtable tm) f of
       (Inl e, f) \<Rightarrow> (Inl e, (tm, f))
     | (Inr b, f) \<Rightarrow>
         let summaries = tm_summaries tm @ [fst (get_new_summary b)]
         in (Inr (), (tm\<lparr>tm_summaries := summaries,
                         tm_current_sstable_id := of_nat (length summaries),
                         tm_memtable := []\<rparr>, f)))"

definition TableManager_write_record :: "row \<Rightarrow> (table_manager \<times> fs, unit) cmd" where
  "TableManager_write_record r = (\<lambda>(tm, f).
     bindC (liftC (Schema_verify (tm_schema tm) r)) (\<lambda>ok.
       if \<not> ok then liftC (Inl schema_mismatch_error)
       else bindC (liftC (vec_at r (unat (sc_sort_key_index (tm_schema tm))))) (\<lambda>k.
            bindC (liftC (map_insert DataCmp k r (tm_memtable tm))) (\<lambda>m (tm, f).
              if 2 \<le> length m then TableManager_flush (tm\<lparr>tm_memtable := m\<rparr>, f)
              else (Inr (), (tm\<lparr>tm_memtable := m\<rparr>, f))))) (tm, f))"

section \<open>The specification of a table\<close>

record table_spec =
  sp_pending :: "(dptr \<times> row) option"
  sp_store :: "dptr \<Rightarrow> row option"

definition spec_empty :: table_spec where
  "spec_empty = \<lparr>sp_pending = None, sp_store = (\<lambda>k. None)\<rparr>"

definition spec_read :: "table_spec \<Rightarrow> dptr \<Rightarrow> row option" where
  "spec_read S k = (case sp_pending S of
     Some (k', r) \<Rightarrow> if k = k' then Some r else sp_store S k
   | None \<Rightarrow> sp_store S k)"

text \<open>
  The second key completes a flush; a second write of the pending key is dropped.
\<close>

definition spec_write :: "dptr \<Rightarrow> row \<Rightarrow> table_spec \<Rightarrow> table_spec" where
  "spec_write k r S = (case sp_pending S of
     None \<Rightarrow> S\<lparr>sp_pending := Some (k, r)\<rparr>
   | Some (k', r') \<Rightarrow> if k = k' then S
       else \<lparr>sp_pending = None, sp_store = (sp_store S)(k' \<mapsto> r', k \<mapsto> r)\<rparr>)"

section \<open>The simulation relation\<close>

definition key_type :: "schema \<Rightarrow> data_type" where
  "key_type s = fd_type (sc_fields s ! unat (sc_sort_key_index s))"

text \<open>The schemas whose tables work: an ordered sort key, short enough, and rows of bounded size.\<close>

definition schema_keyed :: "schema \<Rightarrow> bool" where
  "schema_keyed s \<longleftrightarrow> unat (sc_sort_key_index s) < length (sc_fields s) \<and>
     ordered_id (ty_id (key_type s)) \<and> unat (ty_length (key_type s)) \<le> 2037 \<and>
     sum_list (map (\<lambda>f. unat (ty_length (fd_type f))) (sc_fields s)) < 2 ^ 29"

definition row_key :: "schema \<Rightarrow> row \<Rightarrow> dptr" where
  "row_key s r = r ! unat (sc_sort_key_index s)"

text \<open>What a list of flushed memtables, oldest first, holds.\<close>

fun store_of :: "(dptr \<times> row) list list \<Rightarrow> dptr \<Rightarrow> row option" where
  "store_of [] = Map.empty"
| "store_of (m # ms) = map_of m ++ store_of ms"

definition pending_list :: "table_spec \<Rightarrow> (dptr \<times> row) list" where
  "pending_list S = (case sp_pending S of None \<Rightarrow> [] | Some e \<Rightarrow> [e])"

definition entry_ok :: "schema \<Rightarrow> dptr \<times> row \<Rightarrow> bool" where
  "entry_ok s e \<longleftrightarrow> row_ok s (snd e) \<and> fst e = row_key s (snd e)"

definition implements :: "table_manager \<Rightarrow> fs \<Rightarrow> (dptr \<times> row) list list \<Rightarrow> table_spec \<Rightarrow> bool" where
  "implements tm f ms S \<longleftrightarrow>
     schema_keyed (tm_schema tm) \<and> table_dir_ok (tm_base_path tm) (tm_table_name tm) f \<and>
     tm_memtable tm = pending_list S \<and> (\<forall>e \<in> set (pending_list S). entry_ok (tm_schema tm) e) \<and>
     length ms < 2 ^ 62 \<and> tm_current_sstable_id tm = of_nat (length ms) \<and> sp_store S = store_of ms \<and>
     tm_summaries tm = map (\<lambda>m. Some (sstable_summary (key_type (tm_schema tm)) m)) ms \<and>
     (\<forall>i < length ms. memtable_ok (tm_schema tm) (key_type (tm_schema tm)) (ms ! i) \<and>
        holds_sstable (tm_base_path tm) (tm_table_name tm) (tm_schema tm) (key_type (tm_schema tm))
          (of_nat i) (ms ! i) f)"

section \<open>Reading\<close>

lemma store_of_append: "store_of (ms @ ms') = store_of ms ++ store_of ms'"
  by (induction ms) simp_all

lemma entries_lookup:
  "map_of m k = Some r \<Longrightarrow> \<exists>xs ys. m = xs @ (k, r) # ys \<and>
     map_of (entries_from pos n m) k = Some (of_nat (pos + length xs * n))"
proof (induction m arbitrary: pos)
  case (Cons e m)
  obtain k' r' where e: "e = (k', r')" by (cases e)
  show ?case
  proof (cases "k' = k")
    case True
    then show ?thesis using Cons.prems by (auto simp: e intro: exI [of _ "[]"])
  next
    case False
    then obtain xs ys where "m = xs @ (k, r) # ys"
        "map_of (entries_from (pos + n) n m) k = Some (of_nat (pos + n + length xs * n))"
      using Cons.IH [of "pos + n"] Cons.prems by (simp only: e map_of.simps fst_conv) auto
    then show ?thesis
      using False by (intro exI [of _ "e # xs"] exI [of _ ys]) (simp add: e algebra_simps)
  qed
qed simp

lemma entries_lookup_None: "map_of (entries_from pos n m) k = None \<longleftrightarrow> map_of m k = None"
  by (metis fst_entries_from list.set_map map_of_eq_None_iff)

lemma length_rows_enc:
  "\<forall>(k, r) \<in> set m. length (row_enc r) = n \<Longrightarrow> length (rows_enc m) = length m * n"
  by (induction m) (auto simp: rows_enc_def)

lemma rows_enc_append [simp]:
  "rows_enc (m @ m') = rows_enc m @ rows_enc m'"
  "rows_enc ((k, r) # m) = row_enc r @ rows_enc m"
  by (simp_all add: rows_enc_def)

text \<open>One sstable on disk answers as the memtable it was built from.\<close>

lemma sstable_index:
  assumes "memtable_ok s t m" "holds_sstable base table s t i m f"
  shows "load_index_page junk base table i 0 f = Inr (sstable_page s t m)"
proof -
  have "file_starts f (index_path base table i) ([] @ IndexPage_enc (sstable_page s t m) @
      replicate (4096 - length (IndexPage_enc (sstable_page s t m))) 0)"
    using assms(2) by (simp add: holds_sstable_def in_page_def)
  then show ?thesis
    by (rule load_index_page_eq) (use sstable_page_ok [OF assms(1)] in simp_all)
qed

lemma sstable_hit:
  assumes m: "memtable_ok s t m" and holds: "holds_sstable base table s t i m f"
    and k: "map_of m k = Some r" "key_ok t k"
  shows "\<exists>v. find_offset (sstable_page s t m) k = Inr v \<and> v \<noteq> - 1 \<and>
    get_record_from_data junk base table i s v f = Inr r"
proof -
  let ?n = "unat (record_size s)"
  obtain xs ys where xs: "m = xs @ (k, r) # ys"
      "map_of (entries_from 0 ?n m) k = Some (of_nat (length xs * ?n))"
    using entries_lookup [OF k(1), of 0 ?n] by auto
  have rows: "\<forall>(k, r) \<in> set m. row_ok s r \<and> length (row_enc r) = ?n" "length m * ?n < 2 ^ 30"
    using m by (auto simp: memtable_ok_def)
  have len: "length (rows_enc xs) = length xs * ?n" using rows(1) xs(1) by (intro length_rows_enc) auto
  have small: "length xs * ?n + ?n < 2 ^ 30" using rows(2) xs(1) by (simp add: algebra_simps)
  have v: "find_offset (sstable_page s t m) k = Inr (of_nat (length xs * ?n))"
    using find_offset_eq [OF sstable_page_ok(1) [OF m]] k(2) xs(2) by (simp add: sstable_page_def)
  have "(of_nat (length xs * ?n) :: u64) \<noteq> - 1"
  proof
    assume "(of_nat (length xs * ?n) :: u64) = - 1"
    then have "unat (of_nat (length xs * ?n) :: u64) = unat (- 1 :: u64)" by (simp only:)
    then show False using small by (simp add: unat_of_nat take_bit_nat_eq_self unsigned_minus_1_eq_mask mask_eq_exp_minus_1 del: of_nat_mult)
  qed
  moreover have "get_record_from_data junk base table i s (of_nat (length xs * ?n)) f = Inr r"
    using get_record_from_data_eq [of f base table i "rows_enc xs" r "rows_enc ys" s junk]
      holds rows(1) xs(1) len small by (auto simp: holds_sstable_def)
  ultimately show ?thesis using v by blast
qed

lemma sstable_miss:
  assumes m: "memtable_ok s t m" and k: "map_of m k = None" "key_ok t k"
  shows "find_offset (sstable_page s t m) k = Inr (- 1)"
  using find_offset_eq [OF sstable_page_ok(1) [OF m], of k] k
    entries_lookup_None [of 0 "unat (record_size s)" m k]
  by (simp add: sstable_page_def)

text \<open>The loop over the sstables finds the newest of the flushed memtables that has the key.\<close>

lemma read_sstables_eq:
  assumes impl: "implements tm f ms S" and k: "key_ok (key_type (tm_schema tm)) k" and i: "i \<le> length ms"
  shows "read_sstables junk tm k f i =
    (case store_of (take i ms) k of None \<Rightarrow> Inl non_existent_record_error | Some r \<Rightarrow> Inr r)"
  using i
proof (induction i)
  case 0
  show ?case by simp
next
  case (Suc i)
  let ?s = "tm_schema tm"
  let ?t = "key_type ?s"
  let ?m = "ms ! i"
  have m: "memtable_ok ?s ?t ?m"
      "holds_sstable (tm_base_path tm) (tm_table_name tm) ?s ?t (of_nat i) ?m f"
      "vec_at (tm_summaries tm) i = Inr (Some (sstable_summary ?t ?m))"
    using impl Suc.prems by (simp_all add: implements_def)
  obtain d where d: "k = Some d" "Data_copy k = Inr d"
    using k by (auto simp: key_ok_def dptr_ok_def Data_copy_eq)
  have page: "find_page_number (sstable_summary ?t ?m) k = Inr 0"
    by (simp add: find_page_number_def sstable_summary_def)
  have store: "store_of (take (Suc i) ms) = store_of (take i ms) ++ map_of ?m"
    using Suc.prems by (simp add: take_Suc_conv_app_nth store_of_append)
  note step = m(3) page sstable_index [OF m(1,2)] d
  show ?case
  proof (cases "map_of ?m k")
    case None
    then show ?thesis
      using sstable_miss [OF m(1) None k] Suc step by (simp add: store map_add_def)
  next
    case (Some r)
    obtain v where "find_offset (sstable_page ?s ?t ?m) k = Inr v" "v \<noteq> - 1"
        "get_record_from_data junk (tm_base_path tm) (tm_table_name tm) (of_nat i) ?s v f = Inr r"
      using sstable_hit [OF m(1,2) Some k] by blast
    then show ?thesis using Some step by (simp add: store map_add_def)
  qed
qed

lemma row_key_ok:
  assumes "schema_keyed s" "row_ok s r"
  shows "key_ok (key_type s) (row_key s r)"
  using assms row_ok_nth [OF assms(2), of "unat (sc_sort_key_index s)"]
  by (auto simp: row_key_def schema_keyed_def key_ok_def key_type_def)

lemma read_record_implements:
  assumes impl: "implements tm f ms S" and k: "key_ok (key_type (tm_schema tm)) k"
  shows "TableManager_read_record junk tm k f =
    (case spec_read S k of None \<Rightarrow> Inl non_existent_record_error | Some r \<Rightarrow> Inr r)"
proof -
  let ?s = "tm_schema tm"
  have n: "length ms < 2 ^ 62" "tm_current_sstable_id tm = of_nat (length ms)"
    and st: "sp_store S = store_of ms" and mem: "tm_memtable tm = pending_list S"
    and keys: "\<forall>e \<in> set (pending_list S). entry_ok ?s e" and sk: "schema_keyed ?s"
    using impl by (simp_all add: implements_def)
  have "sint (of_nat (length ms) - 1 :: u64) = int (length ms) - 1"
  proof (cases "length ms")
    case (Suc n')
    then have "sint (of_nat n' :: u64) = int n'"
      using n(1) by (simp add: signed_of_nat signed_take_bit_int_eq_self)
    then show ?thesis by (simp add: Suc)
  qed simp
  then have sst: "read_sstables junk tm k f (nat (sint (tm_current_sstable_id tm - 1) + 1)) =
      (case store_of ms k of None \<Rightarrow> Inl non_existent_record_error | Some r \<Rightarrow> Inr r)"
    using read_sstables_eq [OF impl k, of "length ms" junk] n(2) by simp
  have "key_ok (key_type ?s) (fst e)" if "e \<in> set (pending_list S)" for e
    using that keys row_key_ok [OF sk] by (auto simp: entry_ok_def)
  then have "dmap.map_ok (key_type ?s) (pending_list S)"
    by (auto simp: pending_list_def dmap.map_ok_def split: option.split)
  then have "map_find DataCmp k (tm_memtable tm) = Inr (map_of (pending_list S) k)"
    using dmap.find_eq k mem by auto
  then show ?thesis
    using sst st by (auto simp: TableManager_read_record_def pending_list_def spec_read_def split: option.split)
qed

section \<open>Writing\<close>

lemma row_size:
  assumes "schema_keyed s" "row_ok s r"
  shows "length (row_enc r) = unat (record_size s)" "unat (record_size s) < 2 ^ 29"
  using record_size_eq [OF assms(2)] length_row_enc [OF assms(2)] assms(1)
  by (simp_all add: schema_keyed_def unat_of_nat take_bit_nat_eq_self)

lemma type_ok_ordered: "ordered_id (ty_id t) \<Longrightarrow> type_ok t"
  by (cases "ty_id t") simp_all

text \<open>Two entries of the table in order make a memtable that fits one page.\<close>

lemma memtable_pair_ok:
  assumes s: "schema_keyed s" and e: "entry_ok s e" "entry_ok s e'" and lt: "key_before (fst e) (fst e')"
  shows "memtable_ok s (key_type s) [e, e']"
proof -
  have rows: "row_ok s (snd e)" "row_ok s (snd e')" using e by (simp_all add: entry_ok_def)
  have "dmap.map_ok (key_type s) [e, e']"
    using row_key_ok [OF s rows(1)] row_key_ok [OF s rows(2)] e lt
    by (simp add: dmap.map_ok_def entry_ok_def)
  moreover have "6 + length [e, e'] * (unat (ty_length (key_type s)) + 8) \<le> 4096"
    using s by (simp add: schema_keyed_def)
  moreover have "type_ok (key_type s)" using s by (intro type_ok_ordered) (simp add: schema_keyed_def)
  ultimately show ?thesis
    using rows row_size [OF s rows(1)] row_size [OF s rows(2)]
    by (auto simp: memtable_ok_def)
qed

text \<open>Inserting into a memtable of one entry.\<close>

lemma map_insert_one:
  assumes s: "schema_keyed s" and e: "entry_ok s (k', r')" "entry_ok s (k, r)"
  shows "map_insert DataCmp k r [(k', r')] =
    Inr (if k = k' then [(k', r')] else if key_before k' k then [(k', r'), (k, r)] else [(k, r), (k', r')])"
proof -
  have ok: "key_ok (key_type s) k'" "key_ok (key_type s) k"
    using e row_key_ok [OF s] by (auto simp: entry_ok_def)
  show ?thesis
  proof (cases "k = k'")
    case True
    then show ?thesis using ok dmap.cmp_eq dmap.lt_irrefl by simp
  next
    case False
    then consider "key_before k' k" "\<not> key_before k k'" | "key_before k k'" "\<not> key_before k' k"
      using dmap.lt_total [OF ok] dmap.lt_asym ok by blast
    then show ?thesis using False ok by cases (simp_all add: dmap.cmp_eq)
  qed
qed

text \<open>What no operation on a table changes of it, and the files it may touch.\<close>

definition same_table :: "table_manager \<Rightarrow> table_manager \<Rightarrow> bool" where
  "same_table tm tm' \<longleftrightarrow> tm_schema tm' = tm_schema tm \<and> tm_base_path tm' = tm_base_path tm \<and>
     tm_table_name tm' = tm_table_name tm"

definition table_files :: "table_manager \<Rightarrow> string set" where
  "table_files tm = (\<Union>i. sstable_paths (tm_base_path tm) (tm_table_name tm) i)"

lemma flush_implements:
  assumes impl: "implements tm f ms S" and n: "length ms + 1 < 2 ^ 62"
    and m: "memtable_ok (tm_schema tm) (key_type (tm_schema tm)) m"
  shows "\<exists>tm' f'. TableManager_flush (tm\<lparr>tm_memtable := m\<rparr>, f) = (Inr (), (tm', f')) \<and>
    same_table tm tm' \<and> touched (table_files tm) f f' \<and>
    implements tm' f' (ms @ [m]) \<lparr>sp_pending = None, sp_store = store_of (ms @ [m])\<rparr>"
proof -
  let ?s = "tm_schema tm"
  let ?t = "key_type ?s"
  let ?base = "tm_base_path tm"
  let ?table = "tm_table_name tm"
  let ?i = "of_nat (length ms) :: u64"
  let ?tm = "tm\<lparr>tm_summaries := map (\<lambda>m. Some (sstable_summary ?t m)) (ms @ [m]),
    tm_current_sstable_id := of_nat (length (ms @ [m])), tm_memtable := []\<rparr>"
  note implD = impl [unfolded implements_def]
  obtain b f' where b: "TableBuilder_new ?base ?table ?s ?i m f = (Inr b, f')"
      "bd_summary b = Some (sstable_summary ?t m)" "touched (sstable_paths ?base ?table ?i) f f'"
      "holds_sstable ?base ?table ?s ?t ?i m f'"
    using TableBuilder_new_ex [OF m, of ?base ?table f ?i] implD by auto
  have "holds_sstable ?base ?table ?s ?t (of_nat j) (ms ! j) f'" if j: "j < length ms" for j
  proof -
    have "(of_nat j :: u64) \<noteq> ?i"
      using j n word_of_nat_eq_iff [where ?'a = 64, of j "length ms"]
      by (simp add: take_bit_nat_eq_self)
    then have "p \<notin> sstable_paths ?base ?table ?i" if "p \<in> sstable_paths ?base ?table (of_nat j)" for p
      using that by (auto simp: sstable_paths_def sstable_path_same_kind)
    then show ?thesis
      using implD j file_starts_touched [OF _ b(3)] by (auto simp: holds_sstable_def sstable_paths_def)
  qed
  then have "implements ?tm f' (ms @ [m]) \<lparr>sp_pending = None, sp_store = store_of (ms @ [m])\<rparr>"
    using implD n m b(4) table_dir_ok_touched [OF _ b(3)]
    by (auto simp: implements_def pending_list_def nth_append less_Suc_eq)
  moreover have "TableManager_flush (tm\<lparr>tm_memtable := m\<rparr>, f) = (Inr (), (?tm, f'))"
    using implD b(1,2) by (simp add: TableManager_flush_def get_new_summary_def)
  moreover have "touched (table_files tm) f f'"
    using b(3) by (rule touched_mono) (auto simp: table_files_def)
  ultimately show ?thesis by (auto simp: same_table_def)
qed

text \<open>What a write does once the record is verified and its key found.\<close>

lemma write_record_verified:
  assumes s: "schema_keyed (tm_schema tm)" and r: "row_ok (tm_schema tm) r"
    and ins: "map_insert DataCmp (row_key (tm_schema tm) r) r (tm_memtable tm) = Inr m"
  shows "TableManager_write_record r (tm, f) =
    (if 2 \<le> length m then TableManager_flush (tm\<lparr>tm_memtable := m\<rparr>, f)
     else (Inr (), (tm\<lparr>tm_memtable := m\<rparr>, f)))"
proof -
  have "\<exists>d. p = Some d \<and> data_ok d" if "p \<in> set r" for p
    using that r by (auto simp: row_ok_def list_all2_conv_all_nth in_set_conv_nth dptr_ok_def)
  then have "Schema_verify (tm_schema tm) r = Inr True" using r Schema_verify_eq [of r "tm_schema tm"] by simp
  moreover have "vec_at r (unat (sc_sort_key_index (tm_schema tm))) = Inr (row_key (tm_schema tm) r)"
    using s row_ok_nth [OF r] by (auto simp: schema_keyed_def row_key_def)
  ultimately show ?thesis using ins by (simp add: TableManager_write_record_def)
qed

lemma write_record_implements:
  assumes impl: "implements tm f ms S" and n: "length ms + 1 < 2 ^ 62" and r: "row_ok (tm_schema tm) r"
  shows "\<exists>tm' f' ms'. TableManager_write_record r (tm, f) = (Inr (), (tm', f')) \<and>
    same_table tm tm' \<and> touched (table_files tm) f f' \<and> length ms' \<le> length ms + 1 \<and>
    implements tm' f' ms' (spec_write (row_key (tm_schema tm) r) r S)"
proof -
  let ?s = "tm_schema tm"
  let ?k = "row_key ?s r"
  note implD = impl [unfolded implements_def]
  have s: "schema_keyed ?s" and new: "entry_ok ?s (?k, r)" using implD r by (simp_all add: entry_ok_def)
  show ?thesis
  proof (cases "sp_pending S")
    case None
    then have "map_insert DataCmp ?k r (tm_memtable tm) = Inr [(?k, r)]"
      using implD by (simp add: pending_list_def)
    then have "TableManager_write_record r (tm, f) = (Inr (), (tm\<lparr>tm_memtable := [(?k, r)]\<rparr>, f))"
      using write_record_verified [OF s r] by simp
    moreover have "implements (tm\<lparr>tm_memtable := [(?k, r)]\<rparr>) f ms (S\<lparr>sp_pending := Some (?k, r)\<rparr>)"
      using implD new by (simp add: implements_def pending_list_def)
    ultimately show ?thesis
      using None by (intro exI [of _ "tm\<lparr>tm_memtable := [(?k, r)]\<rparr>"] exI [of _ f] exI [of _ ms])
        (simp add: spec_write_def same_table_def)
  next
    case (Some e)
    obtain k' r' where e: "e = (k', r')" by (cases e)
    have old: "entry_ok ?s (k', r')" and mem: "tm_memtable tm = [(k', r')]"
      using implD Some e by (simp_all add: pending_list_def)
    note ins = map_insert_one [OF s old new]
    show ?thesis
    proof (cases "?k = k'")
      case True
      have same: "tm\<lparr>tm_memtable := tm_memtable tm\<rparr> = tm" by simp
      have "TableManager_write_record r (tm, f) = (Inr (), (tm, f))"
        using write_record_verified [OF s r] ins True mem same by (simp add: mem)
      then show ?thesis
        using impl True Some e by (auto simp: spec_write_def same_table_def intro!: exI [of _ ms])
    next
      case False
      let ?m = "if key_before k' ?k then [(k', r'), (?k, r)] else [(?k, r), (k', r')]"
      have "key_before k' ?k \<or> key_before ?k k'"
        using dmap.lt_total row_key_ok [OF s] old new False by (auto simp: entry_ok_def)
      then have m: "memtable_ok ?s (key_type ?s) ?m"
        using memtable_pair_ok [OF s old new] memtable_pair_ok [OF s new old] by auto
      have "store_of (ms @ [?m]) = (sp_store S)(k' \<mapsto> r', ?k \<mapsto> r)"
        using implD False by (auto simp: store_of_append fun_eq_iff map_add_def)
      then have "\<lparr>sp_pending = None, sp_store = store_of (ms @ [?m])\<rparr> = spec_write ?k r S"
        using Some e False by (simp add: spec_write_def)
      then obtain tm' f' where "TableManager_flush (tm\<lparr>tm_memtable := ?m\<rparr>, f) = (Inr (), (tm', f'))"
          "same_table tm tm'" "touched (table_files tm) f f'"
          "implements tm' f' (ms @ [?m]) (spec_write ?k r S)"
        using flush_implements [OF impl n m] by auto
      moreover have "TableManager_write_record r (tm, f) = TableManager_flush (tm\<lparr>tm_memtable := ?m\<rparr>, f)"
        using write_record_verified [OF s r, of ?m f] ins False by (simp add: mem)
      ultimately show ?thesis by (intro exI [of _ tm'] exI [of _ f'] exI [of _ "ms @ [?m]"]) simp
    qed
  qed
qed

text \<open>Changes to other files keep the simulation.\<close>

lemma implements_frame:
  assumes "implements tm f ms S" "touched P f f'" "P \<inter> table_files tm = {}"
  shows "implements tm f' ms S"
proof -
  have "p \<notin> P" if "p \<in> sstable_paths (tm_base_path tm) (tm_table_name tm) i" for p i
    using that assms(3) by (auto simp: table_files_def)
  then have "holds_sstable (tm_base_path tm) (tm_table_name tm) s t i m f'"
    if "holds_sstable (tm_base_path tm) (tm_table_name tm) s t i m f" for s t i m
    using that file_starts_touched [OF _ assms(2)] by (auto simp: holds_sstable_def sstable_paths_def)
  then show ?thesis
    using assms(1) table_dir_ok_touched [OF _ assms(2)] by (auto simp: implements_def)
qed

text \<open>A record the schema rejects changes nothing.\<close>

lemma write_record_rejects:
  assumes "\<And>p. p \<in> set r \<Longrightarrow> \<exists>d. p = Some d \<and> data_ok d" "\<not> row_ok (tm_schema tm) r"
  shows "TableManager_write_record r (tm, f) = (Inl schema_mismatch_error, (tm, f))"
  using Schema_verify_eq [OF assms(1)] assms(2) by (simp add: TableManager_write_record_def)

section \<open>The contract of a table store\<close>

text \<open>
  A component that keeps the rows of one table: \<open>sim n st S\<close> relates its state to the specification and
  leaves room for \<open>n\<close> more writes. The client lemmas follow a sequence of writes.
\<close>

fun write_all :: "(row \<Rightarrow> ('s, unit) cmd) \<Rightarrow> row list \<Rightarrow> ('s, unit) cmd" where
  "write_all put [] st = (Inr (), st)"
| "write_all put (r # rs) st = bindC (put r) (\<lambda>_. write_all put rs) st"

definition spec_writes :: "schema \<Rightarrow> row list \<Rightarrow> table_spec \<Rightarrow> table_spec" where
  "spec_writes s rs S = fold (\<lambda>r. spec_write (row_key s r) r) rs S"

locale table_store =
  fixes s :: schema
    and sim :: "nat \<Rightarrow> 's \<Rightarrow> table_spec \<Rightarrow> bool"
    and put :: "row \<Rightarrow> ('s, unit) cmd"
    and get :: "'s \<Rightarrow> dptr \<Rightarrow> row result"
  assumes get_spec: "sim n st S \<Longrightarrow> key_ok (key_type s) k \<Longrightarrow>
      get st k = (case spec_read S k of None \<Rightarrow> Inl non_existent_record_error | Some r \<Rightarrow> Inr r)"
    and put_spec: "sim (Suc n) st S \<Longrightarrow> row_ok s r \<Longrightarrow>
      \<exists>st'. put r st = (Inr (), st') \<and> sim n st' (spec_write (row_key s r) r S)"
begin

lemma writes_sim:
  assumes "sim (n + length rs) st S" "\<forall>r \<in> set rs. row_ok s r"
  shows "\<exists>st'. write_all put rs st = (Inr (), st') \<and> sim n st' (spec_writes s rs S)"
  using assms
proof (induction rs arbitrary: st S)
  case Nil
  then show ?case by (simp add: spec_writes_def)
next
  case (Cons r rs)
  obtain st1 where st1: "put r st = (Inr (), st1)" "sim (n + length rs) st1 (spec_write (row_key s r) r S)"
    using put_spec [of "n + length rs" st S r] Cons.prems by auto
  obtain st' where "write_all put rs st1 = (Inr (), st')"
      "sim n st' (spec_writes s rs (spec_write (row_key s r) r S))"
    using Cons.IH [OF st1(2)] Cons.prems(2) by auto
  then show ?case using st1(1) by (auto simp: spec_writes_def)
qed

lemma writes_then_read:
  assumes "sim (length rs) st S" "\<forall>r \<in> set rs. row_ok s r" "key_ok (key_type s) k"
  shows "\<exists>st'. write_all put rs st = (Inr (), st') \<and>
    get st' k = (case spec_read (spec_writes s rs S) k of
      None \<Rightarrow> Inl non_existent_record_error | Some r \<Rightarrow> Inr r)"
  using writes_sim [of 0 rs st S] assms get_spec [of 0] by auto

text \<open>A key that was never written before is read back after its write.\<close>

lemma fresh_write_read:
  assumes "sim (Suc n) st S" "row_ok s r" "key_ok (key_type s) (row_key s r)"
    and "get st (row_key s r) = Inl non_existent_record_error"
  shows "\<exists>st'. put r st = (Inr (), st') \<and> get st' (row_key s r) = Inr r"
proof -
  obtain st' where st': "put r st = (Inr (), st')" "sim n st' (spec_write (row_key s r) r S)"
    using put_spec [OF assms(1,2)] by blast
  have "spec_read S (row_key s r) = None"
    using get_spec [OF assms(1,3)] assms(4) by (auto split: option.splits)
  then have "spec_read (spec_write (row_key s r) r S) (row_key s r) = Some r"
    by (auto simp: spec_read_def spec_write_def split: option.splits if_splits)
  then show ?thesis using st' get_spec [OF st'(2) assms(3)] by auto
qed

end

definition tm_sim :: "schema \<Rightarrow> nat \<Rightarrow> table_manager \<times> fs \<Rightarrow> table_spec \<Rightarrow> bool" where
  "tm_sim s n st S \<longleftrightarrow> tm_schema (fst st) = s \<and>
     (\<exists>ms. implements (fst st) (snd st) ms S \<and> length ms + n < 2 ^ 62)"

interpretation tms: table_store s "tm_sim s" TableManager_write_record
  "\<lambda>st k. TableManager_read_record junk (fst st) k (snd st)" for s junk
proof
  fix n st S k
  assume "tm_sim s n st S" "key_ok (key_type s) k"
  then show "TableManager_read_record junk (fst st) k (snd st) =
      (case spec_read S k of None \<Rightarrow> Inl non_existent_record_error | Some r \<Rightarrow> Inr r)"
    by (auto simp: tm_sim_def intro: read_record_implements)
next
  fix n st S r
  assume sim: "tm_sim s (Suc n) st S" and r: "row_ok s r"
  obtain tm f where st: "st = (tm, f)" by (cases st)
  obtain ms where ms: "tm_schema tm = s" "implements tm f ms S" "length ms + Suc n < 2 ^ 62"
    using sim by (auto simp: tm_sim_def st)
  then show "\<exists>st'. TableManager_write_record r st = (Inr (), st') \<and>
      tm_sim s n st' (spec_write (row_key s r) r S)"
    using write_record_implements [OF ms(2), of r] r by (fastforce simp: tm_sim_def st same_table_def)
qed

lemma tm_sim_new:
  assumes "schema_keyed s" "table_dir_ok base table f" "n < 2 ^ 62"
  shows "tm_sim s n (TableManager_new base table s [], f) spec_empty"
  using assms
  by (auto simp: tm_sim_def TableManager_new_def implements_def pending_list_def spec_empty_def
      intro!: exI [of _ "[]"])

section \<open>Properties\<close>

text \<open>
  Property C1. The headline of the storage engine. On a table with an ordered sort key of at most 2037
  bytes, any sequence of records the schema accepts is written without error, through memtable and flushed
  sstables, and a read of any key then gives exactly what the specification gives: the record kept for the
  key, or \<^verbatim>\<open>non_existent_record_error\<close>. Whatever uninitialised memory the read
  buffers hold plays no role.
\<close>

theorem table_manager_refines:
  assumes "schema_keyed s" "table_dir_ok base table f" "\<forall>r \<in> set rs. row_ok s r"
    "length rs < 2 ^ 62" "key_ok (key_type s) k"
  shows "\<exists>tm' f'. write_all TableManager_write_record rs (TableManager_new base table s [], f) =
      (Inr (), (tm', f')) \<and>
    TableManager_read_record junk tm' k f' =
      (case spec_read (spec_writes s rs spec_empty) k of
         None \<Rightarrow> Inl non_existent_record_error | Some r \<Rightarrow> Inr r)"
  using tms.writes_then_read [OF tm_sim_new [OF assms(1,2,4)] assms(3,5), where junk = junk] by auto

definition example_fs :: fs where
  "example_fs = \<lparr>fs_dirs = [''db'', ''db/t''], fs_files = (\<lambda>p. None), fs_bad = []\<rparr>"

lemma example_dir_ok: "table_dir_ok ''db'' ''t'' example_fs"
  by (simp add: table_dir_ok_def sstable_paths_def sstable_path_def example_fs_def)

lemma example_keyed: "schema_keyed example_schema" "key_type example_schema = \<lparr>ty_id = T_INT, ty_length = 4\<rparr>"
  by (simp_all add: schema_keyed_def key_type_def example_schema_def)

definition example_rows :: "row list" where
  "example_rows = [[Some (IntData 1), Some (ASCIIData ''ada'')], [Some (IntData 2), Some (ASCIIData ''bob'')],
     [Some (IntData 3), Some (ASCIIData ''eve'')]]"

lemma example_rows_ok: "\<forall>r \<in> set example_rows. row_ok example_schema r"
  by (simp add: example_rows_def example_schema_def row_ok_def dptr_ok_def)

theorem table_manager_refines_witness:
  "\<exists>tm' f'. write_all TableManager_write_record example_rows
      (TableManager_new ''db'' ''t'' example_schema [], example_fs) = (Inr (), (tm', f')) \<and>
    TableManager_read_record (\<lambda>_ _. 255) tm' (Some (IntData 1)) f' =
      Inr [Some (IntData 1), Some (ASCIIData ''ada'')]"
proof -
  have "spec_read (spec_writes example_schema example_rows spec_empty) (Some (IntData 1)) =
      Some [Some (IntData 1), Some (ASCIIData ''ada'')]"
    by (simp add: spec_read_def spec_writes_def spec_write_def spec_empty_def example_rows_def
        row_key_def example_schema_def)
  moreover have "key_ok (key_type example_schema) (Some (IntData 1))"
    by (simp add: example_keyed key_ok_def dptr_ok_def)
  moreover have "length example_rows < 2 ^ 62" by (simp add: example_rows_def)
  ultimately show ?thesis
    using table_manager_refines [OF example_keyed(1) example_dir_ok example_rows_ok,
        of "Some (IntData 1)" "\<lambda>_ _. 255"] by simp
qed

text \<open>
  Insert then lookup: whatever the history of the table, a record whose key is not yet in it
  is read back right after it is written.
\<close>

theorem fresh_key_read_back:
  assumes "tm_sim s (Suc n) (tm, f) S" "row_ok s r" "schema_keyed s"
    "TableManager_read_record junk tm (row_key s r) f = Inl non_existent_record_error"
  shows "\<exists>tm' f'. TableManager_write_record r (tm, f) = (Inr (), (tm', f')) \<and>
    TableManager_read_record junk tm' (row_key s r) f' = Inr r"
  using tms.fresh_write_read [OF assms(1,2) row_key_ok [OF assms(3,2)], where junk = junk] assms(4) by auto

lemma example_row_ok: "row_ok example_schema example_row"
  by (simp add: row_ok_def example_schema_def example_row_def dptr_ok_def)

theorem fresh_key_read_back_witness:
  "\<exists>tm' f'. TableManager_write_record example_row
      (TableManager_new ''db'' ''t'' example_schema [], example_fs) = (Inr (), (tm', f')) \<and>
    TableManager_read_record (\<lambda>_ _. 0) tm' (row_key example_schema example_row) f' = Inr example_row"
proof (rule fresh_key_read_back [OF _ example_row_ok example_keyed(1)])
  show "tm_sim example_schema (Suc 0) (TableManager_new ''db'' ''t'' example_schema [], example_fs) spec_empty"
    by (rule tm_sim_new) (simp_all add: example_keyed example_dir_ok)
qed (simp add: TableManager_read_record_def TableManager_new_def)

text \<open>
  The memtable keeps the first of two records with one key: on a new table a second write of
  the key just written reports success and is lost, the read still gives the first record.
\<close>

theorem second_write_lost:
  assumes "schema_keyed s" "table_dir_ok base table f" "row_ok s r" "row_ok s r'"
    "row_key s r' = row_key s r"
  shows "\<exists>tm' f'. write_all TableManager_write_record [r, r'] (TableManager_new base table s [], f) =
      (Inr (), (tm', f')) \<and> TableManager_read_record junk tm' (row_key s r) f' = Inr r"
proof -
  have "spec_read (spec_writes s [r, r'] spec_empty) (row_key s r) = Some r"
    using assms(5) by (simp add: spec_read_def spec_writes_def spec_write_def spec_empty_def)
  moreover have "tm_sim s (length [r, r']) (TableManager_new base table s [], f) spec_empty"
    by (rule tm_sim_new) (simp_all add: assms(1,2))
  ultimately show ?thesis
    using tms.writes_then_read [of s "[r, r']" _ spec_empty "row_key s r" junk]
      row_key_ok [OF assms(1,3)] assms(3,4) by auto
qed

theorem second_write_lost_witness:
  "\<exists>tm' f'. write_all TableManager_write_record
      [example_row, [Some (IntData 42), Some (ASCIIData ''bob'')]]
      (TableManager_new ''db'' ''t'' example_schema [], example_fs) = (Inr (), (tm', f')) \<and>
    TableManager_read_record (\<lambda>_ _. 0) tm' (row_key example_schema example_row) f' = Inr example_row"
  by (rule second_write_lost [OF example_keyed(1) example_dir_ok example_row_ok])
    (simp_all add: row_ok_def example_schema_def example_row_def dptr_ok_def row_key_def)

text \<open>
  Property C14. A record that does not match the schema (a wrong number of values, or a value of another
  type or length) is refused with \<^verbatim>\<open>schema_mismatch_error\<close>, and neither the memtable
  nor the disk changes.
\<close>

theorem mismatched_record_refused:
  assumes "\<And>p. p \<in> set r \<Longrightarrow> \<exists>d. p = Some d \<and> data_ok d" "\<not> row_ok (tm_schema tm) r"
  shows "TableManager_write_record r (tm, f) = (Inl schema_mismatch_error, (tm, f))"
  by (rule write_record_rejects [OF assms])

theorem mismatched_record_refused_witness:
  "TableManager_write_record [Some (IntData 1), Some (ASCIIData ''toolong'')]
     (TableManager_new ''db'' ''t'' example_schema [], example_fs) =
   (Inl schema_mismatch_error, (TableManager_new ''db'' ''t'' example_schema [], example_fs))"
  by (rule mismatched_record_refused)
    (auto simp: TableManager_new_def row_ok_def example_schema_def dptr_ok_def)

end
