(* ===== verification/Db_Database.thy ===== *)
theory Db_Database
  imports Db_Table_Manager
begin

text \<open>
  \<^verbatim>\<open>db::Database\<close>: the tables of one directory and the metadata file that describes
  them. The lemmas lift the specification of a table to the database, show that writing one table leaves
  the others alone, and follow the metadata through a shutdown and a restart.
\<close>

section \<open>The class Database\<close>

record database =
  db_base_path :: string
  db_table_managers :: "(string \<times> table_manager) list"

definition metadata_path :: "string \<Rightarrow> string" where
  "metadata_path base = base @ ''/metadata.meta''"

text \<open>
  One turn of the constructor's loop: a table, the summaries of its sstables, its manager. The summaries
  are loaded from index \<open>i\<close> on.
\<close>

fun load_summaries ::
  "(string \<Rightarrow> nat \<Rightarrow> byte) \<Rightarrow> string \<Rightarrow> string \<Rightarrow> fs \<Rightarrow> nat \<Rightarrow> nat \<Rightarrow> summary option list result" where
  "load_summaries junk base table_name f i 0 = Inr []"
| "load_summaries junk base table_name f i (Suc n) =
     bindR (load_summary junk base table_name (of_nat i) f) (\<lambda>sm.
     bindR (load_summaries junk base table_name f (Suc i) n) (\<lambda>sms. Inr (Some sm # sms)))"

definition load_table ::
  "(string \<Rightarrow> nat \<Rightarrow> byte) \<Rightarrow> string \<Rightarrow> fs \<Rightarrow> (string \<times> table_manager) list \<Rightarrow> MemoryBuffer \<Rightarrow>
     ((string \<times> table_manager) list \<times> MemoryBuffer) result" where
  "load_table junk base f managers buf =
     bindR (Table_from buf) (\<lambda>(t, buf).
     bindR (load_summaries junk base (tb_name t) f 0 (unat (tb_last_sstable_id t))) (\<lambda>summaries.
     bindR (map_insert string_less (tb_name t)
              (TableManager_new base (tb_name t) (tb_schema t) summaries) managers) (\<lambda>managers.
       Inr (managers, buf))))"

partial_function (option) load_tables ::
  "(string \<Rightarrow> nat \<Rightarrow> byte) \<Rightarrow> string \<Rightarrow> fs \<Rightarrow> u32 \<Rightarrow> (string \<times> table_manager) list \<Rightarrow> MemoryBuffer \<Rightarrow>
     (string \<times> table_manager) list result option" where
  "load_tables junk base f len managers buf =
     (if \<not> unat (mb_offset buf) < unat len then Some (Inr managers)
      else case load_table junk base f managers buf of
        Inl e \<Rightarrow> Some (Inl e)
      | Inr (managers, buf) \<Rightarrow> load_tables junk base f len managers buf)"

text \<open>
  The constructor. \<open>None\<close> is a constructor that does not return. (A null
  \<^verbatim>\<open>DIR\<close> pointer is refused by the C library's \<^verbatim>\<open>closedir\<close>.)
\<close>

definition Database_new ::
  "(string \<Rightarrow> nat \<Rightarrow> byte) \<Rightarrow> string \<Rightarrow> fs \<Rightarrow> (database result \<times> fs) option" where
  "Database_new junk base_path f =
     (let f = (if base_path \<in> set (fs_dirs f) then f else snd (sys_mkdir base_path f));
          p = metadata_path base_path;
          (d, f) = open_create p f;
          head = sys_read d 4 f
      in case head of
           None \<Rightarrow> Some (Inr \<lparr>db_base_path = base_path, db_table_managers = []\<rparr>, f)
         | Some bs \<Rightarrow>
             let len = from_le bs :: u32
             in if length bs \<noteq> 4 \<or> len = 0
                then Some (Inr \<lparr>db_base_path = base_path, db_table_managers = []\<rparr>, f)
                else let buf = read_into (junk p) (Some (p, 4)) (unat len) f
                     in case load_tables junk base_path f len [] (MemoryBuffer_of buf (ucast len)) of
                          None \<Rightarrow> None
                        | Some (Inl e) \<Rightarrow> Some (Inl e, f)
                        | Some (Inr managers) \<Rightarrow>
                            Some (Inr \<lparr>db_base_path = base_path, db_table_managers = managers\<rparr>, f))"

definition create_table :: "string \<Rightarrow> schema \<Rightarrow> database \<Rightarrow> (fs, database) cmd" where
  "create_table table_name s db f =
     (let f = snd (sys_mkdir (db_base_path db @ ''/'' @ table_name) f)
      in bindC (liftC (map_insert string_less table_name
                  (TableManager_new (db_base_path db) table_name s []) (db_table_managers db))) (\<lambda>managers.
         liftC (Inr (db\<lparr>db_table_managers := managers\<rparr>))) f)"

definition Database_read_record ::
  "(string \<Rightarrow> nat \<Rightarrow> byte) \<Rightarrow> database \<Rightarrow> string \<Rightarrow> dptr \<Rightarrow> fs \<Rightarrow> row result" where
  "Database_read_record junk db table_name k f =
     bindR (map_find string_less table_name (db_table_managers db)) (\<lambda>found. case found of
       None \<Rightarrow> Inl uncomparable_type_error
     | Some tm \<Rightarrow> TableManager_read_record junk tm k f)"

text \<open>A write runs on the manager in the map; a table that does not exist is passed over in silence.\<close>

definition Database_write_record :: "string \<Rightarrow> row \<Rightarrow> (database \<times> fs, unit) cmd" where
  "Database_write_record table_name r = (\<lambda>(db, f).
     case map_find string_less table_name (db_table_managers db) of
       Inl e \<Rightarrow> (Inl e, (db, f))
     | Inr None \<Rightarrow> (Inr (), (db, f))
     | Inr (Some tm) \<Rightarrow>
         (case TableManager_write_record r (tm, f) of
            (res, (tm, f)) \<Rightarrow>
              (res, (db\<lparr>db_table_managers := map (\<lambda>(n, tm'). if n = table_name then (n, tm) else (n, tm'))
                         (db_table_managers db)\<rparr>, f))))"

definition read_schema :: "string \<Rightarrow> database \<Rightarrow> schema result" where
  "read_schema table_name db =
     bindR (map_find string_less table_name (db_table_managers db)) (\<lambda>found.
     bindR (deref found) (\<lambda>tm. Inr (tm_schema tm)))"

definition table_of :: "string \<times> table_manager \<Rightarrow> table" where
  "table_of e = \<lparr>tb_name = fst e, tb_schema = tm_schema (snd e),
     tb_last_sstable_id = tm_current_sstable_id (snd e)\<rparr>"

text \<open>
  \<^verbatim>\<open>flush_metadata\<close>: the buffer has \<open>len + 4\<close> bytes, of which \<open>len\<close> are written.
\<close>

definition flush_metadata :: "database \<Rightarrow> (fs, unit) cmd" where
  "flush_metadata db =
     (let tables = map table_of (db_table_managers db);
          len = sum_list (map Table_size tables)
      in bindC (liftC (put_uint32 (ucast len) (MemoryBuffer_new (len + 4)))) (\<lambda>buf.
         bindC (liftC (put_all Table_bytes tables buf)) (\<lambda>buf f.
           let d = open_existing (metadata_path (db_base_path db)) f
           in (Inr (), snd (snd (sys_write d (take (unat len) (MemoryBuffer_bytes buf)) f))))))"

section \<open>The specification of a database\<close>

datatype db_op = Create string schema | Write string row

type_synonym db_spec = "string \<Rightarrow> (schema \<times> table_spec) option"

fun spec_op :: "db_op \<Rightarrow> db_spec \<Rightarrow> db_spec" where
  "spec_op (Create t s) D = (if D t = None then D(t \<mapsto> (s, spec_empty)) else D)"
| "spec_op (Write t r) D = (case D t of
     None \<Rightarrow> D
   | Some (s, S) \<Rightarrow> if row_ok s r then D(t \<mapsto> (s, spec_write (row_key s r) r S)) else D)"

text \<open>A client that goes on after an exception: the state after each call.\<close>

fun run_db :: "db_op \<Rightarrow> database \<times> fs \<Rightarrow> database \<times> fs" where
  "run_db (Create t s) (db, f) =
     (case create_table t s db f of (Inl e, f) \<Rightarrow> (db, f) | (Inr db, f) \<Rightarrow> (db, f))"
| "run_db (Write t r) st = snd (Database_write_record t r st)"

text \<open>
  The calls the theorems cover: table names that are names of directories of their own, schemas with a
  usable sort key, records without null pointers.
\<close>

fun db_op_ok :: "db_op \<Rightarrow> bool" where
  "db_op_ok (Create t s) = (CHR ''/'' \<notin> set t \<and> t \<noteq> ''metadata.meta'' \<and> schema_keyed s)"
| "db_op_ok (Write t r) = (\<forall>p \<in> set r. case p of None \<Rightarrow> False | Some d \<Rightarrow> data_ok d)"

section \<open>Paths of different tables\<close>

lemma sstable_paths_parent: "p \<in> sstable_paths base t i \<Longrightarrow> parent_dir p = base @ ''/'' @ t"
  by (auto simp: sstable_paths_def parent_sstable_path)

lemma table_files_parent:
  "p \<in> table_files tm \<Longrightarrow> parent_dir p = tm_base_path tm @ ''/'' @ tm_table_name tm"
  by (auto simp: table_files_def sstable_paths_parent)

lemma table_files_disjoint:
  assumes "tm_base_path tm = tm_base_path tm'" "tm_table_name tm \<noteq> tm_table_name tm'"
  shows "table_files tm \<inter> table_files tm' = {}"
  using assms by (auto dest!: table_files_parent)

text \<open>A directory in which a database can live.\<close>

definition db_fs_ok :: "string \<Rightarrow> fs \<Rightarrow> bool" where
  "db_fs_ok base f \<longleftrightarrow> base \<in> set (fs_dirs f) \<and> fs_bad f = [] \<and>
     (\<forall>t i. \<forall>p \<in> sstable_paths base t i. p \<notin> set (fs_dirs f)) \<and>
     (\<forall>t. CHR ''/'' \<notin> set t \<longrightarrow> t \<noteq> ''metadata.meta'' \<longrightarrow> fs_files f (base @ ''/'' @ t) = None)"

lemma db_fs_ok_dir: "db_fs_ok base f \<Longrightarrow> base @ ''/'' @ t \<in> set (fs_dirs f) \<Longrightarrow> table_dir_ok base t f"
  by (simp add: db_fs_ok_def table_dir_ok_def)

lemma base_not_sstable:
  assumes "CHR ''/'' \<notin> set t'"
  shows "base @ ''/'' @ t' \<notin> sstable_paths base t i"
proof
  assume "base @ ''/'' @ t' \<in> sstable_paths base t i"
  then have "parent_dir (base @ ''/'' @ t') = base @ ''/'' @ t" by (rule sstable_paths_parent)
  then show False using parent_dir_append [OF assms, of base] by simp
qed

lemma db_fs_ok_touched:
  assumes "db_fs_ok (tm_base_path tm) f" "touched (table_files tm) f f'"
  shows "db_fs_ok (tm_base_path tm) f'"
  using assms base_not_sstable [of _ "tm_base_path tm"]
  by (auto simp: db_fs_ok_def touched_def table_files_def)

text \<open>Creating a table's directory.\<close>

lemma mkdir_table:
  assumes "db_fs_ok base f" "CHR ''/'' \<notin> set t" "t \<noteq> ''metadata.meta''"
  shows "\<exists>f'. snd (sys_mkdir (base @ ''/'' @ t) f) = f' \<and> db_fs_ok base f' \<and>
    base @ ''/'' @ t \<in> set (fs_dirs f') \<and> fs_files f' = fs_files f \<and> fs_bad f' = fs_bad f \<and>
    set (fs_dirs f) \<subseteq> set (fs_dirs f')"
  using assms base_not_sstable [OF assms(2), of base] parent_dir_append [OF assms(2), of base]
  by (auto simp: sys_mkdir_def db_fs_ok_def)

section \<open>The simulation relation\<close>

definition manager_sim :: "nat \<Rightarrow> string \<Rightarrow> fs \<Rightarrow> db_spec \<Rightarrow> string \<times> table_manager \<Rightarrow> bool" where
  "manager_sim n base f D e \<longleftrightarrow> tm_base_path (snd e) = base \<and> tm_table_name (snd e) = fst e \<and>
     (\<exists>S. D (fst e) = Some (tm_schema (snd e), S) \<and> tm_sim (tm_schema (snd e)) n (snd e, f) S)"

definition db_sim :: "nat \<Rightarrow> database \<Rightarrow> fs \<Rightarrow> db_spec \<Rightarrow> bool" where
  "db_sim n db f D \<longleftrightarrow> db_fs_ok (db_base_path db) f \<and> smap.map_ok (db_table_managers db) \<and>
     dom D = fst ` set (db_table_managers db) \<and>
     (\<forall>e \<in> set (db_table_managers db). manager_sim n (db_base_path db) f D e)"

lemma tm_sim_mono: "tm_sim s n st S \<Longrightarrow> m \<le> n \<Longrightarrow> tm_sim s m st S"
  by (auto simp: tm_sim_def intro: le_less_trans)

lemma tm_sim_frame:
  "tm_sim s n (tm, f) S \<Longrightarrow> touched P f f' \<Longrightarrow> P \<inter> table_files tm = {} \<Longrightarrow> tm_sim s n (tm, f') S"
  by (auto simp: tm_sim_def intro: implements_frame)

lemma db_lookup:
  assumes "db_sim n db f D"
  shows "map_find string_less t (db_table_managers db) = Inr (map_of (db_table_managers db) t)"
  using assms smap.find_eq [of "db_table_managers db" t] by (simp add: db_sim_def)

lemma db_lookup_some:
  assumes "db_sim n db f D" "D t = Some (s, S)"
  obtains tm where "map_of (db_table_managers db) t = Some tm" "(t, tm) \<in> set (db_table_managers db)"
    "tm_base_path tm = db_base_path db" "tm_table_name tm = t" "tm_schema tm = s" "tm_sim s n (tm, f) S"
proof -
  have "t \<in> fst ` set (db_table_managers db)" using assms by (auto simp: db_sim_def)
  then obtain tm where tm: "map_of (db_table_managers db) t = Some tm"
    by (metis map_of_eq_None_iff not_Some_eq)
  then have "(t, tm) \<in> set (db_table_managers db)" by (rule map_of_SomeD)
  then show thesis
    using that [of tm] tm assms by (auto simp: db_sim_def manager_sim_def)
qed

lemma db_lookup_none:
  assumes "db_sim n db f D" "D t = None"
  shows "map_of (db_table_managers db) t = None"
proof -
  have "t \<notin> fst ` set (db_table_managers db)" using assms by (auto simp: db_sim_def)
  then show ?thesis by (simp add: map_of_eq_None_iff)
qed

lemma db_read_sim:
  assumes "db_sim n db f D" "D t = Some (s, S)" "key_ok (key_type s) k"
  shows "Database_read_record junk db t k f =
    (case spec_read S k of None \<Rightarrow> Inl non_existent_record_error | Some r \<Rightarrow> Inr r)"
proof -
  obtain tm where tm: "map_of (db_table_managers db) t = Some tm" "tm_sim s n (tm, f) S"
    using db_lookup_some [OF assms(1,2)] by blast
  then show ?thesis
    using tms.get_spec [OF tm(2) assms(3), of junk] db_lookup [OF assms(1)]
    by (simp add: Database_read_record_def)
qed

lemma manager_sim_other:
  assumes sim: "manager_sim (Suc n) base f D (name, tm')" and tm: "tm_base_path tm = base" "tm_table_name tm \<noteq> name"
    and t: "touched (table_files tm) f f'"
  shows "manager_sim n base f' (D(tm_table_name tm \<mapsto> x)) (name, tm')"
proof -
  obtain S where S: "D name = Some (tm_schema tm', S)" "tm_sim (tm_schema tm') (Suc n) (tm', f) S"
      "tm_base_path tm' = base" "tm_table_name tm' = name"
    using sim by (auto simp: manager_sim_def)
  have "table_files tm \<inter> table_files tm' = {}" using S tm by (intro table_files_disjoint) auto
  then have "tm_sim (tm_schema tm') n (tm', f') S"
    using tm_sim_frame [OF tm_sim_mono [OF S(2), of n] t] by simp
  then show ?thesis using S tm by (simp add: manager_sim_def)
qed

lemma db_write_sim:
  assumes sim: "db_sim (Suc n) db f D" and D: "D t = Some (s, S)" and r: "row_ok s r"
  shows "\<exists>db' f'. Database_write_record t r (db, f) = (Inr (), (db', f')) \<and>
    db_sim n db' f' (D(t \<mapsto> (s, spec_write (row_key s r) r S)))"
proof -
  obtain tm where tm: "map_of (db_table_managers db) t = Some tm" "tm_base_path tm = db_base_path db"
      "tm_table_name tm = t" "tm_schema tm = s" "tm_sim s (Suc n) (tm, f) S"
    using db_lookup_some [OF sim D] by blast
  obtain ms where ms: "implements tm f ms S" "length ms + Suc n < 2 ^ 62"
    using tm(5) by (auto simp: tm_sim_def)
  let ?S = "spec_write (row_key s r) r S"
  obtain tm' f' ms' where w: "TableManager_write_record r (tm, f) = (Inr (), (tm', f'))"
      "same_table tm tm'" "touched (table_files tm) f f'" "length ms' \<le> length ms + 1"
      "implements tm' f' ms' ?S"
    using write_record_implements [OF ms(1), of r] ms(2) r tm(4) by auto
  let ?upd = "\<lambda>(k, tm1). if k = t then (k, tm') else (k, tm1)"
  let ?db = "db\<lparr>db_table_managers := map ?upd (db_table_managers db)\<rparr>"
  have fst_upd: "map fst (map ?upd (db_table_managers db)) = map fst (db_table_managers db)"
    by (induction "db_table_managers db" rule: list.induct) auto
  have own: "tm_sim s n (tm', f') ?S"
    using w(2,4,5) ms(2) tm(4) by (auto simp: tm_sim_def same_table_def)
  have "manager_sim n (db_base_path db) f' (D(t \<mapsto> (s, ?S))) (?upd e)"
    if "e \<in> set (db_table_managers db)" for e
  proof (cases "fst e = t")
    case True
    then show ?thesis using own w(2) tm by (auto simp: manager_sim_def same_table_def split: prod.splits)
  next
    case False
    have "manager_sim (Suc n) (db_base_path db) f D (fst e, snd e)" using sim that by (simp add: db_sim_def)
    then show ?thesis
      using False manager_sim_other [of n "db_base_path db" f D "fst e" "snd e" tm f'] tm w(3)
      by (auto split: prod.splits)
  qed
  moreover have "smap.map_ok (map ?upd (db_table_managers db))"
    using sim unfolding db_sim_def smap.map_ok_def fst_upd by simp
  moreover have "fst ` set (map ?upd (db_table_managers db)) = fst ` set (db_table_managers db)"
    using arg_cong [OF fst_upd, of set] by (simp only: list.set_map)
  moreover have "db_fs_ok (db_base_path db) f'"
    using sim w(3) tm(2) db_fs_ok_touched [of tm f f'] by (simp add: db_sim_def)
  ultimately have "db_sim n ?db f' (D(t \<mapsto> (s, ?S)))"
    using sim D by (auto simp: db_sim_def)
  moreover have "Database_write_record t r (db, f) = (Inr (), (?db, f'))"
    using db_lookup [OF sim] tm(1) w(1) by (simp add: Database_write_record_def)
  ultimately show ?thesis by blast
qed

text \<open>More directories, the files unchanged: the tables stay as they are.\<close>

lemma manager_sim_dirs:
  assumes "manager_sim n base f D (name, tm)" "m \<le> n" "D' name = D name" "db_fs_ok base f'"
    "fs_files f' = fs_files f" "fs_bad f' = fs_bad f" "set (fs_dirs f) \<subseteq> set (fs_dirs f')"
  shows "manager_sim m base f' D' (name, tm)"
proof -
  have "holds_sstable b t s ty i m f' = holds_sstable b t s ty i m f" for b t s ty i m
    using assms(5,6) by (simp add: holds_sstable_def file_starts_def)
  moreover have "table_dir_ok base name f'" if "table_dir_ok base name f"
    using that assms(4,7) by (intro db_fs_ok_dir) (auto simp: table_dir_ok_def)
  ultimately have "implements tm f' ms S" if "implements tm f ms S" "tm_base_path tm = base" "tm_table_name tm = name"
    for ms S
    using that by (simp add: implements_def)
  then have "tm_sim s m (tm, f') S" if "tm_sim s n (tm, f) S" "tm_base_path tm = base" "tm_table_name tm = name" for s S
    using that assms(2) by (fastforce simp: tm_sim_def)
  then show ?thesis using assms(1,3) by (auto simp: manager_sim_def)
qed

lemma create_table_sim:
  assumes sim: "db_sim (Suc n) db f D" and t: "CHR ''/'' \<notin> set t" "t \<noteq> ''metadata.meta''"
    and s: "schema_keyed s" "Suc n < 2 ^ 62"
  shows "\<exists>db' f'. create_table t s db f = (Inr db', f') \<and> db_sim n db' f' (spec_op (Create t s) D)"
proof -
  let ?base = "db_base_path db"
  let ?tm = "TableManager_new ?base t s []"
  obtain f' where f': "snd (sys_mkdir (?base @ ''/'' @ t) f) = f'" "db_fs_ok ?base f'"
      "?base @ ''/'' @ t \<in> set (fs_dirs f')" "fs_files f' = fs_files f" "fs_bad f' = fs_bad f"
      "set (fs_dirs f) \<subseteq> set (fs_dirs f')"
    using mkdir_table [of ?base f t] sim t by (auto simp: db_sim_def)
  have ok: "smap.map_ok (db_table_managers db)" using sim by (simp add: db_sim_def)
  obtain m where m: "map_insert string_less t ?tm (db_table_managers db) = Inr m" "smap.map_ok m"
      "fst ` set m = insert t (fst ` set (db_table_managers db))"
      "map_of m = (map_of (db_table_managers db))(t :=
         Some (case map_of (db_table_managers db) t of None \<Rightarrow> ?tm | Some tm \<Rightarrow> tm))"
    using smap.insert_eq [OF ok, of t ?tm] by blast
  have dist: "distinct (map fst m)"
    using m(2) unfolding smap.map_ok_def by (simp add: strict_sorted_iff)
  have new: "manager_sim n ?base f' D' (t, ?tm)" if "D' t = Some (s, spec_empty)" for D'
    using that tm_sim_new [OF s(1) db_fs_ok_dir [OF f'(2,3)], of n] s(2)
    by (simp add: manager_sim_def) (simp add: TableManager_new_def)
  have "manager_sim n ?base f' (spec_op (Create t s) D) (k, tm)" if "(k, tm) \<in> set m" for k tm
  proof (cases "map_of (db_table_managers db) k = Some tm")
    case True
    then have mem: "(k, tm) \<in> set (db_table_managers db)" by (rule map_of_SomeD)
    then have old: "manager_sim (Suc n) ?base f D (k, tm)" using sim by (simp add: db_sim_def)
    then have same: "spec_op (Create t s) D k = D k" by (auto simp: manager_sim_def)
    show ?thesis by (rule manager_sim_dirs [OF old]) (simp, rule same, (rule f')+)
  next
    case False
    have "map_of m k = Some tm" using that dist by simp
    then have k: "k = t" "tm = ?tm" "map_of (db_table_managers db) t = None"
      using False m(4) by (auto split: if_splits option.splits)
    then have "t \<notin> dom D" using sim by (simp add: db_sim_def map_of_eq_None_iff)
    then have "D t = None" by (simp only: domIff not_not)
    then show ?thesis using new k by simp
  qed
  moreover have "dom (spec_op (Create t s) D) = fst ` set m" using sim m(3) by (auto simp: db_sim_def)
  ultimately have "db_sim n (db\<lparr>db_table_managers := m\<rparr>) f' (spec_op (Create t s) D)"
    using f'(2) m(2) by (simp add: db_sim_def Ball_def split_paired_All del: spec_op.simps)
  moreover have "create_table t s db f = (Inr (db\<lparr>db_table_managers := m\<rparr>), f')"
    using m(1) f'(1) by (simp add: create_table_def)
  ultimately show ?thesis by blast
qed

lemma db_sim_mono: "db_sim n db f D \<Longrightarrow> m \<le> n \<Longrightarrow> db_sim m db f D"
  by (fastforce simp: db_sim_def manager_sim_def intro: tm_sim_mono)

lemma run_db_sim:
  assumes sim: "db_sim (Suc n) db f D" and ok: "db_op_ok p" and n: "Suc n < 2 ^ 62"
  shows "\<exists>db' f'. run_db p (db, f) = (db', f') \<and> db_sim n db' f' (spec_op p D)"
proof (cases p)
  case (Create t s)
  then show ?thesis
    using create_table_sim [OF sim, of t s] ok n by (fastforce simp del: spec_op.simps)
next
  case (Write t r)
  show ?thesis
  proof (cases "D t")
    case None
    then have "run_db p (db, f) = (db, f)"
      using db_lookup [OF sim] db_lookup_none [OF sim None] by (simp add: Write Database_write_record_def)
    then show ?thesis using None db_sim_mono [OF sim] by (simp add: Write)
  next
    case (Some sS)
    obtain s S where sS: "sS = (s, S)" by (cases sS)
    show ?thesis
    proof (cases "row_ok s r")
      case True
      then show ?thesis using db_write_sim [OF sim, of t s S r] Some by (fastforce simp: Write sS)
    next
      case False
      obtain tm where tm: "map_of (db_table_managers db) t = Some tm" "tm_schema tm = s"
          "(t, tm) \<in> set (db_table_managers db)"
        using db_lookup_some [OF sim, of t s S] Some by (auto simp: sS)
      have "\<exists>d. p = Some d \<and> data_ok d" if "p \<in> set r" for p
        using that ok by (auto simp: Write split: option.splits)
      then have "TableManager_write_record r (tm, f) = (Inl schema_mismatch_error, (tm, f))"
        using False tm(2) write_record_rejects [of r tm f] by blast
      moreover have "distinct (map fst (db_table_managers db))"
        using sim unfolding db_sim_def smap.map_ok_def by (simp add: strict_sorted_iff)
      then have "map (\<lambda>(k, tm'). if k = t then (k, tm) else (k, tm')) (db_table_managers db) =
          db_table_managers db"
        using tm(1) by (rule alist_update_same)
      ultimately have "run_db p (db, f) = (db, f)"
        using db_lookup [OF sim] tm by (simp add: Write Database_write_record_def)
      then show ?thesis using False Some db_sim_mono [OF sim] by (simp add: Write sS)
    qed
  qed
qed

lemma run_dbs_sim:
  assumes "db_sim (n + length ps) db f D" "\<forall>p \<in> set ps. db_op_ok p" "n + length ps < 2 ^ 62"
  shows "\<exists>db' f'. fold run_db ps (db, f) = (db', f') \<and> db_sim n db' f' (fold spec_op ps D)"
  using assms
proof (induction ps arbitrary: db f D)
  case Nil
  then show ?case by simp
next
  case (Cons p ps)
  obtain db1 f1 where "run_db p (db, f) = (db1, f1)" "db_sim (n + length ps) db1 f1 (spec_op p D)"
    using run_db_sim [of "n + length ps" db f D p] Cons.prems by auto
  then show ?case using Cons.IH [of db1 f1 "spec_op p D"] Cons.prems by simp
qed

section \<open>Opening a new database\<close>

lemma metadata_name: "metadata_path base = base @ ''/'' @ ''metadata.meta''"
  by (simp add: metadata_path_def)

lemma metadata_parent: "parent_dir (metadata_path base) = base"
  unfolding metadata_name by (rule parent_dir_append) simp

lemma metadata_not_sstable: "metadata_path base \<notin> sstable_paths base t i"
  unfolding metadata_name by (rule base_not_sstable) simp

lemma Database_new_fresh:
  assumes "db_fs_ok base f" "metadata_path base \<notin> set (fs_dirs f)" "fs_files f (metadata_path base) = None"
  shows "\<exists>f'. Database_new junk base f = Some (Inr \<lparr>db_base_path = base, db_table_managers = []\<rparr>, f') \<and>
    db_sim n \<lparr>db_base_path = base, db_table_managers = []\<rparr> f' Map.empty \<and>
    fs_files f' (metadata_path base) = Some []"
proof -
  let ?f = "f\<lparr>fs_files := (fs_files f)(metadata_path base \<mapsto> [])\<rparr>"
  have base: "base \<in> set (fs_dirs f)" "fs_bad f = []" using assms(1) by (simp_all add: db_fs_ok_def)
  have "open_create (metadata_path base) f = (Some (metadata_path base, 0), ?f)"
    using assms base metadata_parent by (simp add: open_create_def)
  then have "Database_new junk base f = Some (Inr \<lparr>db_base_path = base, db_table_managers = []\<rparr>, ?f)"
    using base by (simp add: Database_new_def sys_read_def)
  moreover have "db_fs_ok base ?f"
    using assms(1) by (auto simp: db_fs_ok_def metadata_path_def)
  then have "db_sim n \<lparr>db_base_path = base, db_table_managers = []\<rparr> ?f Map.empty"
    by (simp add: db_sim_def smap.map_ok_def)
  ultimately show ?thesis by auto
qed

section \<open>Shutdown and restart\<close>

definition tables_enc :: "table list \<Rightarrow> byte list" where
  "tables_enc ts = concat (map Table_enc ts)"

definition metadata_tables :: "database \<Rightarrow> table list" where
  "metadata_tables db = map table_of (db_table_managers db)"

lemma tables_size: "sum_list (map Table_size ts) = of_nat (length (tables_enc ts))"
  by (induction ts) (simp_all add: tables_enc_def Table_size_eq)

lemma flush_metadata_eq:
  assumes ok: "\<forall>t \<in> set (metadata_tables db). table_ok t"
    and len: "length (tables_enc (metadata_tables db)) < 2 ^ 30"
    and meta: "fs_files f (metadata_path (db_base_path db)) = Some c" "fs_bad f = []"
  shows "flush_metadata db f = (Inr (), f\<lparr>fs_files := (fs_files f)(metadata_path (db_base_path db) \<mapsto>
    overwrite 0 (take (length (tables_enc (metadata_tables db)))
      (to_le 4 (of_nat (length (tables_enc (metadata_tables db))) :: u32) @ tables_enc (metadata_tables db))) c)\<rparr>)"
proof -
  let ?ts = "metadata_tables db"
  let ?n = "length (tables_enc ?ts)"
  let ?len = "of_nat ?n :: u64"
  let ?bs = "to_le 4 (of_nat ?n :: u32) @ tables_enc ?ts"
  let ?b0 = "MemoryBuffer_new (?len + 4)"
  have un: "unat ?len = ?n" "unat (?len + 4) = ?n + 4"
    using len by (simp_all add: unat_of_nat take_bit_nat_eq_self unat_word_ariths)
  have lo: "(ucast ?len :: u32) = of_nat ?n" using len by (simp add: unsigned_of_nat take_bit_nat_eq_self)
  have "writes ?bs (\<lambda>b. bindR (put_uint32 (of_nat ?n) b) (put_all Table_bytes ?ts))"
    unfolding tables_enc_def
    by (intro writes_bind codec_intros writes_put_all) (use ok in \<open>simp add: tablec.put_writes\<close>)
  moreover have "buf_ok ?b0" "room (length ?bs) ?b0"
    using un len by (simp add: buf_ok_new, simp add: room_def MemoryBuffer_new_def)
  ultimately have w: "bindR (put_uint32 (of_nat ?n) ?b0) (put_all Table_bytes ?ts) = Inr (emit ?bs ?b0)"
    using writesD [of ?bs _ ?b0] by simp
  then obtain b1 where b1: "put_uint32 (of_nat ?n) ?b0 = Inr b1" "put_all Table_bytes ?ts b1 = Inr (emit ?bs ?b0)"
    by (auto simp: bindR_eq_Inr)
  have "MemoryBuffer_bytes (emit ?bs ?b0) = ?bs"
    using un len sint_ucast_small [of "?len + 4"]
    by (simp add: MemoryBuffer_bytes_def MemoryBuffer_new_def emit_def Let_def)
  then show ?thesis
    using b1 un(1) lo meta len tables_size [of ?ts]
    by (simp add: flush_metadata_def Let_def open_existing_def sys_write_def max_transfer_def
        flip: metadata_tables_def)
qed

text \<open>What a restart finds of a manager: the sstables, with an empty memtable.\<close>

definition reopened :: "string \<times> table_manager \<Rightarrow> string \<times> table_manager" where
  "reopened e = (fst e, (snd e)\<lparr>tm_memtable := []\<rparr>)"

definition flushed :: "table_spec \<Rightarrow> table_spec" where
  "flushed S = S\<lparr>sp_pending := None\<rparr>"

lemma load_summaries_eq:
  assumes impl: "implements tm f ms S" and n: "i + n = length ms"
  shows "load_summaries junk (tm_base_path tm) (tm_table_name tm) f i n =
    Inr (map (\<lambda>m. Some (sstable_summary (key_type (tm_schema tm)) m)) (drop i ms))"
  using n
proof (induction n arbitrary: i)
  case 0
  then show ?case by simp
next
  case (Suc n)
  let ?s = "tm_schema tm"
  let ?sm = "sstable_summary (key_type ?s) (ms ! i)"
  have m: "memtable_ok ?s (key_type ?s) (ms ! i)"
      "holds_sstable (tm_base_path tm) (tm_table_name tm) ?s (key_type ?s) (of_nat i) (ms ! i) f"
    using impl Suc.prems by (simp_all add: implements_def)
  have "load_summary junk (tm_base_path tm) (tm_table_name tm) (of_nat i) f = Inr ?sm"
    by (rule load_summary_eq [where zs = "replicate (4096 - length (Summary_enc ?sm)) 0"])
      (use m(2) sstable_summary_ok [OF m(1)] in \<open>simp_all add: holds_sstable_def in_page_def\<close>)
  moreover have "drop i ms = ms ! i # drop (Suc i) ms"
    using Suc.prems by (simp add: Cons_nth_drop_Suc)
  ultimately show ?case using Suc.IH [of "Suc i"] Suc.prems by simp
qed

lemma reopened_manager:
  assumes "implements tm f ms S"
  shows "TableManager_new (tm_base_path tm) (tm_table_name tm) (tm_schema tm)
    (map (\<lambda>m. Some (sstable_summary (key_type (tm_schema tm)) m)) ms) = tm\<lparr>tm_memtable := []\<rparr>"
  using assms by (simp add: TableManager_new_def implements_def)

lemma implements_flushed:
  "implements tm f ms S \<Longrightarrow> implements (tm\<lparr>tm_memtable := []\<rparr>) f ms (flushed S)"
  by (simp add: implements_def flushed_def pending_list_def)

lemma load_table_eq:
  assumes e: "tm_table_name (snd e) = fst e" "tm_base_path (snd e) = base" "implements (snd e) f ms S"
      "table_ok (table_of e)"
    and m: "smap.map_ok (acc @ [reopened e])"
    and buf: "buf_ok buf" "rest buf = Table_enc (table_of e) @ zs"
  shows "load_table junk base f acc buf =
    Inr (acc @ [reopened e], skip (length (Table_enc (table_of e))) buf)"
proof -
  have "unat (tm_current_sstable_id (snd e)) = length ms"
    using e(3) by (simp add: implements_def unat_of_nat take_bit_nat_eq_self)
  then have "load_summaries junk base (fst e) f 0 (unat (tm_current_sstable_id (snd e))) =
      Inr (map (\<lambda>m. Some (sstable_summary (key_type (tm_schema (snd e))) m)) ms)"
    using load_summaries_eq [OF e(3), of 0 "length ms" junk] e(1,2) by simp
  moreover have "map_insert string_less (fst e) ((snd e)\<lparr>tm_memtable := []\<rparr>) acc = Inr (acc @ [reopened e])"
    using m smap.insert_last [of acc "fst e"]
    by (auto simp: smap.map_ok_append smap.map_ok_Cons reopened_def)
  ultimately show ?thesis
    using tablec.get_prefix [OF e(4) buf] reopened_manager [OF e(3)] e(1,2)
    by (simp add: load_table_def table_of_def)
qed

lemma load_tables_eq:
  assumes "\<forall>e \<in> set es. tm_table_name (snd e) = fst e \<and> tm_base_path (snd e) = base \<and>
      (\<exists>ms S. implements (snd e) f ms S) \<and> table_ok (table_of e)"
    and "smap.map_ok (acc @ map reopened es)"
    and "buf_ok buf" "rest buf = tables_enc (map table_of es)" "mb_size buf = ucast len"
  shows "load_tables junk base f len acc buf = Some (Inr (acc @ map reopened es))"
  using assms
proof (induction es arbitrary: acc buf)
  case Nil
  then have "\<not> unat (mb_offset buf) < unat (ucast len :: u64)"
    by (auto simp: rest_def tables_enc_def buf_ok_def)
  then show ?case by (subst load_tables.simps) (simp add: unsigned_ucast_eq take_bit_nat_eq_self less_le_trans [OF unsigned_less])
next
  case (Cons e es)
  let ?n = "length (Table_enc (table_of e))"
  obtain ms S where e: "tm_table_name (snd e) = fst e" "tm_base_path (snd e) = base"
      "implements (snd e) f ms S" "table_ok (table_of e)"
    using Cons.prems(1) by auto
  have rest: "rest buf = Table_enc (table_of e) @ tables_enc (map table_of es)"
    using Cons.prems(4) by (simp add: tables_enc_def)
  have room: "room ?n buf"
    using Cons.prems(3) rest room_rest [of buf ?n] by (simp add: buf_ok_def)
  have "0 < length (rest buf)" using rest by (simp add: Table_enc_def)
  then have going: "unat (mb_offset buf) < unat len"
    using Cons.prems(3,5) by (simp add: rest_def buf_ok_def unsigned_ucast_eq take_bit_nat_eq_self
        less_le_trans [OF unsigned_less])
  have step: "load_table junk base f acc buf = Inr (acc @ [reopened e], skip ?n buf)"
    using load_table_eq [OF e _ Cons.prems(3) rest] Cons.prems(2)
    by (simp add: smap.map_ok_append smap.map_ok_Cons reopened_def)
  have "load_tables junk base f len (acc @ [reopened e]) (skip ?n buf) =
      Some (Inr ((acc @ [reopened e]) @ map reopened es))"
    using Cons.prems(1,2,5) rest rest_skip [OF Cons.prems(3) room]
    by (intro Cons.IH) (simp_all add: buf_ok_skip [OF Cons.prems(3) room])
  then show ?case using going step by (subst load_tables.simps) simp
qed

text \<open>
  The last four bytes of the image are the high half of the last table's
  \<^verbatim>\<open>last_sstable_id\<close>, which is zero for an identifier below \<open>2 ^ 32\<close>.
\<close>

lemma to_le_high_zero:
  assumes "unat w < 2 ^ 32"
  shows "to_le 8 (w :: u64) = take 4 (to_le 8 w) @ replicate 4 0"
proof -
  have zero: "ucast (drop_bit (8 * i) w) = (0 :: byte)" if "4 \<le> i" for i
  proof -
    have "unat w < 2 ^ (8 * i)" using assms that power_increasing [of 32 "8 * i" "2 :: nat"] by simp
    then have "unat (drop_bit (8 * i) w) = 0" unfolding unat_drop_bit_eq by (simp add: drop_bit_eq_div)
    then show ?thesis by (simp add: unat_eq_zero)
  qed
  show ?thesis
    using zero [of 4] zero [of 5] zero [of 6] zero [of 7]
    by (simp add: to_le_def upt_conv_Cons numeral_eq_Suc)
qed

lemma tables_enc_tail:
  assumes "ts \<noteq> []" "unat (tb_last_sstable_id (last ts)) < 2 ^ 32"
  shows "tables_enc ts = take (length (tables_enc ts) - 4) (tables_enc ts) @ replicate 4 0"
proof -
  obtain xs t where ts: "ts = xs @ [t]" using assms(1) by (meson rev_exhaust)
  let ?w = "tb_last_sstable_id t"
  let ?pre = "tables_enc xs @ [of_nat (length (tb_name t))] @ bytes_of_string (tb_name t) @ Schema_enc (tb_schema t)"
  have "tables_enc ts = ?pre @ to_le 8 ?w" by (simp add: ts tables_enc_def Table_enc_def)
  also have "\<dots> = (?pre @ take 4 (to_le 8 ?w)) @ replicate 4 0"
    using to_le_high_zero [of ?w] assms(2) by (simp add: ts)
  finally show ?thesis by (metis append_eq_conv_conj diff_add_inverse2 length_append length_replicate)
qed

lemma restart_buffer:
  assumes c: "fs_files f p = Some (take n (to_le 4 (of_nat n :: u32) @ bs))" "fs_bad f = []"
    and n: "length bs = n" "4 \<le> n" "n < 2 ^ 30"
    and tail: "bs = take (n - 4) bs @ replicate 4 0" and zero: "\<And>i. junk i = 0"
  shows "read_into junk (Some (p, 4)) n f = bs" "sys_read (Some (p, 0)) 4 f = Some (to_le 4 (of_nat n :: u32))"
proof -
  have cut: "take n (to_le 4 (of_nat n :: u32) @ bs) = to_le 4 (of_nat n :: u32) @ take (n - 4) bs"
    using n by simp
  have "map junk [n - 4..<n] = map (\<lambda>_. 0) [n - 4..<n]" by (simp add: zero)
  then have "map junk [n - 4..<n] = replicate 4 0" using n(2) by (simp add: map_replicate_const)
  then show "read_into junk (Some (p, 4)) n f = bs"
    using c n tail by (simp add: read_into_def sys_read_def cut max_transfer_def)
  show "sys_read (Some (p, 0)) 4 f = Some (to_le 4 (of_nat n :: u32))"
    using c n by (simp add: sys_read_def cut max_transfer_def)
qed

lemma reopened_names: "map fst (map reopened es) = map fst es"
  by (simp add: reopened_def comp_def)

lemma length_tables_enc: "ts \<noteq> [] \<Longrightarrow> 4 \<le> length (tables_enc ts)"
  by (cases ts) (simp_all add: tables_enc_def Table_enc_def Schema_enc_def)

text \<open>Writing the metadata file leaves the tables as they are.\<close>

lemma manager_sim_metadata:
  assumes "manager_sim n base f D e" "touched {metadata_path base} f f'"
  shows "manager_sim n base f' D e"
proof -
  have "{metadata_path base} \<inter> table_files (snd e) = {}" if "tm_base_path (snd e) = base"
    using that metadata_not_sstable by (auto simp: table_files_def)
  then show ?thesis using assms tm_sim_frame by (fastforce simp: manager_sim_def)
qed

text \<open>The simulation with the pending entries gone.\<close>

lemma manager_sim_reopened:
  assumes "manager_sim n base f D e"
  shows "manager_sim n base f (\<lambda>t. map_option (map_prod id flushed) (D t)) (reopened e)"
  using assms implements_flushed by (fastforce simp: manager_sim_def tm_sim_def reopened_def)

lemma db_fs_ok_metadata:
  assumes "db_fs_ok base f" "touched {metadata_path base} f f'"
  shows "db_fs_ok base f'"
proof -
  have "base @ ''/'' @ t \<noteq> metadata_path base" if "t \<noteq> ''metadata.meta''" for t
    using that by (simp add: metadata_name)
  then show ?thesis using assms by (auto simp: db_fs_ok_def touched_def)
qed

lemma db_sim_metadata:
  assumes "db_sim n db f D" "touched {metadata_path (db_base_path db)} f f'"
  shows "db_sim n db f' D"
  using assms manager_sim_metadata [of n "db_base_path db" f D _ f'] db_fs_ok_metadata
  by (auto simp: db_sim_def)

text \<open>Parsing the metadata of a database that is in the simulation.\<close>

lemma load_tables_sim:
  assumes sim: "db_sim n db f D" and ok: "\<forall>e \<in> set (db_table_managers db). table_ok (table_of e)"
    and len: "length (tables_enc (metadata_tables db)) = m" "m < 2 ^ 30"
  shows "load_tables junk (db_base_path db) f (of_nat m) []
      (MemoryBuffer_of (tables_enc (metadata_tables db)) (ucast (of_nat m :: u32))) =
      Some (Inr (map reopened (db_table_managers db)))" (is "?load = ?res")
    and "db_sim n \<lparr>db_base_path = db_base_path db, db_table_managers = map reopened (db_table_managers db)\<rparr> f
      (\<lambda>t. map_option (map_prod id flushed) (D t))"
proof -
  let ?es = "db_table_managers db"
  let ?buf = "MemoryBuffer_of (tables_enc (metadata_tables db)) (ucast (of_nat m :: u32))"
  have "unat (ucast (of_nat m :: u32) :: u64) = m"
    using len(2) by (simp add: unsigned_ucast_eq unat_of_nat take_bit_nat_eq_self)
  then have buf: "buf_ok ?buf" "rest ?buf = tables_enc (map table_of ?es)"
    using buffer_over [of "tables_enc (metadata_tables db)"] len by (simp_all add: metadata_tables_def)
  have es: "\<forall>e \<in> set ?es. tm_table_name (snd e) = fst e \<and> tm_base_path (snd e) = db_base_path db \<and>
      (\<exists>ms S. implements (snd e) f ms S) \<and> table_ok (table_of e)"
    using sim ok by (fastforce simp: db_sim_def manager_sim_def tm_sim_def)
  have map_ok: "smap.map_ok (map reopened ?es)"
    using sim unfolding db_sim_def smap.map_ok_def reopened_names by (auto simp: reopened_def)
  then show "?load = ?res"
    using load_tables_eq [OF es, of "[]" ?buf "of_nat m" junk] buf by (simp add: MemoryBuffer_of_def)
  have "fst ` set (map reopened ?es) = fst ` set ?es"
    by (simp add: reopened_def image_image)
  then show "db_sim n \<lparr>db_base_path = db_base_path db, db_table_managers = map reopened ?es\<rparr> f
      (\<lambda>t. map_option (map_prod id flushed) (D t))"
    using sim map_ok manager_sim_reopened [of n "db_base_path db" f D]
    by (auto simp: db_sim_def dom_def)
qed

lemma restart_recovers:
  assumes sim: "db_sim n db f D" and ne: "db_table_managers db \<noteq> []"
    and ok: "\<forall>e \<in> set (db_table_managers db). table_ok (table_of e)"
    and len: "length (tables_enc (metadata_tables db)) < 2 ^ 30"
    and last: "unat (tb_last_sstable_id (last (metadata_tables db))) < 2 ^ 32"
    and meta: "fs_files f (metadata_path (db_base_path db)) = Some c"
      "length c \<le> length (tables_enc (metadata_tables db))" "metadata_path (db_base_path db) \<notin> set (fs_dirs f)"
    and zero: "\<forall>i. junk (metadata_path (db_base_path db)) i = 0"
  shows "\<exists>f' db'. flush_metadata db f = (Inr (), f') \<and>
    Database_new junk (db_base_path db) f' = Some (Inr db', f') \<and>
    db_sim n db' f' (\<lambda>t. map_option (map_prod id flushed) (D t))"
proof -
  let ?base = "db_base_path db"
  let ?p = "metadata_path ?base"
  let ?ts = "metadata_tables db"
  let ?bs = "tables_enc ?ts"
  let ?n = "length ?bs"
  let ?len = "of_nat ?n :: u32"
  let ?f = "f\<lparr>fs_files := (fs_files f)(?p \<mapsto> take ?n (to_le 4 ?len @ ?bs))\<rparr>"
  have fs: "?base \<in> set (fs_dirs f)" "fs_bad f = []" using sim by (simp_all add: db_sim_def db_fs_ok_def)
  have sim': "db_sim n db ?f D" using sim by (rule db_sim_metadata) (simp add: touched_def)
  have ts: "?ts \<noteq> []" "\<forall>t \<in> set ?ts. table_ok t" using ne ok by (auto simp: metadata_tables_def)
  have n4: "4 \<le> ?n" using ts(1) by (rule length_tables_enc)
  have un: "unat ?len = ?n" using len by (simp add: unat_of_nat take_bit_nat_eq_self)
  have flush: "flush_metadata db f = (Inr (), ?f)"
    using flush_metadata_eq [OF ts(2) len meta(1) fs(2)] meta(2) by (simp add: overwrite_def)
  note tail = tables_enc_tail [OF ts(1) last]
  have rd: "read_into (junk ?p) (Some (?p, 4)) ?n ?f = ?bs" "sys_read (Some (?p, 0)) 4 ?f = Some (to_le 4 ?len)"
    using restart_buffer [of ?f ?p ?n ?bs "junk ?p"] fs(2) n4 len tail zero by simp_all
  have "open_create ?p ?f = (Some (?p, 0), ?f)" using meta(3) by (simp add: open_create_def)
  moreover have "?len \<noteq> 0" using un n4 by (metis not_numeral_le_zero unsigned_0)
  moreover have "from_le (to_le 4 ?len) = ?len" by (rule from_le_to_le) simp
  ultimately have "Database_new junk ?base ?f =
      Some (Inr \<lparr>db_base_path = ?base, db_table_managers = map reopened (db_table_managers db)\<rparr>, ?f)"
    using load_tables_sim(1) [OF sim' ok refl len] rd fs(1) un
    by (simp add: Database_new_def Let_def)
  then show ?thesis using flush load_tables_sim(2) [OF sim' ok refl len] by blast
qed

section \<open>Properties\<close>

text \<open>
  Property C2. A database over several tables, from its creation in an empty directory: after any sequence
  of \<^verbatim>\<open>create_table\<close> and \<^verbatim>\<open>write_record\<close> calls, a read gives what
  the specification of that table gives, each table unaffected by the writes to the others, and a read of
  a table that was never created throws \<^verbatim>\<open>uncomparable_type_error\<close>.
\<close>

theorem database_refines:
  assumes "db_fs_ok base f" "metadata_path base \<notin> set (fs_dirs f)" "fs_files f (metadata_path base) = None"
    "\<forall>p \<in> set ps. db_op_ok p" "length ps < 2 ^ 62"
  shows "\<exists>db0 f0 db f'. Database_new junk base f = Some (Inr db0, f0) \<and> fold run_db ps (db0, f0) = (db, f') \<and>
    (\<forall>t k. case fold spec_op ps Map.empty t of
       None \<Rightarrow> Database_read_record junk db t k f' = Inl uncomparable_type_error
     | Some (s, S) \<Rightarrow> key_ok (key_type s) k \<longrightarrow> Database_read_record junk db t k f' =
         (case spec_read S k of None \<Rightarrow> Inl non_existent_record_error | Some r \<Rightarrow> Inr r))"
proof -
  let ?db0 = "\<lparr>db_base_path = base, db_table_managers = []\<rparr>"
  obtain f0 where f0: "Database_new junk base f = Some (Inr ?db0, f0)" "db_sim (0 + length ps) ?db0 f0 Map.empty"
    using Database_new_fresh [OF assms(1-3), of junk "0 + length ps"] by blast
  obtain db f' where db: "fold run_db ps (?db0, f0) = (db, f')" "db_sim 0 db f' (fold spec_op ps Map.empty)"
    using run_dbs_sim [OF f0(2) assms(4)] assms(5) by auto
  have "Database_read_record junk db t k f' = Inl uncomparable_type_error"
    if "fold spec_op ps Map.empty t = None" for t k
    using db_lookup [OF db(2)] db_lookup_none [OF db(2) that] by (simp add: Database_read_record_def)
  then show ?thesis
    using f0(1) db db_read_sim [OF db(2)] by (auto split: option.split)
qed

definition empty_fs :: fs where
  "empty_fs = \<lparr>fs_dirs = [''db''], fs_files = (\<lambda>p. None), fs_bad = []\<rparr>"

lemma empty_fs_ok: "db_fs_ok ''db'' empty_fs" "metadata_path ''db'' \<notin> set (fs_dirs empty_fs)"
  "fs_files empty_fs (metadata_path ''db'') = None"
  by (simp_all add: db_fs_ok_def empty_fs_def sstable_paths_def sstable_path_def metadata_path_def)

theorem database_refines_witness:
  "\<exists>db0 f0 db f'. Database_new (\<lambda>_ _. 0) ''db'' empty_fs = Some (Inr db0, f0) \<and>
    fold run_db [Create ''t'' example_schema, Write ''t'' example_row] (db0, f0) = (db, f') \<and>
    Database_read_record (\<lambda>_ _. 0) db ''t'' (Some (IntData 42)) f' = Inr example_row \<and>
    Database_read_record (\<lambda>_ _. 0) db ''u'' (Some (IntData 42)) f' = Inl uncomparable_type_error"
proof -
  let ?ps = "[Create ''t'' example_schema, Write ''t'' example_row]"
  let ?D = "fold spec_op ?ps Map.empty"
  have ok: "\<forall>p \<in> set ?ps. db_op_ok p" by (simp add: example_keyed example_row_def)
  have D: "?D ''t'' = Some (example_schema, spec_write (row_key example_schema example_row) example_row spec_empty)"
      "?D ''u'' = None"
    by (simp_all add: example_row_ok)
  have "spec_read (spec_write (row_key example_schema example_row) example_row spec_empty) (Some (IntData 42)) =
      Some example_row"
    by (simp add: spec_read_def spec_write_def spec_empty_def row_key_def example_row_def example_schema_def)
  moreover have "key_ok (key_type example_schema) (Some (IntData 42))"
    by (simp add: example_keyed key_ok_def dptr_ok_def)
  moreover obtain db0 f0 db f' where run: "Database_new (\<lambda>_ _. 0) ''db'' empty_fs = Some (Inr db0, f0)"
      "fold run_db ?ps (db0, f0) = (db, f')"
      and reads: "\<forall>t k. case ?D t of
         None \<Rightarrow> Database_read_record (\<lambda>_ _. 0) db t k f' = Inl uncomparable_type_error
       | Some (s, S) \<Rightarrow> key_ok (key_type s) k \<longrightarrow> Database_read_record (\<lambda>_ _. 0) db t k f' =
           (case spec_read S k of None \<Rightarrow> Inl non_existent_record_error | Some r \<Rightarrow> Inr r)"
    using database_refines [OF empty_fs_ok ok, of "\<lambda>_ _. 0"] by auto
  ultimately have "Database_read_record (\<lambda>_ _. 0) db ''t'' (Some (IntData 42)) f' = Inr example_row"
      "Database_read_record (\<lambda>_ _. 0) db ''u'' (Some (IntData 42)) f' = Inl uncomparable_type_error"
    using spec [OF spec [OF reads], of "''t''" "Some (IntData 42)"]
      spec [OF spec [OF reads], of "''u''" "Some (IntData 42)"]
    unfolding D by simp_all
  then show ?thesis using run by blast
qed

text \<open>
  Property C3. A shutdown followed by a restart. When the metadata file is not longer than the new metadata
  and the freshly allocated read buffer happens to hold zeros, the restarted database has the same tables
  with everything that was flushed, and has lost the entry pending in each memtable.
\<close>

theorem restart_keeps_flushed:
  assumes "db_sim n db f D" "db_table_managers db \<noteq> []"
    "\<forall>e \<in> set (db_table_managers db). table_ok (table_of e)"
    "length (tables_enc (metadata_tables db)) < 2 ^ 30"
    "unat (tb_last_sstable_id (last (metadata_tables db))) < 2 ^ 32"
    "fs_files f (metadata_path (db_base_path db)) = Some c"
    "length c \<le> length (tables_enc (metadata_tables db))" "metadata_path (db_base_path db) \<notin> set (fs_dirs f)"
    "\<forall>i. junk (metadata_path (db_base_path db)) i = 0" "D t = Some (s, S)" "key_ok (key_type s) k"
  shows "\<exists>f' db'. flush_metadata db f = (Inr (), f') \<and>
    Database_new junk (db_base_path db) f' = Some (Inr db', f') \<and>
    Database_read_record junk db' t k f' =
      (case sp_store S k of None \<Rightarrow> Inl non_existent_record_error | Some r \<Rightarrow> Inr r)"
proof -
  obtain f' db' where f': "flush_metadata db f = (Inr (), f')"
      "Database_new junk (db_base_path db) f' = Some (Inr db', f')"
      "db_sim n db' f' (\<lambda>t. map_option (map_prod id flushed) (D t))"
    using restart_recovers [OF assms(1-8), where junk = junk, OF assms(9)] by blast
  have "spec_read (flushed S) k = sp_store S k" by (simp add: spec_read_def flushed_def)
  then show ?thesis using f' db_read_sim [OF f'(3), of t s "flushed S" k junk] assms(10,11) by auto
qed

definition example_db :: database where
  "example_db = \<lparr>db_base_path = ''db'', db_table_managers = [(''t'', TableManager_new ''db'' ''t'' example_schema [])]\<rparr>"

definition example_db_fs :: fs where
  "example_db_fs = \<lparr>fs_dirs = [''db'', ''db/t''], fs_files = [''db/metadata.meta'' \<mapsto> []], fs_bad = []\<rparr>"

lemma example_db_sim: "db_sim 5 example_db example_db_fs [''t'' \<mapsto> (example_schema, spec_empty)]"
proof -
  have ok: "db_fs_ok ''db'' example_db_fs"
    by (simp add: db_fs_ok_def example_db_fs_def sstable_paths_def sstable_path_def)
  have "table_dir_ok ''db'' ''t'' example_db_fs"
    by (rule db_fs_ok_dir [OF ok]) (simp add: example_db_fs_def)
  then have "tm_sim example_schema 5 (TableManager_new ''db'' ''t'' example_schema [], example_db_fs) spec_empty"
    by (intro tm_sim_new) (simp_all add: example_keyed)
  moreover have "tm_schema (TableManager_new b t s ms) = s" "tm_base_path (TableManager_new b t s ms) = b"
      "tm_table_name (TableManager_new b t s ms) = t" for b t s ms
    by (simp_all add: TableManager_new_def)
  ultimately show ?thesis
    using ok by (simp add: db_sim_def example_db_def smap.map_ok_def manager_sim_def)
qed

lemma example_db_tables: "metadata_tables example_db = [example_table\<lparr>tb_name := ''t'', tb_last_sstable_id := 0\<rparr>]"
  by (simp add: metadata_tables_def example_db_def table_of_def TableManager_new_def example_table_def)

lemma example_db_small: "length (tables_enc (metadata_tables example_db)) < 2 ^ 30"
  by (simp add: example_db_tables tables_enc_def Table_enc_def Schema_enc_def example_table_def example_schema_def)

theorem restart_keeps_flushed_witness:
  "\<exists>f' db'. flush_metadata example_db example_db_fs = (Inr (), f') \<and>
    Database_new (\<lambda>_ _. 0) (db_base_path example_db) f' = Some (Inr db', f') \<and>
    Database_read_record (\<lambda>_ _. 0) db' ''t'' (Some (IntData 1)) f' =
      (case sp_store spec_empty (Some (IntData 1)) of None \<Rightarrow> Inl non_existent_record_error | Some r \<Rightarrow> Inr r)"
proof (rule restart_keeps_flushed [OF example_db_sim])
  show "\<forall>e \<in> set (db_table_managers example_db). table_ok (table_of e)"
    using example_table_ok by (simp add: example_db_def table_of_def TableManager_new_def example_table_def
        table_ok_def name_ok_def)
  show "key_ok (key_type example_schema) (Some (IntData 1))"
    by (simp add: example_keyed key_ok_def dptr_ok_def)
  show "unat (tb_last_sstable_id (last (metadata_tables example_db))) < 2 ^ 32"
    by (simp add: example_db_tables)
  show "length [] \<le> length (tables_enc (metadata_tables example_db))" by simp
  show "length (tables_enc (metadata_tables example_db)) < 2 ^ 30" by (rule example_db_small)
qed (simp_all add: example_db_def example_db_fs_def metadata_path_def)

text \<open>
  \<^verbatim>\<open>flush_metadata\<close> writes \<open>len\<close> of the \<open>len + 4\<close> bytes it has
  serialised: a metadata file that was empty announces \<open>len\<close> bytes and holds only \<open>len - 4\<close> of them,
  so the restart takes the last four from uninitialised memory.
\<close>

theorem metadata_truncated:
  assumes "\<forall>t \<in> set (metadata_tables db). table_ok t" "metadata_tables db \<noteq> []"
    "length (tables_enc (metadata_tables db)) < 2 ^ 30"
    "fs_files f (metadata_path (db_base_path db)) = Some []" "fs_bad f = []"
  shows "\<exists>f'. flush_metadata db f = (Inr (), f') \<and>
    fs_files f' (metadata_path (db_base_path db)) =
      Some (to_le 4 (of_nat (length (tables_enc (metadata_tables db))) :: u32) @
        take (length (tables_enc (metadata_tables db)) - 4) (tables_enc (metadata_tables db)))"
  using flush_metadata_eq [OF assms(1,3-5)] length_tables_enc [OF assms(2)] by (simp add: overwrite_def)

theorem metadata_truncated_witness:
  "\<exists>f'. flush_metadata example_db example_db_fs = (Inr (), f') \<and>
    fs_files f' (metadata_path (db_base_path example_db)) =
      Some (to_le 4 (of_nat (length (tables_enc (metadata_tables example_db))) :: u32) @
        take (length (tables_enc (metadata_tables example_db)) - 4) (tables_enc (metadata_tables example_db)))"
proof (rule metadata_truncated)
  show "\<forall>t \<in> set (metadata_tables example_db). table_ok t"
    using example_table_ok by (simp add: example_db_tables table_ok_def name_ok_def)
  show "metadata_tables example_db \<noteq> []" by (simp add: example_db_tables)
qed (rule example_db_small, simp_all add: example_db_def example_db_fs_def metadata_path_def)

text \<open>
  A table that already exists is not replaced: a second \<^verbatim>\<open>create_table\<close>
  of the name succeeds and leaves all tables, their schemas included, as they were.
\<close>

theorem create_table_existing:
  assumes "db_sim n db f D" "D t \<noteq> None"
  shows "\<exists>f'. create_table t s db f = (Inr db, f')"
proof -
  have ok: "smap.map_ok (db_table_managers db)" "t \<in> fst ` set (db_table_managers db)"
    using assms by (auto simp: db_sim_def)
  then show ?thesis
    using smap.insert_present [OF ok(1) _ ok(2)] by (simp add: create_table_def Let_def)
qed

theorem create_table_existing_witness:
  "\<exists>f'. create_table ''t'' (Schema_push_back \<lparr>fd_name = ''x'', fd_type = \<lparr>ty_id = T_INT, ty_length = 4\<rparr>\<rparr> example_schema)
     example_db example_db_fs = (Inr example_db, f')"
  by (rule create_table_existing [OF example_db_sim]) simp

end
