(* ===== verification/Lang_Statements.thy ===== *)
theory Lang_Statements
  imports Db_Database
begin

text \<open>
  \<^verbatim>\<open>include/lang/statements\<close>: the statements of the query language, as the visitor
  builds them, and what executing one does to a database. A member that a constructor leaves without a
  value is \<open>None\<close> until something is assigned to it; pointers to values are \<open>dptr\<close>. Freeing the
  values in the destructors has no counterpart. The lemmas reduce the execution of a statement to the
  calls of the database, and with them statements refine the specification of a database.
\<close>

section \<open>Printing a value\<close>

text \<open>
  \<^verbatim>\<open>Data::print\<close>. Only strings and 32-bit integers return a string; the other
  classes have an empty body.
\<close>

fun Data_print :: "data \<Rightarrow> string result" where
  "Data_print (ASCIIData v) = Inr v"
| "Data_print (IntData v) = Inr (to_string_int (sint v))"
| "Data_print _ = Inl Undefined_Behaviour"

section \<open>Parts of statements\<close>

text \<open>\<^verbatim>\<open>Statement::Type\<close>.\<close>

datatype statement_type =
    ALTER_KEYSPACE | ALTER_MATERIALIZED_VIEW | ALTER_ROLE | ALTER_TABLE | ALTER_TYPE | ALTER_USER
  | APPLY_BATCH
  | CREATE_AGGREGATE | CREATE_FUNCTION | CREATE_INDEX | CREATE_KEYSPACE | CREATE_MATERIALIZED_VIEW
  | CREATE_ROLE | CREATE_TABLE | CREATE_TRIGGER | CREATE_TYPE | CREATE_USER
  | DELETE
  | DROP_AGGREGATE | DROP_FUNCTION | DROP_INDEX | DROP_KEYSPACE | DROP_MATERIALIZED_VIEW
  | DROP_ROLE | DROP_TABLE | DROP_TRIGGER | DROP_TYPE | DROP_USER
  | GRANT | INSERT | LIST_PERMISSIONS | LIST_ROLES | REVOKE | SELECT | TRUNCATE | UPDATE | USE

record timestamp_spec =
  ts_valid :: bool
  ts_timestamp :: "u64 option"

definition TimestampSpec_new :: timestamp_spec where
  "TimestampSpec_new = \<lparr>ts_valid = False, ts_timestamp = None\<rparr>"

definition TimestampSpec_of :: "u64 \<Rightarrow> timestamp_spec" where
  "TimestampSpec_of timestamp = \<lparr>ts_valid = True, ts_timestamp = Some timestamp\<rparr>"

record ttl_timestamp =
  tt_ttl_valid :: bool
  tt_ttl :: "u64 option"
  tt_timestamp_valid :: bool
  tt_timestamp :: "u64 option"

definition TtlTimestamp_new :: ttl_timestamp where
  "TtlTimestamp_new =
     \<lparr>tt_ttl_valid = False, tt_ttl = None, tt_timestamp_valid = False, tt_timestamp = None\<rparr>"

definition from_ttl :: "u64 \<Rightarrow> ttl_timestamp" where
  "from_ttl ttl = TtlTimestamp_new\<lparr>tt_ttl_valid := True, tt_ttl := Some ttl\<rparr>"

definition from_timestamp :: "u64 \<Rightarrow> ttl_timestamp" where
  "from_timestamp timestamp = TtlTimestamp_new\<lparr>tt_timestamp_valid := True, tt_timestamp := Some timestamp\<rparr>"

definition from_ttl_and_timestamp :: "u64 \<Rightarrow> u64 \<Rightarrow> ttl_timestamp" where
  "from_ttl_and_timestamp ttl timestamp =
     TtlTimestamp_new\<lparr>tt_ttl_valid := True, tt_ttl := Some ttl,
       tt_timestamp_valid := True, tt_timestamp := Some timestamp\<rparr>"

datatype batch_type = LOGGED | UNLOGGED | UNVALID

record batch =
  ba_valid :: "bool option"
  ba_type :: "batch_type option"
  ba_timestamp_spec :: timestamp_spec

definition Batch_new :: batch where
  "Batch_new = \<lparr>ba_valid = None, ba_type = None, ba_timestamp_spec = TimestampSpec_new\<rparr>"

definition from_type :: "batch_type \<Rightarrow> batch" where
  "from_type t = Batch_new\<lparr>ba_valid := Some True, ba_type := Some t\<rparr>"

definition from_timestamp_spec :: "timestamp_spec \<Rightarrow> batch" where
  "from_timestamp_spec spec = Batch_new\<lparr>ba_valid := Some True, ba_timestamp_spec := spec\<rparr>"

definition from_type_and_timestamp_spec :: "batch_type \<Rightarrow> timestamp_spec \<Rightarrow> batch" where
  "from_type_and_timestamp_spec t spec =
     Batch_new\<lparr>ba_valid := Some True, ba_type := Some t, ba_timestamp_spec := spec\<rparr>"

record from_spec =
  fr_keyspace :: string
  fr_table :: string

definition FromSpec_new :: from_spec where
  "FromSpec_new = \<lparr>fr_keyspace = '''', fr_table = ''''\<rparr>"

record order_spec =
  or_valid :: bool
  or_column :: string
  or_ascending :: "bool option"

definition OrderSpec_new :: order_spec where
  "OrderSpec_new = \<lparr>or_valid = False, or_column = '''', or_ascending = None\<rparr>"

record select_element =
  se_name :: string
  se_star :: bool
  se_alias :: string

definition SelectElement_new :: select_element where
  "SelectElement_new = \<lparr>se_name = '''', se_star = False, se_alias = ''''\<rparr>"

record select_elements =
  ses_star :: bool
  ses_elements :: "select_element list"

definition SelectElements_new :: select_elements where
  "SelectElements_new = \<lparr>ses_star = False, ses_elements = []\<rparr>"

datatype operator = OP_EQ | OP_LT | OP_GT | OP_LTE | OP_GTE

record relation_element =
  re_column :: string
  re_op :: operator
  re_operand :: dptr

definition RelationElement_new :: relation_element where
  "RelationElement_new = \<lparr>re_column = '''', re_op = OP_EQ, re_operand = None\<rparr>"

text \<open>The copy constructor; the assignment operator copies the same way.\<close>

definition RelationElement_copy :: "relation_element \<Rightarrow> relation_element result" where
  "RelationElement_copy other =
     bindR (Data_copy (re_operand other)) (\<lambda>d. Inr (other\<lparr>re_operand := Some d\<rparr>))"

type_synonym where_spec = "relation_element list"

section \<open>Statements\<close>

record create_table_statement =
  ct_if_not_exists :: "bool option"
  ct_keyspace :: string
  ct_table :: string
  ct_schema :: schema

definition CreateTableStatement_new :: create_table_statement where
  "CreateTableStatement_new = \<lparr>ct_if_not_exists = None, ct_keyspace = '''', ct_table = '''',
     ct_schema = \<lparr>sc_sort_key_index = 0, sc_partition_key_index = 0, sc_fields = []\<rparr>\<rparr>"

record insert_statement =
  in_batch :: batch
  in_keyspace :: string
  in_table :: string
  in_columns :: "string list"
  in_values :: "dptr list"
  in_if_not_exists :: "bool option"
  in_ttl_timestamp :: ttl_timestamp

definition InsertStatement_new :: insert_statement where
  "InsertStatement_new = \<lparr>in_batch = Batch_new, in_keyspace = '''', in_table = '''', in_columns = [],
     in_values = [], in_if_not_exists = None, in_ttl_timestamp = TtlTimestamp_new\<rparr>"

record select_statement =
  sl_distinct :: "bool option"
  sl_json :: "bool option"
  sl_select_elements :: select_elements
  sl_from_spec :: from_spec
  sl_where_spec :: where_spec
  sl_order_spec :: order_spec
  sl_limit :: "u64 option"
  sl_allow_filtering :: "bool option"

definition SelectStatement_new :: select_statement where
  "SelectStatement_new = \<lparr>sl_distinct = None, sl_json = None, sl_select_elements = SelectElements_new,
     sl_from_spec = FromSpec_new, sl_where_spec = [], sl_order_spec = OrderSpec_new, sl_limit = None,
     sl_allow_filtering = None\<rparr>"

datatype statement =
    CreateTable create_table_statement
  | Insert insert_statement
  | Select select_statement

fun statement_type_of :: "statement \<Rightarrow> statement_type" where
  "statement_type_of (CreateTable c) = CREATE_TABLE"
| "statement_type_of (Insert i) = INSERT"
| "statement_type_of (Select s) = SELECT"

section \<open>Executing a statement\<close>

type_synonym db_state = "database \<times> fs"

definition CreateTable_execute :: "create_table_statement \<Rightarrow> (db_state, row option) cmd" where
  "CreateTable_execute c = (\<lambda>(db, f). case create_table (ct_table c) (ct_schema c) db f of
     (Inl e, f) \<Rightarrow> (Inl e, (db, f))
   | (Inr db, f) \<Rightarrow> (Inr None, (db, f)))"

fun copy_values :: "dptr list \<Rightarrow> row result" where
  "copy_values [] = Inr []"
| "copy_values (v # vs) = bindR (Data_copy v) (\<lambda>d. bindR (copy_values vs) (\<lambda>ds. Inr (Some d # ds)))"

definition Insert_execute :: "insert_statement \<Rightarrow> (db_state, row option) cmd" where
  "Insert_execute i =
     bindC (liftC (copy_values (in_values i))) (\<lambda>values.
     bindC (Database_write_record (in_table i) values) (\<lambda>_. liftC (Inr None)))"

definition Insert_partition_key :: "insert_statement \<Rightarrow> string option result" where
  "Insert_partition_key i =
     bindR (vec_at (in_values i) 1) (\<lambda>p. bindR (deref p) (\<lambda>d. bindR (Data_print d) (\<lambda>s. Inr (Some s))))"

definition Select_execute :: "(string \<Rightarrow> nat \<Rightarrow> byte) \<Rightarrow> select_statement \<Rightarrow> (db_state, row option) cmd" where
  "Select_execute junk s = (\<lambda>(db, f).
     (bindR (vec_at (sl_where_spec s) 0) (\<lambda>e.
      bindR (Data_copy (re_operand e)) (\<lambda>d.
      bindR (Database_read_record junk db (fr_table (sl_from_spec s)) (Some d) f) (\<lambda>r. Inr (Some r)))), (db, f)))"

definition Select_partition_key :: "select_statement \<Rightarrow> string option result" where
  "Select_partition_key s =
     bindR (vec_at (sl_where_spec s) 0) (\<lambda>e.
     bindR (deref (re_operand e)) (\<lambda>d. bindR (Data_print d) (\<lambda>s. Inr (Some s))))"

text \<open>The virtual methods of \<^verbatim>\<open>Statement\<close>; the base class has no partition key.\<close>

fun Statement_execute :: "(string \<Rightarrow> nat \<Rightarrow> byte) \<Rightarrow> statement \<Rightarrow> (db_state, row option) cmd" where
  "Statement_execute junk (CreateTable c) = CreateTable_execute c"
| "Statement_execute junk (Insert i) = Insert_execute i"
| "Statement_execute junk (Select s) = Select_execute junk s"

fun partition_key :: "statement \<Rightarrow> string option result" where
  "partition_key (CreateTable c) = Inr None"
| "partition_key (Insert i) = Insert_partition_key i"
| "partition_key (Select s) = Select_partition_key s"

section \<open>The driver of the query language\<close>

text \<open>
  The loop of \<^verbatim>\<open>src/lang.cc\<close> over the parsed statements. Its state is the database and the lines
  printed so far; an exception ends the program. The type of a statement and its class agree by
  construction, so the dynamic casts succeed.
\<close>

type_synonym console = "db_state \<times> string list"

definition on_db :: "(db_state, 'a) cmd \<Rightarrow> (console, 'a) cmd" where
  "on_db c = (\<lambda>(s, out). case c s of (r, s) \<Rightarrow> (r, (s, out)))"

definition print_line :: "string \<Rightarrow> (console, unit) cmd" where
  "print_line l = (\<lambda>(s, out). (Inr (), (s, out @ [l])))"

fun print_values :: "row \<Rightarrow> (console, unit) cmd" where
  "print_values [] = liftC (Inr ())"
| "print_values (v # vs) =
     bindC (liftC (bindR (deref v) Data_print)) (\<lambda>l. bindC (print_line l) (\<lambda>_. print_values vs))"

fun run_statement :: "(string \<Rightarrow> nat \<Rightarrow> byte) \<Rightarrow> statement \<Rightarrow> (console, unit) cmd" where
  "run_statement junk (CreateTable c) =
     bindC (on_db (CreateTable_execute c)) (\<lambda>_. print_line (ct_table c))"
| "run_statement junk (Insert i) =
     bindC (on_db (Insert_execute i)) (\<lambda>_. print_line (in_table i))"
| "run_statement junk (Select s) =
     bindC (on_db (Select_execute junk s)) (\<lambda>result.
     bindC (print_line (fr_table (sl_from_spec s))) (\<lambda>_.
       case result of None \<Rightarrow> liftC (Inr ()) | Some r \<Rightarrow> print_values r))"

fun run_statements :: "(string \<Rightarrow> nat \<Rightarrow> byte) \<Rightarrow> statement list \<Rightarrow> (console, unit) cmd" where
  "run_statements junk [] = liftC (Inr ())"
| "run_statements junk (st # sts) = bindC (run_statement junk st) (\<lambda>_. run_statements junk sts)"

section \<open>Statements and the calls they make\<close>

definition value_ok :: "dptr \<Rightarrow> bool" where
  "value_ok p = (case p of None \<Rightarrow> False | Some d \<Rightarrow> data_ok d)"

text \<open>The call of the database that changes it, if the statement makes one.\<close>

fun statement_ops :: "statement \<Rightarrow> db_op list" where
  "statement_ops (CreateTable c) = [Create (ct_table c) (ct_schema c)]"
| "statement_ops (Insert i) = [Write (in_table i) (in_values i)]"
| "statement_ops (Select s) = []"

text \<open>The values are there, a selection has a relation, and the names and schemas are usable.\<close>

fun statement_ok :: "statement \<Rightarrow> bool" where
  "statement_ok (CreateTable c) = db_op_ok (Create (ct_table c) (ct_schema c))"
| "statement_ok (Insert i) = (\<forall>p \<in> set (in_values i). value_ok p)"
| "statement_ok (Select s) = (sl_where_spec s \<noteq> [] \<and> value_ok (re_operand (hd (sl_where_spec s))))"

definition run_all :: "(string \<Rightarrow> nat \<Rightarrow> byte) \<Rightarrow> statement list \<Rightarrow> db_state \<Rightarrow> db_state" where
  "run_all junk sts = fold (\<lambda>st s. snd (Statement_execute junk st s)) sts"

lemma value_okE: "value_ok p \<Longrightarrow> (\<And>d. p = Some d \<Longrightarrow> data_ok d \<Longrightarrow> thesis) \<Longrightarrow> thesis"
  by (cases p) (simp_all add: value_ok_def)

lemma copy_values_eq: "\<forall>p \<in> set vs. value_ok p \<Longrightarrow> copy_values vs = Inr vs"
  by (induction vs) (auto elim!: value_okE simp: Data_copy_eq)

lemma Select_execute_eq:
  assumes "sl_where_spec s \<noteq> []" "re_operand (hd (sl_where_spec s)) = Some d" "data_ok d"
  shows "Select_execute junk s (db, f) =
    (bindR (Database_read_record junk db (fr_table (sl_from_spec s)) (Some d) f) (\<lambda>r. Inr (Some r)), (db, f))"
  using assms by (simp add: Select_execute_def hd_conv_nth Data_copy_eq)

lemma Statement_execute_state:
  "statement_ok st \<Longrightarrow> snd (Statement_execute junk st s) = fold run_db (statement_ops st) s"
proof (cases st)
  case (Insert i)
  moreover assume "statement_ok st"
  ultimately show ?thesis
    by (cases "Database_write_record (in_table i) (in_values i) s" rule: prod.exhaust [case_product sum.exhaust])
      (simp_all add: Insert_execute_def copy_values_eq bindC_def split: sum.split)
next
  case (CreateTable c)
  then show ?thesis
    by (cases s) (simp add: CreateTable_execute_def split: prod.split sum.split)
qed (simp add: Select_execute_def split: prod.split)

lemma statement_ops_ok: "statement_ok st \<Longrightarrow> p \<in> set (statement_ops st) \<Longrightarrow> db_op_ok p"
  by (cases st) (auto simp: value_ok_def)

lemma statement_ops_length: "length (statement_ops st) \<le> 1"
  by (cases st) simp_all

lemma run_all_eq:
  "\<forall>st \<in> set sts. statement_ok st \<Longrightarrow> run_all junk sts s = fold run_db (concat (map statement_ops sts)) s"
  by (induction sts arbitrary: s) (simp_all add: run_all_def Statement_execute_state)

lemma length_ops: "length (concat (map statement_ops sts)) \<le> length sts"
proof (induction sts)
  case (Cons st sts)
  then show ?case using statement_ops_length [of st] by simp
qed simp

section \<open>Properties\<close>

text \<open>What a selection by sort key answers in a specified state of the database.\<close>

definition spec_select :: "db_spec \<Rightarrow> string \<Rightarrow> dptr \<Rightarrow> row option result" where
  "spec_select D t k = (case D t of
     None \<Rightarrow> Inl uncomparable_type_error
   | Some (s, S) \<Rightarrow> (case spec_read S k of None \<Rightarrow> Inl non_existent_record_error | Some r \<Rightarrow> Inr (Some r)))"

text \<open>
  Property C22. Statements implement the specification of a database: in a database created in an empty
  directory, after any sequence of statements, executed whether or not one of them throws, a
  \<^verbatim>\<open>SELECT\<close> with a relation on the sort key returns what the \<^verbatim>\<open>CREATE TABLE\<close> and
  \<^verbatim>\<open>INSERT\<close> statements before it specify, and leaves the database as it is.
\<close>

theorem statements_refine:
  assumes "db_fs_ok base f" "metadata_path base \<notin> set (fs_dirs f)" "fs_files f (metadata_path base) = None"
    "\<forall>st \<in> set sts. statement_ok st" "length sts < 2 ^ 62" "statement_ok (Select s)"
    "D = fold spec_op (concat (map statement_ops sts)) Map.empty"
    "\<forall>sch S. D (fr_table (sl_from_spec s)) = Some (sch, S) \<longrightarrow>
       key_ok (key_type sch) (re_operand (hd (sl_where_spec s)))"
  shows "\<exists>db0 f0. Database_new junk base f = Some (Inr db0, f0) \<and>
    Statement_execute junk (Select s) (run_all junk sts (db0, f0)) =
      (spec_select D (fr_table (sl_from_spec s)) (re_operand (hd (sl_where_spec s))), run_all junk sts (db0, f0))"
proof -
  let ?ps = "concat (map statement_ops sts)" and ?db0 = "\<lparr>db_base_path = base, db_table_managers = []\<rparr>"
  have ps: "\<forall>p \<in> set ?ps. db_op_ok p" using assms(4) statement_ops_ok by auto
  have len: "length ?ps < 2 ^ 62" using length_ops [of sts] assms(5) by (rule le_less_trans)
  obtain f0 where f0: "Database_new junk base f = Some (Inr ?db0, f0)" "db_sim (0 + length ?ps) ?db0 f0 Map.empty"
    using Database_new_fresh [OF assms(1-3), of junk "0 + length ?ps"] by blast
  obtain db f' where db: "fold run_db ?ps (?db0, f0) = (db, f')" "db_sim 0 db f' D"
    using run_dbs_sim [OF f0(2) ps] len assms(7) by auto
  obtain d where d: "re_operand (hd (sl_where_spec s)) = Some d" "data_ok d" "sl_where_spec s \<noteq> []"
    using assms(6) by (auto elim: value_okE)
  have "bindR (Database_read_record junk db (fr_table (sl_from_spec s)) (Some d) f') (\<lambda>r. Inr (Some r)) =
      spec_select D (fr_table (sl_from_spec s)) (Some d)"
    using db_lookup [OF db(2)] db_lookup_none [OF db(2)] db_read_sim [OF db(2)] assms(8) d(1)
    by (auto simp: spec_select_def Database_read_record_def split: option.split)
  then show ?thesis
    using f0(1) db(1) run_all_eq [OF assms(4), of junk "(?db0, f0)"] Select_execute_eq [OF d(3,1,2)] d(1)
    by auto
qed

definition example_create :: statement where
  "example_create = CreateTable (CreateTableStatement_new\<lparr>ct_table := ''t'', ct_schema := example_schema\<rparr>)"

definition example_insert :: statement where
  "example_insert = Insert (InsertStatement_new\<lparr>in_table := ''t'', in_values := example_row\<rparr>)"

definition example_select :: select_statement where
  "example_select = SelectStatement_new\<lparr>sl_from_spec := \<lparr>fr_keyspace = '''', fr_table = ''t''\<rparr>,
     sl_where_spec := [\<lparr>re_column = ''id'', re_op = OP_EQ, re_operand = Some (IntData 42)\<rparr>]\<rparr>"

lemma example_statements_ok:
  "statement_ok example_create" "statement_ok example_insert" "statement_ok (Select example_select)"
  by (simp_all add: example_create_def example_insert_def example_select_def example_keyed example_row_def
      value_ok_def SelectStatement_new_def)

lemma example_statements_spec:
  "fold spec_op (concat (map statement_ops [example_create, example_insert])) Map.empty =
     [''t'' \<mapsto> (example_schema, spec_write (row_key example_schema example_row) example_row spec_empty)]"
  by (simp add: example_create_def example_insert_def example_row_ok)

theorem statements_refine_witness:
  "\<exists>db0 f0. Database_new (\<lambda>_ _. 0) ''db'' empty_fs = Some (Inr db0, f0) \<and>
    fst (Statement_execute (\<lambda>_ _. 0) (Select example_select)
      (run_all (\<lambda>_ _. 0) [example_create, example_insert] (db0, f0))) = Inr (Some example_row)"
proof -
  let ?D = "fold spec_op (concat (map statement_ops [example_create, example_insert])) Map.empty"
  have s: "fr_table (sl_from_spec example_select) = ''t''"
      "re_operand (hd (sl_where_spec example_select)) = Some (IntData 42)"
    by (simp_all add: example_select_def SelectStatement_new_def)
  have key: "\<forall>sch S. ?D (fr_table (sl_from_spec example_select)) = Some (sch, S) \<longrightarrow>
      key_ok (key_type sch) (re_operand (hd (sl_where_spec example_select)))"
    unfolding example_statements_spec s by (simp add: example_keyed key_ok_def dptr_ok_def)
  have "spec_select ?D ''t'' (Some (IntData 42)) = Inr (Some example_row)"
    unfolding example_statements_spec
    by (simp add: spec_select_def spec_read_def spec_write_def spec_empty_def row_key_def example_row_def
        example_schema_def)
  then show ?thesis
    using statements_refine [OF empty_fs_ok, of "[example_create, example_insert]" example_select ?D "\<lambda>_ _. 0"]
      example_statements_ok key unfolding s by auto
qed

end
