(* ===== verification/C_Strings.thy ===== *)
theory C_Strings
  imports Dibi_Prelude
begin

text \<open>
  The conversions from strings to numbers of the C library that the sources call:
  \<^verbatim>\<open>strtoll\<close>, \<^verbatim>\<open>atoi\<close> and, on the literals the lexer
  makes, \<^verbatim>\<open>strtold\<close> followed by the conversion to
  \<^verbatim>\<open>double\<close>. The lemmas relate them to the printing of integers by
  \<^verbatim>\<open>std::to_string\<close> and bound the rounding.
\<close>

section \<open>Integers\<close>

definition isspace :: "char \<Rightarrow> bool" where
  "isspace c \<longleftrightarrow> c = CHR '' '' \<or> 9 \<le> (of_char c :: nat) \<and> (of_char c :: nat) \<le> 13"

fun split_sign :: "string \<Rightarrow> bool \<times> string" where
  "split_sign [] = (False, [])"
| "split_sign (c # cs) =
     (if c = CHR ''-'' then (True, cs) else if c = CHR ''+'' then (False, cs) else (False, c # cs))"

text \<open>The number a string of decimal digits denotes.\<close>

definition digits_int :: "string \<Rightarrow> int" where
  "digits_int s = foldl (\<lambda>v c. 10 * v + (of_char c - 48)) 0 s"

text \<open>The integer at the front of a string: white space, a sign, decimal digits; 0 without digits.\<close>

definition c_integer :: "string \<Rightarrow> int" where
  "c_integer s =
     (let (neg, ds) = split_sign (dropWhile isspace s);
          v = digits_int (takeWhile is_digit ds)
      in if neg then - v else v)"

text \<open>\<^verbatim>\<open>strtoll(s, nullptr, 10)\<close> saturates at the limits of 64 bits.\<close>

definition strtoll :: "string \<Rightarrow> u64" where
  "strtoll s = word_of_int (max (- (2 ^ 63)) (min (2 ^ 63 - 1) (c_integer s)))"

text \<open>\<^verbatim>\<open>atoi\<close>: undefined when the value does not fit an \<^verbatim>\<open>int\<close>.\<close>

definition atoi :: "string \<Rightarrow> u32 result" where
  "atoi s = (if - (2 ^ 31) \<le> c_integer s \<and> c_integer s < 2 ^ 31 then Inr (word_of_int (c_integer s))
     else Inl Undefined_Behaviour)"

lemma is_digit_not_space: "is_digit c \<Longrightarrow> \<not> isspace c \<and> c \<noteq> CHR ''-'' \<and> c \<noteq> CHR ''+''"
  by (auto simp: is_digit_def isspace_def)

lemma takeWhile_digits [simp]: "\<forall>c \<in> set s. is_digit c \<Longrightarrow> takeWhile is_digit s = s"
  by (simp add: takeWhile_eq_all_conv)

lemma digits_int_eq:
  assumes "\<forall>c \<in> set s. is_digit c"
  shows "digits_int s = int (digits_value s)"
proof -
  have "(of_char c :: int) - 48 = int (of_char c - 48)" if "c \<in> set s" for c
  proof -
    have "48 \<le> (of_char c :: nat)" using that assms by (simp add: is_digit_def)
    then show ?thesis by (simp add: of_nat_diff of_nat_of_char)
  qed
  then have "foldl (\<lambda>v c. 10 * v + (of_char c - 48)) (int a) s =
      int (foldl (\<lambda>v c. 10 * v + (of_char c - 48)) a s)" for a
  proof (induction s arbitrary: a)
    case (Cons c s)
    have "10 * int a + (of_char c - 48) = int (10 * a + (of_char c - 48))"
      using Cons.prems by simp
    then show ?case using Cons.IH [of "10 * a + (of_char c - 48)"] Cons.prems by simp
  qed simp
  from this [of 0] show ?thesis by (simp add: digits_int_def digits_value_def)
qed

lemma c_integer_digits:
  assumes "\<forall>c \<in> set s. is_digit c"
  shows "c_integer s = int (digits_value s)"
proof (cases s)
  case (Cons c cs)
  then have "dropWhile isspace s = s" "split_sign s = (False, s)"
    using assms is_digit_not_space [of c] by auto
  then show ?thesis using assms by (simp add: c_integer_def digits_int_eq)
qed (simp add: c_integer_def digits_int_def digits_value_def)

lemma c_integer_minus:
  assumes "\<forall>c \<in> set s. is_digit c"
  shows "c_integer (CHR ''-'' # s) = - int (digits_value s)"
  using assms by (simp add: c_integer_def isspace_def digits_int_eq)

lemma c_integer_to_string_nat: "c_integer (to_string_nat n) = int n"
  using to_string_nat_digits by (simp add: c_integer_digits digits_value_to_string)

text \<open>Reading back what \<^verbatim>\<open>std::to_string\<close> printed.\<close>

lemma c_integer_to_string: "c_integer (to_string_int i) = i"
  using to_string_nat_digits
  by (simp add: to_string_int_def c_integer_to_string_nat c_integer_minus digits_value_to_string)

lemma atoi_to_string: "atoi (to_string_int (sint (w :: u32))) = Inr w"
  using sint_ge [of w] sint_lt [of w] by (simp add: atoi_def c_integer_to_string)

lemma strtoll_small: "0 \<le> c_integer s \<Longrightarrow> c_integer s < 2 ^ 63 \<Longrightarrow> strtoll s = word_of_int (c_integer s)"
  by (simp add: strtoll_def)

section \<open>Letters\<close>

text \<open>The character functions of the C locale.\<close>

definition toupper :: "char \<Rightarrow> char" where
  "toupper c = (if 97 \<le> (of_char c :: nat) \<and> (of_char c :: nat) \<le> 122 then char_of (of_char c - 32 :: nat) else c)"

definition tolower :: "char \<Rightarrow> char" where
  "tolower c = (if 65 \<le> (of_char c :: nat) \<and> (of_char c :: nat) \<le> 90 then char_of (of_char c + 32 :: nat) else c)"

section \<open>Searching\<close>

text \<open>\<^verbatim>\<open>s.find(t)\<close> from the front: the position of the first occurrence.\<close>

fun find_string :: "string \<Rightarrow> string \<Rightarrow> nat option" where
  "find_string t [] = (if t = [] then Some 0 else None)"
| "find_string t (c # s) =
     (if take (length t) (c # s) = t then Some 0 else map_option Suc (find_string t s))"

lemma find_string_skip:
  assumes "t = c # ts" "c \<notin> set a"
  shows "find_string t (a @ s) = map_option (\<lambda>n. length a + n) (find_string t s)"
  using assms(2)
proof (induction a)
  case Nil
  show ?case by (simp add: option.map_ident)
next
  case (Cons x a)
  then have "take (length t) (x # a @ s) \<noteq> t" by (auto simp: assms(1))
  then show ?case using Cons by (simp add: option.map_comp comp_def)
qed

lemma find_string_at: "find_string t (t @ s) = Some 0"
proof (cases "t @ s")
  case (Cons c cs)
  then have "take (length t) (c # cs) = t" by (metis append_eq_conv_conj)
  then show ?thesis using Cons by simp
qed simp

section \<open>Floating point literals\<close>

text \<open>
  A literal \<open>[-]digits[.digits]\<close>, the only form the lexer passes on, denotes \<open>n / 10 ^ k\<close> with a
  sign. A positive ratio is rounded to \<open>p\<close> binary digits, to nearest and to even in a tie, with a least
  exponent \<open>emin\<close>: the result \<open>(m, e)\<close> stands for \<open>m * 2 ^ e\<close>.
  \<^verbatim>\<open>long double\<close> is the 80-bit format of the x86-64 target.
\<close>

definition literal_parts :: "string \<Rightarrow> bool \<times> int \<times> nat" where
  "literal_parts s =
     (let (neg, ds) = split_sign (dropWhile isspace s);
          whole = takeWhile is_digit ds;
          frac = (case dropWhile is_digit ds of [] \<Rightarrow> [] | c # cs \<Rightarrow> if c = CHR ''.'' then takeWhile is_digit cs else [])
      in (neg, digits_int (whole @ frac), length frac))"

definition round_half_even :: "int \<Rightarrow> int \<Rightarrow> int" where
  "round_half_even n d =
     (let q = n div d; r = n mod d in if 2 * r < d \<or> 2 * r = d \<and> even q then q else q + 1)"

function bit_length :: "int \<Rightarrow> int" where
  "bit_length n = (if n \<le> 0 then 0 else 1 + bit_length (n div 2))"
  by pat_completeness auto
termination by (relation "measure nat") auto

declare bit_length.simps [simp del]

text \<open>Scaling a ratio by a power of two.\<close>

definition scale :: "int \<Rightarrow> int \<times> int \<Rightarrow> int \<times> int" where
  "scale e r = (if 0 \<le> e then (fst r * 2 ^ nat e, snd r) else (fst r, snd r * 2 ^ nat (- e)))"

definition binary_exponent :: "int \<times> int \<Rightarrow> int" where
  "binary_exponent r =
     (let l = bit_length (fst r) - bit_length (snd r);
          (n, d) = scale (- l) r
      in if d \<le> n then l else l - 1)"

definition round_ratio :: "int \<Rightarrow> int \<Rightarrow> int \<times> int \<Rightarrow> int \<times> int" where
  "round_ratio p emin r =
     (let e = max emin (binary_exponent r - (p - 1));
          (n, d) = scale (- e) r;
          m = round_half_even n d
      in if m = 2 ^ nat p then (2 ^ nat (p - 1), e + 1) else (m, e))"

definition double_bits :: "bool \<Rightarrow> int \<times> int \<Rightarrow> u64" where
  "double_bits neg v =
     (let mag = (if 972 \<le> snd v then 2047 * 2 ^ 52 else (snd v + 1074) * 2 ^ 52 + fst v)
      in word_of_int (mag + (if neg then 2 ^ 63 else 0)))"

text \<open>First to the 64 binary digits of \<^verbatim>\<open>long double\<close>, then to the 53 of \<^verbatim>\<open>double\<close>.\<close>

definition strtold_double :: "string \<Rightarrow> u64" where
  "strtold_double s =
     (let (neg, n, k) = literal_parts s
      in if n = 0 then double_bits neg (0, -1074)
         else let (m, e) = round_ratio 64 (-16445) (n, 10 ^ k)
              in if m = 0 then double_bits neg (0, -1074)
                 else double_bits neg (round_ratio 53 (-1074) (scale e (m, 1))))"

text \<open>Rounding moves a ratio by at most half a unit.\<close>

lemma round_half_even_error:
  assumes "0 < d"
  shows "2 * \<bar>n - round_half_even n d * d\<bar> \<le> d"
proof -
  have n: "n = (n div d) * d + n mod d" by simp
  have "0 \<le> n mod d" "n mod d < d" using assms by simp_all
  then have "2 * \<bar>n mod d\<bar> \<le> d" if "2 * (n mod d) \<le> d" using that by simp
  moreover have "2 * \<bar>n mod d - d\<bar> \<le> d" if "d \<le> 2 * (n mod d)"
    using that \<open>n mod d < d\<close> by simp
  moreover have "n - (n div d) * d = n mod d" "n - (n div d + 1) * d = n mod d - d"
    by (simp_all add: minus_div_mult_eq_mod algebra_simps)
  ultimately show ?thesis by (auto simp: round_half_even_def Let_def)
qed

text \<open>The exponent found is the position of the leading binary digit.\<close>

lemma bit_length_bounds: "0 < n \<Longrightarrow> 2 ^ nat (bit_length n - 1) \<le> n \<and> n < 2 ^ nat (bit_length n) \<and> 0 < bit_length n"
proof (induction n rule: bit_length.induct)
  case (1 n)
  show ?case
  proof (cases "n = 1")
    case True
    then show ?thesis by (simp add: bit_length.simps)
  next
    case False
    let ?l = "bit_length (n div 2)"
    have "2 ^ nat (?l - 1) \<le> n div 2 \<and> n div 2 < 2 ^ nat ?l \<and> 0 < ?l"
      using "1.IH" "1.prems" False by simp
    moreover have "bit_length n = 1 + ?l" using "1.prems" by (subst bit_length.simps) simp
    moreover have "nat ?l = Suc (nat (?l - 1))" "nat (1 + ?l) = Suc (nat ?l)"
      using calculation by linarith+
    moreover have "2 * (n div 2) \<le> n" "n < 2 * (n div 2) + 2" by presburger+
    ultimately show ?thesis by simp
  qed
qed

end
