(* ===== verification/Lang_Visitor.thy ===== *)
theory Lang_Visitor
  imports Lang_Statements C_Strings
begin

text \<open>
  \<^verbatim>\<open>include/lang/cql3_visitor.hh\<close>: the visitor that turns a parse tree of the query language
  into statements. The parse tree is the output of the generated parser; the types of the first section
  hold, for each kind of node, what the accessors of its context class return: \<open>None\<close> for the null
  pointer of an absent child, the text of a token, a list where a child repeats. The grammar's
  alternatives that the visitor does not distinguish are one constructor. A null context passed on or
  dereferenced is undefined behaviour.
\<close>

section \<open>Parse trees\<close>

text \<open>
  Contexts with a single token: keyspaces, tables and columns with their
  \<^verbatim>\<open>OBJECT_NAME\<close>, literals with theirs; and contexts whose only child is such a context
  (a key column, a \<^verbatim>\<open>TTL\<close> or a timestamp with its number).
\<close>

type_synonym token_ctx = "string option"
type_synonym wrapped_ctx = "token_ctx option"

definition token_text :: "token_ctx option \<Rightarrow> string result" where
  "token_text p = bindR (deref p) deref"

definition wrapped_text :: "wrapped_ctx option \<Rightarrow> string result" where
  "wrapped_text p = bindR (deref p) token_text"

text \<open>The indexed accessor of a repeated token: null when there are not so many.\<close>

definition token_at :: "string list \<Rightarrow> nat \<Rightarrow> string option" where
  "token_at ts i = (if i < length ts then Some (ts ! i) else None)"

datatype type_keyword =
    K_ASCII | K_BIGINT | K_BOOLEAN | K_DOUBLE | K_FLOAT | K_INT | K_SMALLINT | K_TINYINT | K_BLOB | K_OTHER

record data_type_name_ctx =
  dn_keyword :: type_keyword
  dn_decimal :: "token_ctx option"

record column_definition_ctx =
  cd_column :: "token_ctx option"
  cd_data_type :: "data_type_name_ctx option option"
  cd_primary :: bool

datatype primary_key_ctx =
    SinglePrimaryKey "token_ctx option"
  | CompoundKey "wrapped_ctx option" "wrapped_ctx list option"
  | CompositeKey "wrapped_ctx list option" "wrapped_ctx list option"
  | NoKey

record column_definition_list_ctx =
  cl_columns :: "column_definition_ctx list"
  cl_primary_key :: "primary_key_ctx option option"

record create_table_ctx =
  cc_if_not_exist :: bool
  cc_keyspace :: "token_ctx option"
  cc_table :: "token_ctx option"
  cc_columns :: "column_definition_list_ctx option"

datatype constant_ctx =
    StringLiteral token_ctx
  | DecimalLiteral token_ctx
  | FloatLiteral token_ctx
  | BooleanLiteral bool
  | OtherConstant

datatype expression_ctx = Constant constant_ctx | OtherExpression

datatype insert_values_ctx = ExpressionList "expression_ctx list" | JsonValues

datatype batch_type_ctx = KwLogged | KwUnlogged | NoBatchType

record begin_batch_ctx =
  bb_type :: "batch_type_ctx option"
  bb_timestamp :: "wrapped_ctx option option"

record using_ttl_timestamp_ctx =
  ut_ttl :: "wrapped_ctx option"
  ut_timestamp :: "wrapped_ctx option"

record insert_ctx =
  ic_batch :: "begin_batch_ctx option"
  ic_keyspace :: "token_ctx option"
  ic_table :: "token_ctx option"
  ic_columns :: "token_ctx list option option"
  ic_values :: "insert_values_ctx option"
  ic_if_not_exist :: bool
  ic_using :: "using_ttl_timestamp_ctx option"

record select_element_ctx =
  ec_names :: "string list"
  ec_star :: bool

record select_elements_ctx =
  es_star :: bool
  es_elements :: "select_element_ctx list"

record relation_element_ctx =
  rc_names :: "string list"
  rc_op :: "operator option"
  rc_constant :: "constant_ctx option"

record order_element_ctx =
  oc_name :: "string option"
  oc_desc :: bool

record select_ctx =
  sx_distinct :: bool
  sx_json :: bool
  sx_elements :: "select_elements_ctx option"
  sx_from :: "string list option option"
  sx_where :: "relation_element_ctx list option option"
  sx_order :: "order_element_ctx option option"
  sx_limit :: "string option option"
  sx_allow_filtering :: bool

text \<open>
  A statement: one of the three kinds the visitor translates, another kind with its subtree, or, after
  a syntax error, none.
\<close>

datatype 'c cql_ctx =
    CreateTableCql create_table_ctx
  | InsertCql insert_ctx
  | SelectCql select_ctx
  | OtherCql statement_type 'c
  | NoCql

type_synonym 'c root_ctx = "'c cql_ctx list option"

section \<open>CREATE TABLE\<close>

definition visitDataTypeName :: "data_type_name_ctx option \<Rightarrow> data_type result" where
  "visitDataTypeName p = bindR (deref p) (\<lambda>ctx. case dn_keyword ctx of
     K_ASCII \<Rightarrow> bindR (token_text (dn_decimal ctx)) (\<lambda>s.
       Inr \<lparr>ty_id = T_ASCII, ty_length = ucast (strtoll s)\<rparr>)
   | K_BIGINT \<Rightarrow> Inr \<lparr>ty_id = T_BIGINT, ty_length = 8\<rparr>
   | K_BOOLEAN \<Rightarrow> Inr \<lparr>ty_id = T_BOOLEAN, ty_length = 1\<rparr>
   | K_DOUBLE \<Rightarrow> Inr \<lparr>ty_id = T_DOUBLE, ty_length = 8\<rparr>
   | K_FLOAT \<Rightarrow> Inr \<lparr>ty_id = T_FLOAT, ty_length = 4\<rparr>
   | K_INT \<Rightarrow> Inr \<lparr>ty_id = T_INT, ty_length = 4\<rparr>
   | K_SMALLINT \<Rightarrow> Inr \<lparr>ty_id = T_SMALLINT, ty_length = 2\<rparr>
   | K_TINYINT \<Rightarrow> Inr \<lparr>ty_id = T_TINYINT, ty_length = 1\<rparr>
   | K_BLOB \<Rightarrow> bindR (token_text (dn_decimal ctx)) (\<lambda>s.
       Inr \<lparr>ty_id = T_BLOB, ty_length = ucast (strtoll s)\<rparr>)
   | K_OTHER \<Rightarrow> Inl (unspported_cql_statement ''Unsupported Type''))"

definition visitDataType :: "data_type_name_ctx option option \<Rightarrow> data_type result" where
  "visitDataType p = bindR (deref p) visitDataTypeName"

definition visitColumnDefinition :: "column_definition_ctx \<Rightarrow> (field \<times> bool) result" where
  "visitColumnDefinition ctx =
     bindR (token_text (cd_column ctx)) (\<lambda>column.
     bindR (visitDataType (cd_data_type ctx)) (\<lambda>t.
       Inr (\<lparr>fd_name = column, fd_type = t\<rparr>, cd_primary ctx)))"

definition visitPrimaryKeyDefinition :: "primary_key_ctx option \<Rightarrow> (string \<times> string) result" where
  "visitPrimaryKeyDefinition p = bindR (deref p) (\<lambda>ctx. case ctx of
     SinglePrimaryKey c \<Rightarrow> bindR (token_text c) (\<lambda>column. Inr (column, column))
   | CompoundKey pkey clustering \<Rightarrow>
       bindR (wrapped_text pkey) (\<lambda>partition_column.
       bindR (deref clustering) (\<lambda>keys.
       bindR (vec_at keys 0) (\<lambda>k.
       bindR (token_text k) (\<lambda>cluster_column. Inr (partition_column, cluster_column)))))
   | CompositeKey pkey clustering \<Rightarrow>
       bindR (deref pkey) (\<lambda>keys.
       bindR (vec_at keys 0) (\<lambda>k.
       bindR (token_text k) (\<lambda>partition_column.
       bindR (deref clustering) (\<lambda>keys.
       bindR (vec_at keys 0) (\<lambda>k.
       bindR (token_text k) (\<lambda>cluster_column. Inr (partition_column, cluster_column)))))))
   | NoKey \<Rightarrow> Inr ('''', ''''))"

text \<open>The loop over the column definitions, with the index \<open>i\<close>.\<close>

fun visit_columns :: "u64 \<Rightarrow> column_definition_ctx list \<Rightarrow> schema \<Rightarrow> schema result" where
  "visit_columns i [] schema = Inr schema"
| "visit_columns i (c # cs) schema =
     bindR (visitColumnDefinition c) (\<lambda>res.
       let schema = Schema_push_back (fst res) schema;
           schema = (if snd res then set_sort_key_index i (set_partition_key_index i schema) else schema)
       in visit_columns (i + 1) cs schema)"

text \<open>The loop that looks the two key columns up by name; \<open>fs\<close> are the fields from index \<open>i\<close> on.\<close>

fun set_keys :: "string \<Rightarrow> string \<Rightarrow> u64 \<Rightarrow> field list \<Rightarrow> schema \<Rightarrow> schema" where
  "set_keys partition_column cluster_column i [] schema = schema"
| "set_keys partition_column cluster_column i (f # fs) schema =
     (let schema = (if fd_name f = partition_column then set_partition_key_index i schema else schema);
          schema = (if fd_name f = cluster_column then set_sort_key_index i schema else schema)
      in set_keys partition_column cluster_column (i + 1) fs schema)"

definition visitColumnDefinitionList :: "column_definition_list_ctx option \<Rightarrow> schema result" where
  "visitColumnDefinitionList p = bindR (deref p) (\<lambda>ctx.
     bindR (visit_columns 0 (cl_columns ctx)
              \<lparr>sc_sort_key_index = 0, sc_partition_key_index = 0, sc_fields = []\<rparr>) (\<lambda>schema.
       case cl_primary_key ctx of
         None \<Rightarrow> Inr schema
       | Some key \<Rightarrow>
           bindR (visitPrimaryKeyDefinition key) (\<lambda>(partition_column, cluster_column).
             Inr (set_keys partition_column cluster_column 0 (sc_fields schema) schema))))"

text \<open>The optional keyspace of a statement.\<close>

definition keyspace_text :: "token_ctx option \<Rightarrow> string result" where
  "keyspace_text p = (case p of None \<Rightarrow> Inr '''' | Some k \<Rightarrow> deref k)"

definition visitCreateTable :: "create_table_ctx \<Rightarrow> create_table_statement result" where
  "visitCreateTable ctx =
     bindR (keyspace_text (cc_keyspace ctx)) (\<lambda>keyspace.
     bindR (token_text (cc_table ctx)) (\<lambda>table.
     bindR (visitColumnDefinitionList (cc_columns ctx)) (\<lambda>schema.
       Inr \<lparr>ct_if_not_exists = Some (cc_if_not_exist ctx), ct_keyspace = keyspace, ct_table = table,
            ct_schema = schema\<rparr>)))"

section \<open>INSERT\<close>

definition visitBeginBatch :: "begin_batch_ctx \<Rightarrow> batch result" where
  "visitBeginBatch ctx =
     (let batch = Batch_new\<lparr>ba_valid := Some True\<rparr>;
          batch = (case bb_type ctx of
                     Some KwLogged \<Rightarrow> batch\<lparr>ba_type := Some LOGGED\<rparr>
                   | Some KwUnlogged \<Rightarrow> batch\<lparr>ba_type := Some UNLOGGED\<rparr>
                   | _ \<Rightarrow> batch)
      in case bb_timestamp ctx of
           None \<Rightarrow> Inr batch
         | Some t \<Rightarrow> bindR (wrapped_text t) (\<lambda>s.
             Inr (batch\<lparr>ba_timestamp_spec := TimestampSpec_of (strtoll s)\<rparr>)))"

fun visitColumnList :: "token_ctx list \<Rightarrow> string list result" where
  "visitColumnList [] = Inr []"
| "visitColumnList (c # cs) = bindR (deref c) (\<lambda>s. bindR (visitColumnList cs) (\<lambda>ss. Inr (s # ss)))"

definition visitInsertColumnSpec :: "token_ctx list option \<Rightarrow> string list result" where
  "visitInsertColumnSpec p = bindR (deref p) visitColumnList"

fun visitConstant :: "constant_ctx \<Rightarrow> data result" where
  "visitConstant (StringLiteral t) = bindR (deref t) (\<lambda>s. Inr (ASCIIData s))"
| "visitConstant (DecimalLiteral t) = bindR (deref t) (\<lambda>s. Inr (IntData (ucast (strtoll s))))"
| "visitConstant (FloatLiteral t) = bindR (deref t) (\<lambda>s. Inr (DoubleData (strtold_double s)))"
| "visitConstant (BooleanLiteral k_true) = Inr (BooleanData k_true)"
| "visitConstant OtherConstant = Inl (unspported_cql_statement ''Unsupported Data Type'')"

fun visitExpression :: "expression_ctx \<Rightarrow> data result" where
  "visitExpression (Constant c) = visitConstant c"
| "visitExpression OtherExpression =
     Inl (unspported_cql_statement ''Only Constants are Supported at the moment'')"

fun visitExpressionList :: "expression_ctx list \<Rightarrow> dptr list result" where
  "visitExpressionList [] = Inr []"
| "visitExpressionList (e # es) =
     bindR (visitExpression e) (\<lambda>d. bindR (visitExpressionList es) (\<lambda>ds. Inr (Some d # ds)))"

definition visitInsertValuesSpec :: "insert_values_ctx option \<Rightarrow> dptr list result" where
  "visitInsertValuesSpec p = bindR (deref p) (\<lambda>ctx. case ctx of
     ExpressionList es \<Rightarrow> visitExpressionList es
   | JsonValues \<Rightarrow> Inl (unspported_cql_statement ''JSON is Unsupported''))"

text \<open>The number after \<^verbatim>\<open>TIMESTAMP\<close> is assigned to \<^verbatim>\<open>m_ttl\<close> too.\<close>

definition visitUsingTtlTimestamp :: "using_ttl_timestamp_ctx option \<Rightarrow> ttl_timestamp result" where
  "visitUsingTtlTimestamp p = bindR (deref p) (\<lambda>ctx.
     bindR (case ut_ttl ctx of
              None \<Rightarrow> Inr TtlTimestamp_new
            | Some t \<Rightarrow> bindR (token_text t) (\<lambda>s.
                Inr (TtlTimestamp_new\<lparr>tt_ttl_valid := True, tt_ttl := Some (strtoll s)\<rparr>))) (\<lambda>ttl_timestamp.
       case ut_timestamp ctx of
         None \<Rightarrow> Inr ttl_timestamp
       | Some t \<Rightarrow> bindR (token_text t) (\<lambda>s.
           Inr (ttl_timestamp\<lparr>tt_timestamp_valid := True, tt_ttl := Some (strtoll s)\<rparr>))))"

definition visitInsert :: "insert_ctx \<Rightarrow> insert_statement result" where
  "visitInsert ctx =
     bindR (case ic_batch ctx of None \<Rightarrow> Inr Batch_new | Some b \<Rightarrow> visitBeginBatch b) (\<lambda>batch.
     bindR (keyspace_text (ic_keyspace ctx)) (\<lambda>keyspace.
     bindR (token_text (ic_table ctx)) (\<lambda>table.
     bindR (case ic_columns ctx of None \<Rightarrow> Inr [] | Some c \<Rightarrow> visitInsertColumnSpec c) (\<lambda>columns.
     bindR (visitInsertValuesSpec (ic_values ctx)) (\<lambda>values.
     bindR (visitUsingTtlTimestamp (ic_using ctx)) (\<lambda>ttl_timestamp.
       Inr \<lparr>in_batch = batch, in_keyspace = keyspace, in_table = table, in_columns = columns,
            in_values = values, in_if_not_exists = Some (ic_if_not_exist ctx),
            in_ttl_timestamp = ttl_timestamp\<rparr>))))))"

section \<open>SELECT\<close>

definition visitSelectElement :: "select_element_ctx \<Rightarrow> select_element result" where
  "visitSelectElement ctx =
     bindR (deref (token_at (ec_names ctx) 0)) (\<lambda>name.
       Inr \<lparr>se_name = name, se_star = ec_star ctx,
            se_alias = (case token_at (ec_names ctx) 1 of None \<Rightarrow> '''' | Some a \<Rightarrow> a)\<rparr>)"

fun visit_select_elements :: "select_element_ctx list \<Rightarrow> select_element list result" where
  "visit_select_elements [] = Inr []"
| "visit_select_elements (e # es) =
     bindR (visitSelectElement e) (\<lambda>x. bindR (visit_select_elements es) (\<lambda>xs. Inr (x # xs)))"

definition visitSelectElements :: "select_elements_ctx option \<Rightarrow> select_elements result" where
  "visitSelectElements p = bindR (deref p) (\<lambda>ctx.
     bindR (visit_select_elements (es_elements ctx)) (\<lambda>xs.
       Inr \<lparr>ses_star = es_star ctx, ses_elements = xs\<rparr>))"

definition visitFromSpec :: "string list option option \<Rightarrow> from_spec result" where
  "visitFromSpec p = bindR (deref p) (\<lambda>e. bindR (deref e) (\<lambda>names.
     case token_at names 1 of
       Some t \<Rightarrow> bindR (deref (token_at names 0)) (\<lambda>k. Inr \<lparr>fr_keyspace = k, fr_table = t\<rparr>)
     | None \<Rightarrow> bindR (deref (token_at names 0)) (\<lambda>t. Inr \<lparr>fr_keyspace = '''', fr_table = t\<rparr>)))"

definition visitRelationElement :: "relation_element_ctx \<Rightarrow> relation_element result" where
  "visitRelationElement ctx =
     bindR (case token_at (rc_names ctx) 1 of
              Some c \<Rightarrow> Inr c
            | None \<Rightarrow> deref (token_at (rc_names ctx) 0)) (\<lambda>column.
     bindR (bindR (deref (rc_constant ctx)) visitConstant) (\<lambda>d.
       RelationElement_copy \<lparr>re_column = column,
         re_op = (case rc_op ctx of None \<Rightarrow> OP_EQ | Some op \<Rightarrow> op), re_operand = Some d\<rparr>))"

fun visit_relation_elements :: "relation_element_ctx list \<Rightarrow> where_spec result" where
  "visit_relation_elements [] = Inr []"
| "visit_relation_elements (e # es) =
     bindR (visitRelationElement e) (\<lambda>x.
     bindR (RelationElement_copy x) (\<lambda>x.
     bindR (visit_relation_elements es) (\<lambda>xs. Inr (x # xs))))"

definition visitWhereSpec :: "relation_element_ctx list option \<Rightarrow> where_spec result" where
  "visitWhereSpec p = bindR (deref p) visit_relation_elements"

definition visitOrderSpecElement :: "order_element_ctx option \<Rightarrow> order_spec result" where
  "visitOrderSpecElement p = bindR (deref p) (\<lambda>ctx.
     bindR (deref (oc_name ctx)) (\<lambda>column.
       Inr \<lparr>or_valid = True, or_column = column, or_ascending = Some (\<not> oc_desc ctx)\<rparr>))"

definition visitOrderSpec :: "order_element_ctx option \<Rightarrow> order_spec result" where
  "visitOrderSpec e = visitOrderSpecElement e"

text \<open>
  Members without a clause in the statement keep no value (the flags and the limit) or their default.
\<close>

definition visitSelect :: "select_ctx \<Rightarrow> select_statement result" where
  "visitSelect ctx =
     bindR (visitSelectElements (sx_elements ctx)) (\<lambda>elements.
     bindR (visitFromSpec (sx_from ctx)) (\<lambda>from_spec.
     bindR (case sx_where ctx of None \<Rightarrow> Inr [] | Some w \<Rightarrow> visitWhereSpec w) (\<lambda>where_spec.
     bindR (case sx_order ctx of None \<Rightarrow> Inr OrderSpec_new | Some e \<Rightarrow> visitOrderSpec e) (\<lambda>order_spec.
     bindR (case sx_limit ctx of None \<Rightarrow> Inr None | Some l \<Rightarrow> bindR (deref l) (\<lambda>s. Inr (Some (strtoll s)))) (\<lambda>limit.
       Inr \<lparr>sl_distinct = (if sx_distinct ctx then Some True else None),
            sl_json = (if sx_json ctx then Some True else None),
            sl_select_elements = elements, sl_from_spec = from_spec, sl_where_spec = where_spec,
            sl_order_spec = order_spec, sl_limit = limit,
            sl_allow_filtering = (if sx_allow_filtering ctx then Some True else None)\<rparr>)))))"

section \<open>Statements and programs\<close>

text \<open>
  The statements without a visitor method go to the generated visitor, which visits the children and
  returns a value that is no statement: \<open>base_visitor\<close> is the exception it throws on the way, if it
  throws one. Casting its value to a statement throws \<^verbatim>\<open>std::bad_cast\<close>.
\<close>

definition visitCql ::
  "(statement_type \<Rightarrow> 'c \<Rightarrow> error option) \<Rightarrow> 'c cql_ctx \<Rightarrow> statement option result" where
  "visitCql base_visitor ctx = (case ctx of
     CreateTableCql c \<Rightarrow> bindR (visitCreateTable c) (\<lambda>st. Inr (Some (CreateTable st)))
   | InsertCql c \<Rightarrow> bindR (visitInsert c) (\<lambda>st. Inr (Some (Insert st)))
   | SelectCql c \<Rightarrow> bindR (visitSelect c) (\<lambda>st. Inr (Some (Select st)))
   | OtherCql t c \<Rightarrow> (case base_visitor t c of Some e \<Rightarrow> Inl e | None \<Rightarrow> Inr None)
   | NoCql \<Rightarrow> Inl unknown_cql_statement)"

fun visitCqls ::
  "(statement_type \<Rightarrow> 'c \<Rightarrow> error option) \<Rightarrow> 'c cql_ctx list \<Rightarrow> statement list result" where
  "visitCqls base_visitor [] = Inr []"
| "visitCqls base_visitor (c # cs) =
     bindR (visitCql base_visitor c) (\<lambda>any. case any of
       None \<Rightarrow> Inl bad_cast
     | Some st \<Rightarrow> bindR (visitCqls base_visitor cs) (\<lambda>sts. Inr (st # sts)))"

definition visitRoot ::
  "(statement_type \<Rightarrow> 'c \<Rightarrow> error option) \<Rightarrow> 'c root_ctx \<Rightarrow> statement list result" where
  "visitRoot base_visitor ctx = (case ctx of None \<Rightarrow> Inr [] | Some cs \<Rightarrow> visitCqls base_visitor cs)"

text \<open>
  The program \<^verbatim>\<open>src/lang.cc\<close> on the parse tree of its input: all statements are translated
  before the first one runs, and the destructor of the database writes the metadata at the end. The
  result is that of the program, the lines printed and the files.
\<close>

definition lang_main ::
  "(string \<Rightarrow> nat \<Rightarrow> byte) \<Rightarrow> (statement_type \<Rightarrow> 'c \<Rightarrow> error option) \<Rightarrow> 'c root_ctx \<Rightarrow> fs \<Rightarrow>
     (unit result \<times> string list \<times> fs) option" where
  "lang_main junk base_visitor tree f = (case visitRoot base_visitor tree of
     Inl e \<Rightarrow> Some (Inl e, [], f)
   | Inr statements \<Rightarrow> (case Database_new junk ''database'' f of
       None \<Rightarrow> None
     | Some (Inl e, f) \<Rightarrow> Some (Inl e, [], f)
     | Some (Inr db, f) \<Rightarrow> (case run_statements junk statements ((db, f), []) of
         (Inl e, ((db, f), out)) \<Rightarrow> Some (Inl e, out, f)
       | (Inr u, ((db, f), out)) \<Rightarrow> (case flush_metadata db f of (r, f) \<Rightarrow> Some (r, out, f)))))"

section \<open>Schemas\<close>

text \<open>The columns a list of contexts stands for, with the inline key marks.\<close>

abbreviation columns_parsed :: "column_definition_ctx list \<Rightarrow> (field \<times> bool) list \<Rightarrow> bool" where
  "columns_parsed cs rs \<equiv> list_all2 (\<lambda>c r. visitColumnDefinition c = Inr r) cs rs"

text \<open>The index that remains after assigning, in order, every index that satisfies \<open>P\<close>.\<close>

fun last_index :: "('a \<Rightarrow> bool) \<Rightarrow> u64 \<Rightarrow> 'a list \<Rightarrow> u64 \<Rightarrow> u64" where
  "last_index P i [] d = d"
| "last_index P i (x # xs) d = last_index P (i + 1) xs (if P x then i else d)"

lemma last_index_none: "\<forall>x \<in> set xs. \<not> P x \<Longrightarrow> last_index P i xs d = d"
  by (induction xs arbitrary: i d) simp_all

lemma last_index_at:
  "k < length xs \<Longrightarrow> P (xs ! k) \<Longrightarrow> \<forall>j. k < j \<and> j < length xs \<longrightarrow> \<not> P (xs ! j) \<Longrightarrow>
    last_index P i xs d = i + of_nat k"
proof (induction xs arbitrary: i d k)
  case (Cons x xs)
  show ?case
  proof (cases k)
    case 0
    then have "\<forall>y \<in> set xs. \<not> P y" using Cons.prems(3) by (force simp: in_set_conv_nth)
    then show ?thesis using 0 Cons.prems(2) by (simp add: last_index_none)
  next
    case (Suc k')
    have later: "\<forall>j. k' < j \<and> j < length xs \<longrightarrow> \<not> P (xs ! j)"
      using Cons.prems(3) [rule_format, of "Suc _"] Suc by simp
    have "last_index P (i + 1) xs d' = i + 1 + of_nat k'" for d'
      using Cons.IH [OF _ _ later, of "i + 1" d'] Cons.prems(1,2) Suc by simp
    then show ?thesis using Suc by simp
  qed
qed simp

lemma visit_columns_eq:
  "columns_parsed cs rs \<Longrightarrow> visit_columns i cs s =
     Inr (s\<lparr>sc_sort_key_index := last_index snd i rs (sc_sort_key_index s),
            sc_fields := sc_fields s @ map fst rs\<rparr>)"
  by (induction cs rs arbitrary: i s rule: list_all2_induct)
    (simp_all add: Schema_push_back_def set_sort_key_index_def set_partition_key_index_def)

lemma set_keys_eq:
  "set_keys p c i fs s =
     s\<lparr>sc_sort_key_index := last_index (\<lambda>f. fd_name f = p \<or> fd_name f = c) i fs (sc_sort_key_index s)\<rparr>"
  by (induction fs arbitrary: i s) (simp_all add: Let_def set_sort_key_index_def set_partition_key_index_def)

lemma visitColumnDefinitionList_eq:
  assumes "columns_parsed (cl_columns ctx) rs" "cl_primary_key ctx = Some key"
    "visitPrimaryKeyDefinition key = Inr (p, c)"
    "k < length rs" "fd_name (fst (rs ! k)) \<in> {p, c}"
    "\<forall>j. k < j \<and> j < length rs \<longrightarrow> fd_name (fst (rs ! j)) \<notin> {p, c}"
  shows "visitColumnDefinitionList (Some ctx) =
    Inr \<lparr>sc_sort_key_index = of_nat k, sc_partition_key_index = 0, sc_fields = map fst rs\<rparr>"
  using assms last_index_at [of k "map fst rs" "\<lambda>f. fd_name f = p \<or> fd_name f = c" 0]
  by (auto simp: visitColumnDefinitionList_def visit_columns_eq set_keys_eq)

section \<open>Values and statements\<close>

text \<open>Tokens shorter than \<open>2 ^ 31\<close> characters.\<close>

fun constant_short :: "constant_ctx \<Rightarrow> bool" where
  "constant_short (StringLiteral (Some s)) = (length s < 2 ^ 31)"
| "constant_short _ = True"

fun expression_short :: "expression_ctx \<Rightarrow> bool" where
  "expression_short (Constant c) = constant_short c"
| "expression_short OtherExpression = True"

lemma visitConstant_ok: "visitConstant c = Inr d \<Longrightarrow> constant_short c \<Longrightarrow> data_ok d"
  by (cases c) (auto simp: bindR_eq_Inr)

lemma visitExpressionList_ok:
  "visitExpressionList es = Inr vs \<Longrightarrow> \<forall>e \<in> set es. expression_short e \<Longrightarrow> \<forall>p \<in> set vs. value_ok p"
proof (induction es arbitrary: vs)
  case (Cons e es)
  then obtain d ds where d: "visitExpression e = Inr d" "visitExpressionList es = Inr ds" "vs = Some d # ds"
    by (auto simp: bindR_eq_Inr)
  have "data_ok d" using d(1) Cons.prems(2) visitConstant_ok by (cases e) auto
  then show ?case using d Cons by (simp add: value_ok_def)
qed simp

lemma RelationElement_copy_eq:
  "value_ok (re_operand e) \<Longrightarrow> RelationElement_copy e = Inr e"
  by (auto elim!: value_okE simp: RelationElement_copy_def Data_copy_eq)

lemma visitRelationElement_ok:
  assumes "visitRelationElement ctx = Inr e" "\<forall>c. rc_constant ctx = Some c \<longrightarrow> constant_short c"
  shows "\<exists>c d. rc_constant ctx = Some c \<and> visitConstant c = Inr d \<and> re_operand e = Some d \<and> data_ok d"
proof -
  obtain column c d where c: "rc_constant ctx = Some c" "visitConstant c = Inr d"
      "RelationElement_copy \<lparr>re_column = column,
         re_op = (case rc_op ctx of None \<Rightarrow> OP_EQ | Some op \<Rightarrow> op), re_operand = Some d\<rparr> = Inr e"
    using assms(1) by (auto simp: visitRelationElement_def bindR_eq_Inr)
  moreover have "data_ok d" using c assms(2) visitConstant_ok by blast
  ultimately show ?thesis by (auto simp: RelationElement_copy_eq value_ok_def)
qed

lemma visit_relation_elements_ok:
  assumes "visit_relation_elements (x # xs) = Inr es" "\<forall>c. rc_constant x = Some c \<longrightarrow> constant_short c"
  shows "\<exists>c d. es \<noteq> [] \<and> rc_constant x = Some c \<and> visitConstant c = Inr d \<and> re_operand (hd es) = Some d \<and> data_ok d"
proof -
  obtain e e' ys where e: "visitRelationElement x = Inr e" "RelationElement_copy e = Inr e'" "es = e' # ys"
    using assms(1) by (auto simp: bindR_eq_Inr)
  obtain c d where c: "rc_constant x = Some c" "visitConstant c = Inr d" "re_operand e = Some d" "data_ok d"
    using visitRelationElement_ok [OF e(1) assms(2)] by blast
  moreover have "e' = e" using e(2) c by (simp add: RelationElement_copy_eq value_ok_def)
  ultimately show ?thesis using e(3) by simp
qed

section \<open>Properties\<close>

text \<open>
  The schema of a \<^verbatim>\<open>CREATE TABLE\<close> with one key column, marked inline or in a
  \<^verbatim>\<open>PRIMARY KEY\<close> element: the columns in order, and the sort key at the key column. The
  partition key index is 0 whatever the column.
\<close>

theorem single_key_schema:
  assumes "columns_parsed (cl_columns ctx) rs" "k < length rs" "distinct (map (\<lambda>r. fd_name (fst r)) rs)"
    "cl_primary_key ctx = Some (Some (SinglePrimaryKey (Some (Some (fd_name (fst (rs ! k))))))) \<or>
     cl_primary_key ctx = None \<and> (\<forall>j < length rs. snd (rs ! j) = (j = k))"
  shows "visitColumnDefinitionList (Some ctx) =
    Inr \<lparr>sc_sort_key_index = of_nat k, sc_partition_key_index = 0, sc_fields = map fst rs\<rparr>"
  using assms(4)
proof
  assume key: "cl_primary_key ctx = Some (Some (SinglePrimaryKey (Some (Some (fd_name (fst (rs ! k)))))))"
  have "visitPrimaryKeyDefinition (Some (SinglePrimaryKey (Some (Some (fd_name (fst (rs ! k))))))) =
      Inr (fd_name (fst (rs ! k)), fd_name (fst (rs ! k)))"
    by (simp add: visitPrimaryKeyDefinition_def token_text_def)
  moreover have "\<forall>j. k < j \<and> j < length rs \<longrightarrow> fd_name (fst (rs ! j)) \<noteq> fd_name (fst (rs ! k))"
    using assms(2,3) by (auto simp: distinct_conv_nth)
  ultimately show ?thesis using visitColumnDefinitionList_eq [OF assms(1) key _ assms(2)] by simp
next
  assume "cl_primary_key ctx = None \<and> (\<forall>j < length rs. snd (rs ! j) = (j = k))"
  then show ?thesis
    using last_index_at [of k rs snd 0] assms(1,2)
    by (simp add: visitColumnDefinitionList_def visit_columns_eq)
qed

definition int_column :: "string \<Rightarrow> column_definition_ctx" where
  "int_column n = \<lparr>cd_column = Some (Some n),
     cd_data_type = Some (Some \<lparr>dn_keyword = K_INT, dn_decimal = None\<rparr>), cd_primary = False\<rparr>"

definition ascii_column :: "string \<Rightarrow> string \<Rightarrow> column_definition_ctx" where
  "ascii_column n len = \<lparr>cd_column = Some (Some n),
     cd_data_type = Some (Some \<lparr>dn_keyword = K_ASCII, dn_decimal = Some (Some len)\<rparr>), cd_primary = False\<rparr>"

definition int_field :: "string \<Rightarrow> field" where
  "int_field n = \<lparr>fd_name = n, fd_type = \<lparr>ty_id = T_INT, ty_length = 4\<rparr>\<rparr>"

lemma int_column_parsed: "visitColumnDefinition (int_column n) = Inr (int_field n, False)"
  by (simp add: visitColumnDefinition_def int_column_def int_field_def visitDataType_def
      visitDataTypeName_def token_text_def)

theorem single_key_schema_witness:
  "visitColumnDefinitionList (Some \<lparr>cl_columns = [int_column ''a'', int_column ''b''],
      cl_primary_key = Some (Some (SinglePrimaryKey (Some (Some ''b''))))\<rparr>) =
    Inr \<lparr>sc_sort_key_index = 1, sc_partition_key_index = 0, sc_fields = [int_field ''a'', int_field ''b'']\<rparr>"
  using single_key_schema [of "\<lparr>cl_columns = [int_column ''a'', int_column ''b''],
      cl_primary_key = Some (Some (SinglePrimaryKey (Some (Some ''b''))))\<rparr>"
      "[(int_field ''a'', False), (int_field ''b'', False)]" 1]
  by (simp add: int_column_parsed) (simp add: int_field_def)

text \<open>
  With a compound or composite key the sort key is the later declared of the partition and
  the clustering column, because the setter of the partition key assigns the sort key too: a table that
  declares its clustering column first is sorted by the partition column.
\<close>

theorem compound_key_sort_index:
  assumes "columns_parsed (cl_columns ctx) rs" "distinct (map (\<lambda>r. fd_name (fst r)) rs)"
    "cl_primary_key ctx = Some key" "visitPrimaryKeyDefinition key = Inr (p, c)"
    "i < length rs" "fd_name (fst (rs ! i)) = p" "j < length rs" "fd_name (fst (rs ! j)) = c"
  shows "visitColumnDefinitionList (Some ctx) =
    Inr \<lparr>sc_sort_key_index = of_nat (max i j), sc_partition_key_index = 0, sc_fields = map fst rs\<rparr>"
proof -
  have "fd_name (fst (rs ! k)) \<noteq> p \<and> fd_name (fst (rs ! k)) \<noteq> c" if "max i j < k" "k < length rs" for k
    using that assms(2,5-8) by (auto simp: distinct_conv_nth)
  then show ?thesis
    using visitColumnDefinitionList_eq [OF assms(1,3,4), of "max i j"] assms(5-8) by (auto simp: max_def)
qed

theorem compound_key_sort_index_witness:
  "visitColumnDefinitionList (Some \<lparr>cl_columns = [int_column ''c'', int_column ''p''],
      cl_primary_key = Some (Some (CompoundKey (Some (Some (Some ''p''))) (Some [Some (Some ''c'')])))\<rparr>) =
    Inr \<lparr>sc_sort_key_index = 1, sc_partition_key_index = 0, sc_fields = [int_field ''c'', int_field ''p'']\<rparr>"
  using compound_key_sort_index [of "\<lparr>cl_columns = [int_column ''c'', int_column ''p''],
      cl_primary_key = Some (Some (CompoundKey (Some (Some (Some ''p''))) (Some [Some (Some ''c'')])))\<rparr>"
      "[(int_field ''c'', False), (int_field ''p'', False)]" _ "''p''" "''c''" 1 0]
  by (simp add: int_column_parsed visitPrimaryKeyDefinition_def wrapped_text_def token_text_def)
    (simp add: int_field_def)

text \<open>
  An \<^verbatim>\<open>INSERT\<close> that is translated with a \<^verbatim>\<open>USING\<close> clause dereferences
  a null pointer without it.
\<close>

theorem insert_needs_using:
  assumes "visitInsert (ctx\<lparr>ic_using := Some u\<rparr>) = Inr st"
  shows "visitInsert (ctx\<lparr>ic_using := None\<rparr>) = Inl Undefined_Behaviour"
  using assms by (auto simp: visitInsert_def bindR_eq_Inr visitUsingTtlTimestamp_def)

definition example_insert_ctx :: insert_ctx where
  "example_insert_ctx = \<lparr>ic_batch = None, ic_keyspace = None, ic_table = Some (Some ''t''), ic_columns = None,
     ic_values = Some (ExpressionList [Constant (DecimalLiteral (Some ''42'')),
       Constant (StringLiteral (Some [CHR 0x27, CHR ''a'', CHR 0x27]))]),
     ic_if_not_exist = False, ic_using = Some \<lparr>ut_ttl = Some (Some (Some ''7'')), ut_timestamp = None\<rparr>\<rparr>"

lemma strtoll_examples: "strtoll ''42'' = 42" "strtoll ''7'' = 7" "strtoll ''3'' = 3"
  by code_simp+

lemma example_insert_visited: "visitInsert example_insert_ctx = Inr (InsertStatement_new\<lparr>in_table := ''t'',
    in_values := [Some (IntData 42), Some (ASCIIData [CHR 0x27, CHR ''a'', CHR 0x27])],
    in_if_not_exists := Some False, in_ttl_timestamp := from_ttl 7\<rparr>)"
  by (simp add: visitInsert_def example_insert_ctx_def visitUsingTtlTimestamp_def visitInsertValuesSpec_def
      token_text_def keyspace_text_def InsertStatement_new_def from_ttl_def strtoll_examples)

theorem insert_needs_using_witness:
  "visitInsert (example_insert_ctx\<lparr>ic_using := None\<rparr>) = Inl Undefined_Behaviour"
  using insert_needs_using [where ctx = example_insert_ctx and u = "\<lparr>ut_ttl = Some (Some (Some ''7'')), ut_timestamp = None\<rparr>"]
    example_insert_visited by (simp add: example_insert_ctx_def)

text \<open>
  The \<^verbatim>\<open>USING\<close> clause. A time to live alone is kept; a timestamp is stored as the
  time to live, replacing it, while the timestamp itself keeps no value.
\<close>

theorem using_ttl_timestamp:
  "visitUsingTtlTimestamp (Some \<lparr>ut_ttl = Some (Some (Some a)), ut_timestamp = None\<rparr>) = Inr (from_ttl (strtoll a)) \<and>
   visitUsingTtlTimestamp (Some \<lparr>ut_ttl = None, ut_timestamp = Some (Some (Some b))\<rparr>) =
     Inr ((from_timestamp (strtoll b))\<lparr>tt_ttl := Some (strtoll b), tt_timestamp := None\<rparr>) \<and>
   visitUsingTtlTimestamp (Some \<lparr>ut_ttl = Some (Some (Some a)), ut_timestamp = Some (Some (Some b))\<rparr>) =
     Inr ((from_ttl_and_timestamp (strtoll a) (strtoll b))\<lparr>tt_ttl := Some (strtoll b), tt_timestamp := None\<rparr>)"
  by (simp add: visitUsingTtlTimestamp_def token_text_def from_ttl_def from_timestamp_def
      from_ttl_and_timestamp_def TtlTimestamp_new_def)

lemma ucast_of_nat_64_32: "(ucast (of_nat n :: u64) :: u32) = of_nat n"
  by (simp add: unsigned_of_nat word_of_nat_eq_iff)

lemma of_nat_u32_eq: "m < 2 ^ 32 \<Longrightarrow> n < 2 ^ 32 \<Longrightarrow> (of_nat m :: u32) = of_nat n \<longleftrightarrow> m = n"
  by (simp add: word_of_nat_eq_iff take_bit_nat_eq_self)

lemma visit_numeral:
  assumes "n < 2 ^ 63"
  shows "visitConstant (DecimalLiteral (Some (to_string_nat n))) = Inr (IntData (of_nat n))"
proof -
  have "c_integer (to_string_nat n) = int n" by (rule c_integer_to_string_nat)
  then have "strtoll (to_string_nat n) = word_of_int (int n)" using assms by (simp add: strtoll_small)
  moreover have "(ucast (word_of_int (int n) :: u64) :: u32) = of_nat n"
    by (simp add: ucast_of_nat_64_32)
  ultimately show ?thesis by simp
qed

text \<open>
  Integer constants. The decimal numeral of a number below \<open>2 ^ 31\<close> gives a value that
  prints as the numeral itself; from \<open>2 ^ 31\<close> on the value wraps around modulo \<open>2 ^ 32\<close> without an
  error, so that it prints differently.
\<close>

theorem integer_constants:
  assumes "n < 2 ^ 63"
  shows "\<exists>d. visitConstant (DecimalLiteral (Some (to_string_nat n))) = Inr d \<and>
    (Data_print d = Inr (to_string_nat n) \<longleftrightarrow> n < 2 ^ 31)"
proof -
  let ?w = "of_nat n :: u32"
  have "to_string_int (sint ?w) = to_string_nat n \<longleftrightarrow> n < 2 ^ 31"
  proof
    assume "to_string_int (sint ?w) = to_string_nat n"
    then have "sint ?w = int n" using c_integer_to_string c_integer_to_string_nat by metis
    then show "n < 2 ^ 31" using sint_lt [of ?w] by simp
  next
    assume "n < 2 ^ 31"
    then have "sint ?w = int n" by (simp add: sint_of_nat_small)
    then show "to_string_int (sint ?w) = to_string_nat n" by (simp add: to_string_int_def)
  qed
  then show ?thesis using visit_numeral [OF assms] by simp
qed

theorem integer_constants_witness:
  "\<exists>d. visitConstant (DecimalLiteral (Some (to_string_nat 3000000000))) = Inr d \<and>
    Data_print d \<noteq> Inr (to_string_nat 3000000000)"
  using integer_constants [of 3000000000] by auto

text \<open>
  A string constant keeps its quotes: the literal \<open>'s'\<close> is accepted by a column
  \<^verbatim>\<open>ASCII(n)\<close> exactly when \<open>n\<close> is two more than the length of \<open>s\<close>, and it prints with
  the quotes.
\<close>

definition quoted :: "string \<Rightarrow> string" where
  "quoted s = CHR 0x27 # s @ [CHR 0x27]"

theorem string_constants_quoted:
  assumes "n < 2 ^ 32" "length s + 2 < 2 ^ 32"
  shows "\<exists>t d. visitDataTypeName (Some \<lparr>dn_keyword = K_ASCII, dn_decimal = Some (Some (to_string_nat n))\<rparr>) = Inr t \<and>
    visitConstant (StringLiteral (Some (quoted s))) = Inr d \<and> Data_print d = Inr (quoted s) \<and>
    (Type_eq (type_of d) t \<longleftrightarrow> n = length s + 2)"
proof -
  have "c_integer (to_string_nat n) = int n" by (rule c_integer_to_string_nat)
  then have "strtoll (to_string_nat n) = of_nat n" using assms by (simp add: strtoll_small)
  moreover have "(of_nat (length s + 2) :: u32) = of_nat n \<longleftrightarrow> length s + 2 = n"
    using assms by (intro of_nat_u32_eq) simp_all
  moreover have "length (quoted s) = length s + 2" by (simp add: quoted_def)
  ultimately have "Type_eq (type_of (ASCIIData (quoted s))) \<lparr>ty_id = T_ASCII, ty_length = ucast (strtoll (to_string_nat n))\<rparr> \<longleftrightarrow>
      n = length s + 2"
    by (auto simp add: Type_eq_iff ucast_of_nat_64_32 simp del: of_nat_add)
  then show ?thesis by (auto simp: visitDataTypeName_def token_text_def)
qed

theorem string_constants_quoted_witness:
  "\<exists>t d. visitDataTypeName (Some \<lparr>dn_keyword = K_ASCII, dn_decimal = Some (Some (to_string_nat 3))\<rparr>) = Inr t \<and>
    visitConstant (StringLiteral (Some (quoted ''ada''))) = Inr d \<and> \<not> Type_eq (type_of d) t"
  using string_constants_quoted [of 3 "''ada''"] by auto

definition printed :: "row \<Rightarrow> string list \<Rightarrow> bool" where
  "printed r ls \<longleftrightarrow> list_all2 (\<lambda>p l. \<exists>d. p = Some d \<and> Data_print d = Inr l) r ls"

lemma print_values_eq: "printed r ls \<Longrightarrow> print_values r (s, out) = (Inr (), (s, out @ ls))"
  unfolding printed_def
  by (induction r ls arbitrary: out rule: list_all2_induct) (auto simp: print_line_def)

text \<open>
  Property C23. The program on a parse tree, from an empty directory: a table is created, a record that
  conforms to its schema is inserted and selected by its key. The output is the table name for each
  statement followed by the values of the record.
\<close>

theorem create_insert_select_prints:
  assumes "visitRoot base_visitor tree = Inr [CreateTable c, Insert i, Select s]"
    "db_fs_ok ''database'' f" "metadata_path ''database'' \<notin> set (fs_dirs f)"
    "fs_files f (metadata_path ''database'') = None"
    "statement_ok (CreateTable c)" "statement_ok (Insert i)" "statement_ok (Select s)"
    "in_table i = ct_table c" "fr_table (sl_from_spec s) = ct_table c" "row_ok (ct_schema c) (in_values i)"
    "re_operand (hd (sl_where_spec s)) = row_key (ct_schema c) (in_values i)"
    "key_ok (key_type (ct_schema c)) (row_key (ct_schema c) (in_values i))"
    "printed (in_values i) ls"
  shows "\<exists>r f'. lang_main junk base_visitor tree f =
    Some (r, [ct_table c, ct_table c, ct_table c] @ ls, f')"
proof -
  let ?t = "ct_table c" and ?s = "ct_schema c" and ?v = "in_values i"
  let ?db0 = "\<lparr>db_base_path = ''database'', db_table_managers = []\<rparr>"
  obtain f0 where f0: "Database_new junk ''database'' f = Some (Inr ?db0, f0)" "db_sim (Suc 1) ?db0 f0 Map.empty"
    using Database_new_fresh [OF assms(2-4), of junk "Suc 1"] by blast
  obtain db1 f1 where 1: "create_table ?t ?s ?db0 f0 = (Inr db1, f1)" "db_sim 1 db1 f1 [?t \<mapsto> (?s, spec_empty)]"
    using create_table_sim [of 1 ?db0 f0 Map.empty ?t ?s] f0(2) assms(5) by auto
  let ?S = "spec_write (row_key ?s ?v) ?v spec_empty"
  obtain db2 f2 where 2: "Database_write_record ?t ?v (db1, f1) = (Inr (), (db2, f2))"
      "db_sim 0 db2 f2 [?t \<mapsto> (?s, ?S)]"
    using db_write_sim [of 0 db1 f1 "[?t \<mapsto> (?s, spec_empty)]" ?t ?s spec_empty ?v] 1(2) assms(10) by auto
  obtain d where d: "re_operand (hd (sl_where_spec s)) = Some d" "data_ok d" "sl_where_spec s \<noteq> []"
    using assms(7) by (auto elim: value_okE)
  have "spec_read ?S (row_key ?s ?v) = Some ?v" by (simp add: spec_read_def spec_write_def spec_empty_def)
  then have 3: "Database_read_record junk db2 ?t (Some d) f2 = Inr ?v"
    using db_read_sim [OF 2(2), of ?t ?s ?S "Some d" junk] assms(11,12) d(1) by simp
  have "run_statements junk [CreateTable c, Insert i, Select s] ((?db0, f0), []) =
      (Inr (), ((db2, f2), [?t, ?t, ?t] @ ls))"
    using 1(1) 2(1) 3 assms(6,8,9) Select_execute_eq [OF d(3,1,2)] print_values_eq [OF assms(13)]
    by (simp add: bindC_def on_db_def print_line_def CreateTable_execute_def Insert_execute_def copy_values_eq)
  then show ?thesis
    using f0(1) assms(1) by (cases "flush_metadata db2 f2") (simp add: lang_main_def)
qed

definition example_tree :: "unit root_ctx" where
  "example_tree = Some
     [CreateTableCql \<lparr>cc_if_not_exist = False, cc_keyspace = None, cc_table = Some (Some ''t''),
        cc_columns = Some \<lparr>cl_columns = [int_column ''id'', ascii_column ''name'' ''3''],
          cl_primary_key = Some (Some (SinglePrimaryKey (Some (Some ''id''))))\<rparr>\<rparr>,
      InsertCql example_insert_ctx,
      SelectCql \<lparr>sx_distinct = False, sx_json = False,
        sx_elements = Some \<lparr>es_star = True, es_elements = []\<rparr>, sx_from = Some (Some [''t'']),
        sx_where = Some (Some [\<lparr>rc_names = [''id''], rc_op = Some OP_EQ,
          rc_constant = Some (DecimalLiteral (Some ''42''))\<rparr>]),
        sx_order = None, sx_limit = None, sx_allow_filtering = False\<rparr>]"

definition example_visited_create :: create_table_statement where
  "example_visited_create =
     \<lparr>ct_if_not_exists = Some False, ct_keyspace = '''', ct_table = ''t'', ct_schema = example_schema\<rparr>"

definition example_visited_insert :: insert_statement where
  "example_visited_insert = InsertStatement_new\<lparr>in_table := ''t'',
     in_values := [Some (IntData 42), Some (ASCIIData [CHR 0x27, CHR ''a'', CHR 0x27])],
     in_if_not_exists := Some False, in_ttl_timestamp := from_ttl 7\<rparr>"

definition example_visited_select :: select_statement where
  "example_visited_select = example_select
     \<lparr>sl_select_elements := \<lparr>ses_star = True, ses_elements = []\<rparr>\<rparr>"

lemma example_tree_visited:
  "visitRoot base_visitor example_tree =
     Inr [CreateTable example_visited_create, Insert example_visited_insert, Select example_visited_select]"
proof -
  have "visitColumnDefinition (ascii_column ''name'' ''3'') =
      Inr (\<lparr>fd_name = ''name'', fd_type = \<lparr>ty_id = T_ASCII, ty_length = 3\<rparr>\<rparr>, False)"
    by (simp add: visitColumnDefinition_def ascii_column_def visitDataType_def visitDataTypeName_def
        token_text_def strtoll_examples)
  then show ?thesis
    by (simp add: visitRoot_def example_tree_def visitCql_def visitCreateTable_def example_insert_visited
        visitColumnDefinitionList_def int_column_parsed visitPrimaryKeyDefinition_def
        token_text_def keyspace_text_def example_visited_create_def example_visited_insert_def
        example_visited_select_def example_schema_def example_select_def SelectStatement_new_def int_field_def
        Schema_push_back_def set_sort_key_index_def set_partition_key_index_def visitSelect_def
        visitSelectElements_def visitFromSpec_def token_at_def visitWhereSpec_def visitRelationElement_def
        RelationElement_copy_def Data_copy_eq strtoll_examples)
qed

definition database_fs :: fs where
  "database_fs = \<lparr>fs_dirs = [''database''], fs_files = (\<lambda>p. None), fs_bad = []\<rparr>"

lemma database_fs_ok: "db_fs_ok ''database'' database_fs" "metadata_path ''database'' \<notin> set (fs_dirs database_fs)"
  "fs_files database_fs (metadata_path ''database'') = None"
  by (simp_all add: db_fs_ok_def database_fs_def sstable_paths_def sstable_path_def metadata_path_def)

theorem create_insert_select_prints_witness:
  "\<exists>r f'. lang_main (\<lambda>_ _. 0) (\<lambda>_ _. None) example_tree database_fs =
    Some (r, [''t'', ''t'', ''t'', ''42'', [CHR 0x27, CHR ''a'', CHR 0x27]], f')"
proof -
  have "statement_ok (CreateTable example_visited_create)" "statement_ok (Insert example_visited_insert)"
      "statement_ok (Select example_visited_select)"
    by (simp_all add: example_visited_create_def example_visited_insert_def example_visited_select_def
        example_select_def example_keyed value_ok_def SelectStatement_new_def)
  moreover have "row_key example_schema (in_values example_visited_insert) = Some (IntData 42)"
      "row_ok example_schema (in_values example_visited_insert)"
    by (simp_all add: example_visited_insert_def row_key_def row_ok_def dptr_ok_def example_schema_def)
  moreover have "key_ok (key_type example_schema) (Some (IntData 42))"
    by (simp add: example_keyed key_ok_def dptr_ok_def)
  moreover have "printed (in_values example_visited_insert) [''42'', [CHR 0x27, CHR ''a'', CHR 0x27]]"
    by (simp add: printed_def example_visited_insert_def) code_simp
  ultimately show ?thesis
    using create_insert_select_prints [OF example_tree_visited database_fs_ok, where junk = "\<lambda>_ _. 0"
      and base_visitor = "\<lambda>_ _. None" and ls = "[''42'', [CHR 0x27, CHR ''a'', CHR 0x27]]"]
    by (simp add: example_visited_create_def example_visited_insert_def example_visited_select_def
        example_select_def SelectStatement_new_def)
qed

end
