(* ===== verification/Dht_Cluster.thy ===== *)
theory Dht_Cluster
  imports Lang_Visitor
begin

text \<open>
  \<^verbatim>\<open>include/config\<close> and \<^verbatim>\<open>include/dht\<close>: the ring of ranges, the state of a
  process, the partitioner, and the execution of a query on one node, on every node, or by the node that
  owns its partition key. What lies outside the repository is a parameter, an element of \<open>externals\<close>:
  the generated parser, and the remote procedure call, which sends a query to an address and acts on
  whatever is there. The lemmas show how tokens are routed, that the map of streamers holds a client for
  every range, and what the executors return.
\<close>

section \<open>Ranges and configuration\<close>

record range =
  rg_start :: u64
  rg_end :: u64
  rg_address :: string

definition Range_contains :: "range \<Rightarrow> u64 \<Rightarrow> bool" where
  "Range_contains r i \<longleftrightarrow> rg_start r \<le> i \<and> i < rg_end r"

definition Range_eq :: "range \<Rightarrow> range \<Rightarrow> bool" where
  "Range_eq a b \<longleftrightarrow> rg_start a = rg_start b \<and> rg_end a = rg_end b \<and> rg_address a = rg_address b"

record config =
  cf_local_address :: string
  cf_ranges :: "range list"

text \<open>The configuration from the address and the ranges of the configuration file.\<close>

definition Config_new :: "string \<Rightarrow> (u32 \<times> u32 \<times> string) list \<Rightarrow> config" where
  "Config_new address ranges =
     \<lparr>cf_local_address = address,
      cf_ranges = map (\<lambda>(start, e, a). \<lparr>rg_start = ucast start, rg_end = ucast e, rg_address = a\<rparr>) ranges\<rparr>"

section \<open>Commands that may not return\<close>

text \<open>Opening a keyspace runs the constructor of a database, which need not return.\<close>

type_synonym ('s, 'a) pcmd = "'s \<Rightarrow> ('a result \<times> 's) option"

definition bindP :: "('s, 'a) pcmd \<Rightarrow> ('a \<Rightarrow> ('s, 'b) pcmd) \<Rightarrow> ('s, 'b) pcmd" where
  "bindP m f s = (case m s of
     None \<Rightarrow> None
   | Some (Inl e, s) \<Rightarrow> Some (Inl e, s)
   | Some (Inr x, s) \<Rightarrow> f x s)"

definition liftP :: "'a result \<Rightarrow> ('s, 'a) pcmd" where
  "liftP r s = Some (r, s)"

lemma liftP_simps [simp]: "liftP r s = Some (r, s)"
  by (simp add: liftP_def)

lemma bindP_Inr [simp]: "m s = Some (Inr x, s') \<Longrightarrow> bindP m f s = f x s'"
  by (simp add: bindP_def)

lemma bindP_Inl [simp]: "m s = Some (Inl e, s') \<Longrightarrow> bindP m f s = Some (Inl e, s')"
  by (simp add: bindP_def)

lemma bindP_liftP [simp]:
  "bindP (liftP (Inr x)) f = f x"
  "bindP (liftP (Inl e)) f = liftP (Inl e)"
  by (rule ext, simp)+

section \<open>The state of a process\<close>

text \<open>
  \<^verbatim>\<open>StateStore\<close>: the streamers by address and the open keyspaces by path. A streamer is a
  client of the address it was made for and is identified with it.
\<close>

record state_store =
  ss_streamers :: "(string \<times> string) list"
  ss_keyspaces :: "(string \<times> database) list"

record 'w process =
  pc_config :: config
  pc_store :: state_store
  pc_fs :: fs
  pc_net :: 'w

record ('c, 'w) externals =
  ex_junk :: "string \<Rightarrow> nat \<Rightarrow> byte"
  ex_parse :: "string \<Rightarrow> 'c root_ctx"
  ex_visitor :: "statement_type \<Rightarrow> 'c \<Rightarrow> error option"
  ex_rpc :: "string \<Rightarrow> string \<Rightarrow> 'w \<Rightarrow> string option \<times> 'w"

definition make_streamer :: "string \<Rightarrow> string" where
  "make_streamer address = address"

definition StateStore_new :: "config \<Rightarrow> state_store result" where
  "StateStore_new c =
     bindR (put_all (\<lambda>r. map_assign string_less (rg_address r) (make_streamer (rg_address r))) (cf_ranges c) [])
       (\<lambda>m. Inr \<lparr>ss_streamers = m, ss_keyspaces = []\<rparr>)"

text \<open>\<^verbatim>\<open>get_address\<close> takes a 32-bit token.\<close>

definition StateStore_get_address :: "config \<Rightarrow> u32 \<Rightarrow> string option" where
  "StateStore_get_address c token =
     (case find (\<lambda>r. Range_contains r (ucast token)) (cf_ranges c) of
        None \<Rightarrow> None
      | Some r \<Rightarrow> Some (rg_address r))"

definition get_streamer :: "string \<Rightarrow> state_store \<Rightarrow> (string \<times> state_store) result" where
  "get_streamer address s =
     bindR (map_find string_less address (ss_streamers s)) (\<lambda>found. case found of
       None \<Rightarrow> bindR (map_assign string_less address (make_streamer address) (ss_streamers s)) (\<lambda>m.
         Inr (make_streamer address, s\<lparr>ss_streamers := m\<rparr>))
     | Some streamer \<Rightarrow> Inr (streamer, s))"

definition get_streamer_token :: "config \<Rightarrow> u32 \<Rightarrow> state_store \<Rightarrow> (string option \<times> state_store) result" where
  "get_streamer_token c token s = (case StateStore_get_address c token of
     None \<Rightarrow> Inr (None, s)
   | Some address \<Rightarrow> bindR (get_streamer address s) (\<lambda>(streamer, s). Inr (Some streamer, s)))"

text \<open>\<^verbatim>\<open>get_keyspace\<close>: afterwards the keyspace is open in the map.\<close>

definition get_keyspace :: "(string \<Rightarrow> nat \<Rightarrow> byte) \<Rightarrow> string \<Rightarrow> ('w process, unit) pcmd" where
  "get_keyspace junk keyspace p =
     (case map_find string_less keyspace (ss_keyspaces (pc_store p)) of
        Inl e \<Rightarrow> Some (Inl e, p)
      | Inr (Some db) \<Rightarrow> Some (Inr (), p)
      | Inr None \<Rightarrow> (case Database_new junk keyspace (pc_fs p) of
          None \<Rightarrow> None
        | Some (Inl e, f) \<Rightarrow> Some (Inl e, p\<lparr>pc_fs := f\<rparr>)
        | Some (Inr db, f) \<Rightarrow>
            (case map_assign string_less keyspace db (ss_keyspaces (pc_store p)) of
               Inl e \<Rightarrow> Some (Inl e, p\<lparr>pc_fs := f\<rparr>)
             | Inr m \<Rightarrow> Some (Inr (), p\<lparr>pc_fs := f, pc_store := (pc_store p)\<lparr>ss_keyspaces := m\<rparr>\<rparr>))))"

text \<open>A command on the database a shared pointer to an open keyspace refers to.\<close>

definition on_keyspace :: "string \<Rightarrow> (db_state, 'a) cmd \<Rightarrow> ('w process, 'a) pcmd" where
  "on_keyspace keyspace c p =
     (case map_of (ss_keyspaces (pc_store p)) keyspace of
        None \<Rightarrow> Some (Inl Undefined_Behaviour, p)
      | Some db \<Rightarrow> (case c (db, pc_fs p) of
          (r, (db, f)) \<Rightarrow> Some (r, p\<lparr>pc_fs := f, pc_store := (pc_store p)\<lparr>ss_keyspaces :=
            map (\<lambda>(k, d). if k = keyspace then (k, db) else (k, d)) (ss_keyspaces (pc_store p))\<rparr>\<rparr>)))"

section \<open>The partitioner\<close>

text \<open>
  A \<^verbatim>\<open>Partitioner\<close> is built from copies of the configuration and of the state store: the
  streamer that \<^verbatim>\<open>send\<close> may have to make is added to the copy.
\<close>

record partitioner =
  pt_config :: config
  pt_store :: state_store

definition Partitioner_new :: "'w process \<Rightarrow> partitioner" where
  "Partitioner_new p = \<lparr>pt_config = pc_config p, pt_store = pc_store p\<rparr>"

definition Partitioner_get_address :: "partitioner \<Rightarrow> string \<Rightarrow> string option result" where
  "Partitioner_get_address pt key =
     bindR (atoi key) (\<lambda>i.
       let token = (if i AND 1 \<noteq> 0 then 50 else 150 :: u64)
       in Inr (StateStore_get_address (pt_config pt) (ucast token)))"

definition is_local :: "partitioner \<Rightarrow> string \<Rightarrow> bool result" where
  "is_local pt key =
     bindR (Partitioner_get_address pt key) (\<lambda>address.
       Inr (address = None \<or> address = Some (cf_local_address (pt_config pt))))"

text \<open>\<^verbatim>\<open>StreamerClient::execute\<close>: a failed call gives the string \<open>Error\<close>.\<close>

definition StreamerClient_execute ::
  "('c, 'w) externals \<Rightarrow> string \<Rightarrow> string \<Rightarrow> ('w process, string) pcmd" where
  "StreamerClient_execute ex address query p =
     (case ex_rpc ex address query (pc_net p) of
        (Some str, w) \<Rightarrow> Some (Inr str, p\<lparr>pc_net := w\<rparr>)
      | (None, w) \<Rightarrow> Some (Inr ''Error'', p\<lparr>pc_net := w\<rparr>))"

definition Partitioner_send ::
  "('c, 'w) externals \<Rightarrow> partitioner \<Rightarrow> string \<Rightarrow> string \<Rightarrow> ('w process, string) pcmd" where
  "Partitioner_send ex pt query key =
     bindP (liftP (Partitioner_get_address pt key)) (\<lambda>opt_address. case opt_address of
       None \<Rightarrow> liftP (Inl bad_optional_access)
     | Some address \<Rightarrow>
         bindP (liftP (get_streamer address (pt_store pt))) (\<lambda>(streamer, _).
           StreamerClient_execute ex streamer query))"

fun send_all :: "('c, 'w) externals \<Rightarrow> string \<Rightarrow> string \<Rightarrow> (string \<times> string) list \<Rightarrow> ('w process, unit) pcmd" where
  "send_all ex local_address query [] = liftP (Inr ())"
| "send_all ex local_address query ((address, streamer) # m) =
     (if address = local_address then send_all ex local_address query m
      else bindP (StreamerClient_execute ex streamer query) (\<lambda>_. send_all ex local_address query m))"

definition Partitioner_send_all ::
  "('c, 'w) externals \<Rightarrow> partitioner \<Rightarrow> string \<Rightarrow> ('w process, unit) pcmd" where
  "Partitioner_send_all ex pt query =
     send_all ex (cf_local_address (pt_config pt)) query (ss_streamers (pt_store pt))"

section \<open>Executing a query\<close>

text \<open>\<^verbatim>\<open>StatementParser::process\<close>.\<close>

definition StatementParser_process :: "('c, 'w) externals \<Rightarrow> string \<Rightarrow> statement result" where
  "StatementParser_process ex query =
     bindR (visitRoot (ex_visitor ex) (ex_parse ex query)) (\<lambda>statements. vec_at statements 0)"

text \<open>
  \<^verbatim>\<open>StatementExecutor::execute\<close>. The only \<^verbatim>\<open>return\<close> is the body of the loop over
  the values of the result: without a result, or without values in it, the function ends without one.
\<close>

definition keyspace_path :: "config \<Rightarrow> string" where
  "keyspace_path c = ''data/'' @ cf_local_address c @ '':database''"

definition StatementExecutor_execute ::
  "('c, 'w) externals \<Rightarrow> statement \<Rightarrow> ('w process, row option) pcmd" where
  "StatementExecutor_execute ex st p =
     (let keyspace = keyspace_path (pc_config p)
      in bindP (get_keyspace (ex_junk ex) keyspace) (\<lambda>_.
         bindP (on_keyspace keyspace (Statement_execute (ex_junk ex) st)) (\<lambda>result.
           case result of
             Some (v # vs) \<Rightarrow> liftP (Inr (Some (v # vs)))
           | _ \<Rightarrow> liftP (Inl Undefined_Behaviour))) p)"

definition serialize_value :: "dptr \<Rightarrow> string result" where
  "serialize_value v =
     bindR (deref v) (\<lambda>d.
     bindR (Data_print d) (\<lambda>s.
       Inr (s @ '','' @ to_string_int (sint (type_id_code (ty_id (type_of d)))) @ '','' @
            to_string_nat (unat (Type_length (type_of d))) @ ''|'')))"

fun serialize_values :: "row \<Rightarrow> string result" where
  "serialize_values [] = Inr ''''"
| "serialize_values (v # vs) =
     bindR (serialize_value v) (\<lambda>s. bindR (serialize_values vs) (\<lambda>r. Inr (s @ r)))"

definition ResultSerializer_serialize :: "row option \<Rightarrow> string result" where
  "ResultSerializer_serialize rec = (case rec of None \<Rightarrow> Inr '''' | Some r \<Rightarrow> serialize_values r)"

definition LocalQueryExecutor_execute ::
  "('c, 'w) externals \<Rightarrow> statement \<Rightarrow> ('w process, string) pcmd" where
  "LocalQueryExecutor_execute ex st =
     bindP (StatementExecutor_execute ex st) (\<lambda>result. liftP (ResultSerializer_serialize result))"

definition MultinodeQueryExecutor_execute ::
  "('c, 'w) externals \<Rightarrow> string \<Rightarrow> statement \<Rightarrow> ('w process, string) pcmd" where
  "MultinodeQueryExecutor_execute ex query st p =
     (let pt = Partitioner_new p
      in bindP (StatementExecutor_execute ex st) (\<lambda>local_result.
         bindP (Partitioner_send_all ex pt query) (\<lambda>_.
           liftP (Inr ''All nodes have been updated''))) p)"

definition SinglenodeQueryExecutor_execute ::
  "('c, 'w) externals \<Rightarrow> string \<Rightarrow> statement \<Rightarrow> ('w process, string) pcmd" where
  "SinglenodeQueryExecutor_execute ex query st p =
     (let pt = Partitioner_new p
      in bindP (liftP (partition_key st)) (\<lambda>k. case k of
           None \<Rightarrow> liftP (Inl bad_optional_access)
         | Some key \<Rightarrow>
             bindP (liftP (is_local pt key)) (\<lambda>own.
               if own then LocalQueryExecutor_execute ex st
               else if key = '''' then MultinodeQueryExecutor_execute ex query st
               else Partitioner_send ex pt query key)) p)"

definition QueryProcessor_process ::
  "('c, 'w) externals \<Rightarrow> string \<Rightarrow> ('w process, string) pcmd" where
  "QueryProcessor_process ex query =
     bindP (liftP (StatementParser_process ex query)) (\<lambda>st.
       if statement_type_of st \<in> {CREATE_TABLE, DROP_TABLE, CREATE_INDEX, DROP_INDEX}
       then MultinodeQueryExecutor_execute ex query st
       else if statement_type_of st \<in> {INSERT, SELECT}
       then SinglenodeQueryExecutor_execute ex query st
       else liftP (Inl Undefined_Behaviour))"

text \<open>
  \<^verbatim>\<open>StreamerServer::execute\<close>, the other end of the remote call: the query runs on the
  node that receives it.
\<close>

definition StreamerServer_execute :: "('c, 'w) externals \<Rightarrow> string \<Rightarrow> ('w process, string) pcmd" where
  "StreamerServer_execute ex query =
     bindP (liftP (StatementParser_process ex query)) (LocalQueryExecutor_execute ex)"

text \<open>The health check: a server answers that it is well and ready, and a call that fails counts as not ready.\<close>

record health =
  he_ok :: bool
  he_ready :: bool

definition StreamerServer_health_check :: health where
  "StreamerServer_health_check = \<lparr>he_ok = True, he_ready = True\<rparr>"

definition StreamerClient_health_check :: "health option \<Rightarrow> bool" where
  "StreamerClient_health_check response = (case response of None \<Rightarrow> False | Some h \<Rightarrow> he_ready h)"

section \<open>The state store\<close>

definition store_ok :: "state_store \<Rightarrow> bool" where
  "store_ok s \<longleftrightarrow> smap.map_ok (ss_streamers s) \<and> smap.map_ok (ss_keyspaces s) \<and>
     (\<forall>(address, streamer) \<in> set (ss_streamers s). streamer = make_streamer address)"

lemma map_ok_distinct: "smap.map_ok m \<Longrightarrow> distinct (map fst m)"
  by (auto simp: smap.map_ok_def strict_sorted_iff)

lemma assign_streamer:
  assumes "smap.map_ok m" "\<forall>(a, s) \<in> set m. s = make_streamer a"
  shows "\<exists>m'. map_assign string_less address (make_streamer address) m = Inr m' \<and> smap.map_ok m' \<and>
    (\<forall>(a, s) \<in> set m'. s = make_streamer a) \<and> fst ` set m' = insert address (fst ` set m)"
proof -
  obtain m' where m': "map_assign string_less address (make_streamer address) m = Inr m'" "smap.map_ok m'"
      "fst ` set m' = insert address (fst ` set m)" "map_of m' = (map_of m)(address \<mapsto> make_streamer address)"
    using smap.assign_eq [OF assms(1), of address "make_streamer address"] by auto
  have "s = make_streamer a" if "(a, s) \<in> set m'" for a s
  proof -
    have "map_of m' a = Some s" using that map_ok_distinct [OF m'(2)] by simp
    then have "a = address \<and> s = make_streamer a \<or> map_of m a = Some s"
      unfolding m'(4) by (auto split: if_splits)
    then show ?thesis using assms(2) by (auto dest: map_of_SomeD)
  qed
  then show ?thesis using m' by blast
qed

lemma assign_streamers:
  assumes "smap.map_ok m" "\<forall>(a, s) \<in> set m. s = make_streamer a"
  shows "\<exists>m'. put_all (\<lambda>r. map_assign string_less (rg_address r) (make_streamer (rg_address r))) rs m = Inr m' \<and>
    smap.map_ok m' \<and> (\<forall>(a, s) \<in> set m'. s = make_streamer a) \<and>
    fst ` set m' = fst ` set m \<union> rg_address ` set rs"
  using assms
proof (induction rs arbitrary: m)
  case (Cons r rs)
  obtain m1 where m1: "map_assign string_less (rg_address r) (make_streamer (rg_address r)) m = Inr m1"
      "smap.map_ok m1" "\<forall>(a, s) \<in> set m1. s = make_streamer a" "fst ` set m1 = insert (rg_address r) (fst ` set m)"
    using assign_streamer [OF Cons.prems] by blast
  then show ?case using Cons.IH [OF m1(2,3)] by auto
qed simp

lemma StateStore_new_ok:
  "\<exists>s. StateStore_new c = Inr s \<and> store_ok s \<and> fst ` set (ss_streamers s) = rg_address ` set (cf_ranges c) \<and>
    ss_keyspaces s = []"
  using assign_streamers [of "[]" "cf_ranges c"] by (auto simp: StateStore_new_def store_ok_def)

lemma get_streamer_ok:
  assumes "store_ok s"
  shows "\<exists>s'. get_streamer address s = Inr (make_streamer address, s') \<and> store_ok s' \<and>
    fst ` set (ss_streamers s') = insert address (fst ` set (ss_streamers s)) \<and> ss_keyspaces s' = ss_keyspaces s"
proof -
  have ok: "smap.map_ok (ss_streamers s)" "\<forall>(a, t) \<in> set (ss_streamers s). t = make_streamer a"
    using assms by (simp_all add: store_ok_def)
  show ?thesis
  proof (cases "map_of (ss_streamers s) address")
    case None
    then show ?thesis
      using assms assign_streamer [OF ok, of address] smap.find_eq [OF ok(1), of address]
      by (auto simp: get_streamer_def store_ok_def)
  next
    case (Some t)
    then have "t = make_streamer address" "address \<in> fst ` set (ss_streamers s)"
      using ok(2) by (auto dest: map_of_SomeD intro: rev_image_eqI)
    then show ?thesis
      using assms Some smap.find_eq [OF ok(1), of address] by (auto simp: get_streamer_def insert_absorb)
  qed
qed

lemma StateStore_get_address_range:
  "StateStore_get_address c token = Some a \<Longrightarrow> a \<in> rg_address ` set (cf_ranges c)"
  by (auto simp: StateStore_get_address_def find_Some_iff split: option.splits)

section \<open>Routing\<close>

definition token_of :: "u32 \<Rightarrow> u32" where
  "token_of w = (if bit w 0 then 50 else 150)"

lemma get_address_print:
  "Partitioner_get_address pt (to_string_int (sint (w :: u32))) =
     Inr (StateStore_get_address (pt_config pt) (token_of w))"
proof -
  have "w AND 1 \<noteq> 0 \<longleftrightarrow> bit w 0" by (simp add: and_one_eq bit_0 odd_iff_mod_2_eq_one)
  then show ?thesis by (simp add: Partitioner_get_address_def atoi_to_string token_of_def)
qed

lemma send_all_eq:
  "\<forall>(a, s) \<in> set m. s = make_streamer a \<Longrightarrow>
   send_all ex local_address query m p =
     Some (Inr (), p\<lparr>pc_net := fold (\<lambda>a w. snd (ex_rpc ex a query w))
       (filter (\<lambda>a. a \<noteq> local_address) (map fst m)) (pc_net p)\<rparr>)"
proof (induction m arbitrary: p)
  case (Cons e m)
  obtain a where e: "e = (a, a)" using Cons.prems by (cases e) (auto simp: make_streamer_def)
  obtain r w where rw: "ex_rpc ex a query (pc_net p) = (r, w)" by fastforce
  then have "\<exists>str. StreamerClient_execute ex a query p = Some (Inr str, p\<lparr>pc_net := w\<rparr>)"
    by (cases r) (simp_all add: StreamerClient_execute_def)
  then show ?case using Cons rw e by auto
qed simp

section \<open>Local execution\<close>

text \<open>A process whose keyspace is open and implements the specification \<open>D\<close>.\<close>

definition serves :: "nat \<Rightarrow> 'w process \<Rightarrow> db_spec \<Rightarrow> bool" where
  "serves n p D \<longleftrightarrow> store_ok (pc_store p) \<and>
     (\<exists>db. map_of (ss_keyspaces (pc_store p)) (keyspace_path (pc_config p)) = Some db \<and> db_sim n db (pc_fs p) D)"

lemma get_keyspace_open:
  assumes "serves n p D"
  shows "get_keyspace junk (keyspace_path (pc_config p)) p = Some (Inr (), p)"
proof -
  obtain db where "map_of (ss_keyspaces (pc_store p)) (keyspace_path (pc_config p)) = Some db"
      "smap.map_ok (ss_keyspaces (pc_store p))"
    using assms by (auto simp: serves_def store_ok_def)
  then show ?thesis using smap.find_eq [of "ss_keyspaces (pc_store p)"] by (simp add: get_keyspace_def)
qed

lemma on_keyspace_same:
  assumes "store_ok (pc_store p)" "map_of (ss_keyspaces (pc_store p)) k = Some db"
    "c (db, pc_fs p) = (r, (db, pc_fs p))"
  shows "on_keyspace k c p = Some (r, p)"
proof -
  have "distinct (map fst (ss_keyspaces (pc_store p)))"
    using assms(1) by (simp add: store_ok_def map_ok_distinct)
  from alist_update_same [OF this assms(2)] show ?thesis using assms(2,3) by (simp add: on_keyspace_def)
qed

lemma StatementExecutor_select:
  assumes p: "serves n p D" and D: "D (fr_table (sl_from_spec s)) = Some (sch, S)"
    and s: "statement_ok (Select s)" "key_ok (key_type sch) (re_operand (hd (sl_where_spec s)))"
    and r: "spec_read S (re_operand (hd (sl_where_spec s))) = Some r" "r \<noteq> []"
  shows "StatementExecutor_execute ex (Select s) p = Some (Inr (Some r), p)"
proof -
  let ?k = "keyspace_path (pc_config p)"
  obtain db where db: "store_ok (pc_store p)" "map_of (ss_keyspaces (pc_store p)) ?k = Some db"
      "db_sim n db (pc_fs p) D"
    using p by (auto simp: serves_def)
  obtain d where d: "re_operand (hd (sl_where_spec s)) = Some d" "data_ok d" "sl_where_spec s \<noteq> []"
    using s(1) by (auto elim: value_okE)
  have "Statement_execute (ex_junk ex) (Select s) (db, pc_fs p) = (Inr (Some r), (db, pc_fs p))"
    using Select_execute_eq [OF d(3,1,2)] db_read_sim [OF db(3) D s(2)] r(1) d(1) by simp
  then have "on_keyspace ?k (Statement_execute (ex_junk ex) (Select s)) p = Some (Inr (Some r), p)"
    using on_keyspace_same [OF db(1,2)] by simp
  moreover obtain v vs where "r = v # vs" using r(2) by (cases r) auto
  ultimately show ?thesis
    using get_keyspace_open [OF p, of "ex_junk ex"] by (simp add: StatementExecutor_execute_def Let_def)
qed

lemma LocalQueryExecutor_select:
  assumes "serves n p D" "D (fr_table (sl_from_spec s)) = Some (sch, S)"
    "statement_ok (Select s)" "key_ok (key_type sch) (re_operand (hd (sl_where_spec s)))"
    "spec_read S (re_operand (hd (sl_where_spec s))) = Some r" "r \<noteq> []" "serialize_values r = Inr str"
  shows "LocalQueryExecutor_execute ex (Select s) p = Some (Inr str, p)"
  using StatementExecutor_select [OF assms(1-6), of ex] assms(7)
  by (simp add: LocalQueryExecutor_execute_def ResultSerializer_serialize_def)

text \<open>Creating and inserting give no result, on every path.\<close>

lemma write_no_result:
  assumes "st = CreateTable c \<or> st = Insert i" "Statement_execute junk st s = (Inr r, s')"
  shows "r = None"
  using assms
  by (auto simp: CreateTable_execute_def Insert_execute_def bindC_def liftC_def split: prod.splits sum.splits)

section \<open>A network of nodes\<close>

text \<open>
  An instance of the remote call: the nodes by address, a call running the server of the node at the
  address. A node that throws, does not answer or does not exist gives a failed call.
\<close>

type_synonym network = "string \<Rightarrow> unit process option"

definition network_rpc ::
  "('c, unit) externals \<Rightarrow> string \<Rightarrow> string \<Rightarrow> network \<Rightarrow> string option \<times> network" where
  "network_rpc ex address query w = (case w address of
     None \<Rightarrow> (None, w)
   | Some node \<Rightarrow> (case StreamerServer_execute ex query node of
       None \<Rightarrow> (None, w)
     | Some (Inl e, node) \<Rightarrow> (None, w(address \<mapsto> node))
     | Some (Inr str, node) \<Rightarrow> (Some str, w(address \<mapsto> node))))"

definition networked :: "('c, unit) externals \<Rightarrow> ('c, network) externals" where
  "networked ex = \<lparr>ex_junk = ex_junk ex, ex_parse = ex_parse ex, ex_visitor = ex_visitor ex,
     ex_rpc = network_rpc ex\<rparr>"

lemma networked_simps [simp]:
  "StatementParser_process (networked ex) q = StatementParser_process ex q"
  "ex_rpc (networked ex) = network_rpc ex"
  by (simp_all add: StatementParser_process_def networked_def)

lemma StreamerServer_select:
  assumes "StatementParser_process ex query = Inr (Select s)" "serves n node D"
    "D (fr_table (sl_from_spec s)) = Some (sch, S)"
    "statement_ok (Select s)" "key_ok (key_type sch) (re_operand (hd (sl_where_spec s)))"
    "spec_read S (re_operand (hd (sl_where_spec s))) = Some r" "r \<noteq> []" "serialize_values r = Inr str"
  shows "StreamerServer_execute ex query node = Some (Inr str, node)"
  using LocalQueryExecutor_select [OF assms(2-8), of ex] assms(1) by (simp add: StreamerServer_execute_def)

section \<open>Properties\<close>

lemma select_key:
  assumes "statement_ok (Select s)" "re_operand (hd (sl_where_spec s)) = Some d" "Data_print d = Inr key"
  shows "partition_key (Select s) = Inr (Some key)"
  using assms by (simp add: Select_partition_key_def hd_conv_nth)

text \<open>
  Property C24. A \<^verbatim>\<open>SELECT\<close> in a network of nodes is answered by the node that owns its key:
  the query is processed where it arrives when the partitioner calls the key local, and by the node
  at the owner's address otherwise; in both cases the answer is the record the owner's specification
  gives, serialised, and no node changes.
\<close>

theorem select_answered_by_owner:
  assumes "StatementParser_process ex query = Inr (Select s)" "statement_ok (Select s)"
    "re_operand (hd (sl_where_spec s)) = Some d" "Data_print d = Inr key" "key \<noteq> ''''"
    "store_ok (pc_store p)" "Partitioner_get_address (Partitioner_new p) key = Inr (Some owner)"
    "owner = cf_local_address (pc_config p) \<and> serves n p D \<or>
     owner \<noteq> cf_local_address (pc_config p) \<and> pc_net p owner = Some node \<and> serves n node D"
    "D (fr_table (sl_from_spec s)) = Some (sch, S)" "key_ok (key_type sch) (Some d)"
    "spec_read S (Some d) = Some r" "r \<noteq> []" "serialize_values r = Inr str"
  shows "QueryProcessor_process (networked ex) query p = Some (Inr str, p)"
proof -
  have key: "partition_key (Select s) = Inr (Some key)" using select_key [OF assms(2,3,4)] .
  have k: "key_ok (key_type sch) (re_operand (hd (sl_where_spec s)))"
      "spec_read S (re_operand (hd (sl_where_spec s))) = Some r"
    using assms(3,10,11) by simp_all
  have "SinglenodeQueryExecutor_execute (networked ex) query (Select s) p = Some (Inr str, p)"
    using assms(8)
  proof
    assume "owner = cf_local_address (pc_config p) \<and> serves n p D"
    then show ?thesis
      using LocalQueryExecutor_select [where D = D and p = p and n = n and ex = "networked ex", OF _ assms(9,2) k assms(12,13)]
        key assms(7)
      by (simp add: SinglenodeQueryExecutor_execute_def Let_def is_local_def Partitioner_new_def)
  next
    assume owner: "owner \<noteq> cf_local_address (pc_config p) \<and> pc_net p owner = Some node \<and> serves n node D"
    obtain st where st: "get_streamer owner (pc_store p) = Inr (owner, st)"
      using get_streamer_ok [OF assms(6), of owner] by (auto simp: make_streamer_def)
    have "network_rpc ex owner query (pc_net p) = (Some str, pc_net p)"
      using owner StreamerServer_select [where D = D, OF assms(1) _ assms(9,2) k assms(12,13)]
      by (auto simp: network_rpc_def fun_upd_idem_iff)
    then show ?thesis
      using owner key assms(5,7) st
      by (simp add: SinglenodeQueryExecutor_execute_def Let_def is_local_def Partitioner_new_def
          Partitioner_send_def StreamerClient_execute_def)
  qed
  then show ?thesis using assms(1) by (simp add: QueryProcessor_process_def)
qed

text \<open>
  Two nodes, each owning the keys of one parity; the first is asked for a key of the second.
\<close>

definition example_config :: "string \<Rightarrow> config" where
  "example_config a = Config_new a [(0, 100, ''n1''), (100, 200, ''n2'')]"

definition example_node :: "string \<Rightarrow> 'w \<Rightarrow> 'w process" where
  "example_node a w = \<lparr>pc_config = example_config a,
     pc_store = \<lparr>ss_streamers = [(''n1'', ''n1''), (''n2'', ''n2'')],
       ss_keyspaces = [(''data/'' @ a @ '':database'', example_db)]\<rparr>,
     pc_fs = example_db_fs, pc_net = w\<rparr>"

definition example_externals :: "(unit, unit) externals" where
  "example_externals = \<lparr>ex_junk = (\<lambda>_ _. 0),
     ex_parse = (\<lambda>q. if q = ''all'' then example_tree else map_option (drop 2) example_tree),
     ex_visitor = (\<lambda>_ _. None), ex_rpc = (\<lambda>a q w. (None, w))\<rparr>"

lemma example_select_parsed:
  "StatementParser_process example_externals ''q'' = Inr (Select example_visited_select)"
proof -
  have "visitCqls bv [a, b, c] = Inr [x, y, z] \<Longrightarrow> visitCqls bv [c] = Inr [z]" for bv :: "statement_type \<Rightarrow> unit \<Rightarrow> error option"
      and a b c x y z
    by (auto simp: bindR_eq_Inr split: option.splits)
  then show ?thesis
    using example_tree_visited [of "\<lambda>_ _. None"]
    by (fastforce simp: StatementParser_process_def example_externals_def visitRoot_def example_tree_def vec_at_def)
qed

lemma example_store_ok: "store_ok (pc_store (example_node a w))"
  by (simp add: store_ok_def example_node_def smap.map_ok_def make_streamer_def)

lemma example_node_serves:
  "db_sim n db f D \<Longrightarrow> serves n (example_node a w\<lparr>pc_fs := f,
     pc_store := \<lparr>ss_streamers = [], ss_keyspaces = [(''data/'' @ a @ '':database'', db)]\<rparr>\<rparr>) D"
  by (auto simp: serves_def store_ok_def example_node_def smap.map_ok_def keyspace_path_def example_config_def
      Config_new_def)

lemma example_served:
  "\<exists>node :: unit process. serves 4 node
     [''t'' \<mapsto> (example_schema, spec_write (row_key example_schema example_row) example_row spec_empty)]"
proof -
  obtain db f where "db_sim 4 db f ([''t'' \<mapsto> (example_schema, spec_empty)](''t'' \<mapsto>
      (example_schema, spec_write (row_key example_schema example_row) example_row spec_empty)))"
    using db_write_sim [of 4 example_db example_db_fs "[''t'' \<mapsto> (example_schema, spec_empty)]"
        "''t''" example_schema spec_empty example_row] example_db_sim example_row_ok
    by auto
  from example_node_serves [OF this, of "''n2''" "()"] show ?thesis by auto
qed

theorem select_answered_by_owner_witness:
  "\<exists>p. QueryProcessor_process (networked example_externals) ''q'' p = Some (Inr ''42,5,4|ada,0,3|'', p)"
proof -
  let ?D = "[''t'' \<mapsto> (example_schema, spec_write (row_key example_schema example_row) example_row spec_empty)]"
  let ?S = "spec_write (row_key example_schema example_row) example_row spec_empty"
  obtain node :: "unit process" where node: "serves 4 node ?D" using example_served by blast
  let ?p = "example_node ''n1'' [''n2'' \<mapsto> node]"
  have s: "re_operand (hd (sl_where_spec example_visited_select)) = Some (IntData 42)"
      "fr_table (sl_from_spec example_visited_select) = ''t''" "statement_ok (Select example_visited_select)"
    by (simp_all add: example_visited_select_def example_select_def SelectStatement_new_def value_ok_def)
  have str: "Data_print (IntData 42) = Inr ''42''" "serialize_values example_row = Inr ''42,5,4|ada,0,3|''"
    unfolding example_row_def by code_simp+
  have "Partitioner_get_address (Partitioner_new ?p) ''42'' = Inr (Some ''n2'')"
    using get_address_print [of "Partitioner_new ?p" 42] str(1)
    by (simp add: token_of_def Partitioner_new_def example_node_def example_config_def Config_new_def
        StateStore_get_address_def Range_contains_def bit_0)
  moreover have "cf_local_address (pc_config ?p) = ''n1''" "pc_net ?p ''n2'' = Some node"
    by (simp_all add: example_node_def example_config_def Config_new_def)
  moreover have "spec_read ?S (Some (IntData 42)) = Some example_row" "example_row \<noteq> []"
    by (simp_all add: spec_read_def spec_write_def spec_empty_def row_key_def example_row_def example_schema_def)
  moreover have "key_ok (key_type example_schema) (Some (IntData 42))"
    by (simp add: example_keyed key_ok_def dptr_ok_def)
  ultimately have "QueryProcessor_process (networked example_externals) ''q'' ?p = Some (Inr ''42,5,4|ada,0,3|'', ?p)"
    using select_answered_by_owner [OF example_select_parsed s(3,1) str(1) _ example_store_ok [of "''n1''" "[''n2'' \<mapsto> node]"],
        where D = ?D and S = ?S and n = 4 and owner = "''n2''" and node = node and r = example_row] s(2) node str(2)
    by simp
  then show ?thesis by blast
qed

text \<open>
  Property C25. Routing is by the parity of a key's number, and by different values for the two statements:
  an \<^verbatim>\<open>INSERT\<close> goes by its second value, a \<^verbatim>\<open>SELECT\<close> by the operand of its first
  relation. A record inserted with integers of different parity in its first two columns, selected by the
  first one, is looked for on another node than the one it was written to, if the ranges separate the
  two tokens.
\<close>

theorem insert_select_routed_apart:
  assumes "in_values i = Some (IntData a) # Some (IntData b) # vs" "bit a 0 \<noteq> bit b 0"
    "sl_where_spec s = \<lparr>re_column = c, re_op = OP_EQ, re_operand = Some (IntData a)\<rparr> # es"
    "StateStore_get_address (pt_config pt) 50 \<noteq> StateStore_get_address (pt_config pt) 150"
  shows "\<exists>k k' m m'. partition_key (Insert i) = Inr (Some k) \<and> partition_key (Select s) = Inr (Some k') \<and>
    Partitioner_get_address pt k = Inr m \<and> Partitioner_get_address pt k' = Inr m' \<and> m \<noteq> m'"
  using assms
  by (auto simp: Insert_partition_key_def Select_partition_key_def get_address_print token_of_def)

theorem insert_select_routed_apart_witness:
  "\<exists>k k' m m'.
    partition_key (Insert (InsertStatement_new\<lparr>in_values := [Some (IntData 1), Some (IntData 2)]\<rparr>)) = Inr (Some k) \<and>
    partition_key (Select (SelectStatement_new\<lparr>sl_where_spec :=
      [\<lparr>re_column = ''id'', re_op = OP_EQ, re_operand = Some (IntData 1)\<rparr>]\<rparr>)) = Inr (Some k') \<and>
    Partitioner_get_address (Partitioner_new (example_node ''n1'' ())) k = Inr m \<and>
    Partitioner_get_address (Partitioner_new (example_node ''n1'' ())) k' = Inr m' \<and> m \<noteq> m'"
proof -
  have "StateStore_get_address (pt_config (Partitioner_new (example_node ''n1'' ()))) 50 \<noteq>
      StateStore_get_address (pt_config (Partitioner_new (example_node ''n1'' ()))) 150"
    by (simp add: Partitioner_new_def example_node_def example_config_def Config_new_def
        StateStore_get_address_def Range_contains_def)
  then show ?thesis
    by (intro insert_select_routed_apart [where a = 1 and b = 2 and c = "''id''"])
      (simp_all add: InsertStatement_new_def SelectStatement_new_def bit_0)
qed

text \<open>
  Property C26. The state store a process starts with has a client for every range of the configuration and
  for nothing else, each connected to its own address, and asking for a streamer keeps this: it returns
  the client of that address, adding it when there is none.
\<close>

theorem streamers_cover_ranges:
  "\<exists>s. StateStore_new c = Inr s \<and> store_ok s \<and> fst ` set (ss_streamers s) = rg_address ` set (cf_ranges c) \<and>
    (\<forall>address. \<exists>s'. get_streamer address s = Inr (make_streamer address, s') \<and> store_ok s' \<and>
       fst ` set (ss_streamers s') = insert address (rg_address ` set (cf_ranges c)))"
proof -
  obtain s where "StateStore_new c = Inr s" "store_ok s"
      "fst ` set (ss_streamers s) = rg_address ` set (cf_ranges c)"
    using StateStore_new_ok by blast
  then show ?thesis using get_streamer_ok by metis
qed

text \<open>
  Property C27. Sending to all nodes from the initial state store is a call to each configured address other
  than the local one, once each and in the order of the addresses; a failing call does not stop it.
\<close>

theorem send_all_reaches_others:
  assumes "StateStore_new c = Inr s"
  shows "\<exists>as. Partitioner_send_all ex \<lparr>pt_config = c, pt_store = s\<rparr> query p =
      Some (Inr (), p\<lparr>pc_net := fold (\<lambda>a w. snd (ex_rpc ex a query w)) as (pc_net p)\<rparr>) \<and>
    distinct as \<and> sorted as \<and> set as = rg_address ` set (cf_ranges c) - {cf_local_address c}"
proof -
  have s: "store_ok s" "fst ` set (ss_streamers s) = rg_address ` set (cf_ranges c)"
    using StateStore_new_ok [of c] assms by auto
  let ?as = "filter (\<lambda>a. a \<noteq> cf_local_address c) (map fst (ss_streamers s))"
  have "sorted_wrt (<) (map fst (ss_streamers s))" using s(1) by (simp add: store_ok_def smap.map_ok_def)
  then have "distinct ?as" "sorted ?as"
    using sorted_wrt_filter [of "(\<le>)" "map fst (ss_streamers s)"] by (simp_all add: strict_sorted_iff)
  moreover have "set ?as = rg_address ` set (cf_ranges c) - {cf_local_address c}" using s(2) by auto
  moreover have "Partitioner_send_all ex \<lparr>pt_config = c, pt_store = s\<rparr> query p =
      Some (Inr (), p\<lparr>pc_net := fold (\<lambda>a w. snd (ex_rpc ex a query w)) ?as (pc_net p)\<rparr>)"
    using s(1) by (simp add: Partitioner_send_all_def send_all_eq store_ok_def)
  ultimately show ?thesis by blast
qed

definition log_calls :: "(unit, (string \<times> string) list) externals" where
  "log_calls = \<lparr>ex_junk = (\<lambda>_ _. 0), ex_parse = (\<lambda>_. None), ex_visitor = (\<lambda>_ _. None),
     ex_rpc = (\<lambda>a q w. (None, w @ [(a, q)]))\<rparr>"

lemma example_store: "StateStore_new (example_config ''n1'') =
    Inr \<lparr>ss_streamers = [(''n1'', ''n1''), (''n2'', ''n2'')], ss_keyspaces = []\<rparr>"
  by (simp add: StateStore_new_def example_config_def Config_new_def string_less_def make_streamer_def)

theorem send_all_reaches_others_witness:
  "\<exists>p. Partitioner_send_all log_calls \<lparr>pt_config = example_config ''n1'',
      pt_store = \<lparr>ss_streamers = [(''n1'', ''n1''), (''n2'', ''n2'')], ss_keyspaces = []\<rparr>\<rparr> ''q''
      (example_node ''n1'' []) = Some (Inr (), p) \<and> pc_net p = [(''n2'', ''q'')]"
proof -
  obtain as where as: "Partitioner_send_all log_calls \<lparr>pt_config = example_config ''n1'',
        pt_store = \<lparr>ss_streamers = [(''n1'', ''n1''), (''n2'', ''n2'')], ss_keyspaces = []\<rparr>\<rparr> ''q'' (example_node ''n1'' []) =
      Some (Inr (), example_node ''n1'' []\<lparr>pc_net := fold (\<lambda>a w. snd (ex_rpc log_calls a ''q'' w)) as
        (pc_net (example_node ''n1'' []))\<rparr>)"
      and set: "distinct as" "set as = rg_address ` set (cf_ranges (example_config ''n1'')) - {cf_local_address (example_config ''n1'')}"
    using send_all_reaches_others [OF example_store, of log_calls "''q''" "example_node ''n1'' []"] by blast
  have "set as = {''n2''}" using set(2) by (simp add: example_config_def Config_new_def)
  moreover from this have "length as = Suc 0" using distinct_card [OF set(1)] by simp
  then obtain a where "as = [a]" by (metis length_0_conv length_Suc_conv)
  ultimately have "as = [''n2'']" by simp
  then show ?thesis using as by (simp add: log_calls_def example_node_def)
qed

lemma on_keyspace_serves:
  assumes "store_ok (pc_store p)" "map_of (ss_keyspaces (pc_store p)) (keyspace_path (pc_config p)) = Some db"
    and "c (db, pc_fs p) = (r, (db', f'))" "db_sim n db' f' D"
  shows "\<exists>p'. on_keyspace (keyspace_path (pc_config p)) c p = Some (r, p') \<and> serves n p' D"
proof -
  let ?k = "keyspace_path (pc_config p)" and ?m = "ss_keyspaces (pc_store p)"
  let ?u = "map (\<lambda>(k, d). if k = ?k then (k, db') else (k, d)) ?m"
  have upd: "map fst (map (\<lambda>(k, d). if k = ?k then (k, db') else (k, d)) m) = map fst m"
      "map_of m ?k = Some db \<Longrightarrow> map_of (map (\<lambda>(k, d). if k = ?k then (k, db') else (k, d)) m) ?k = Some db'" for m
    by (induction m) (auto split: if_splits)
  let ?p = "p\<lparr>pc_store := (pc_store p)\<lparr>ss_keyspaces := ?u\<rparr>, pc_fs := f'\<rparr>"
  have "smap.map_ok ?u" using assms(1) unfolding store_ok_def smap.map_ok_def set_map [symmetric] upd(1) by blast
  moreover have "map_of ?u ?k = Some db'" using upd(2) [OF assms(2)] .
  moreover have "on_keyspace ?k c p = Some (r, ?p)" using assms(2,3) by (simp add: on_keyspace_def)
  ultimately show ?thesis
    using assms(1,4) by (intro exI [of _ ?p]) (simp add: serves_def store_ok_def)
qed

text \<open>
  Property C28. A \<^verbatim>\<open>CREATE TABLE\<close> or \<^verbatim>\<open>INSERT\<close> that the database of the node executes without an
  exception takes effect, and then the executor reaches the end of a function that has to return a value, which is
  undefined behaviour: on the local path, on the path that is to inform the other nodes, which is reached before any of
  them is called, and in the server for a remote caller.
\<close>

theorem writes_end_undefined:
  assumes "st = CreateTable c \<or> st = Insert i" "statement_ok st" "serves (Suc n) p D" "Suc n < 2 ^ 62"
    and "map_of (ss_keyspaces (pc_store p)) (keyspace_path (pc_config p)) = Some db"
    and "Statement_execute (ex_junk ex) st (db, pc_fs p) = (Inr r, (db', f'))"
  shows "\<exists>p'. serves n p' (fold spec_op (statement_ops st) D) \<and>
    StatementExecutor_execute ex st p = Some (Inl Undefined_Behaviour, p') \<and>
    LocalQueryExecutor_execute ex st p = Some (Inl Undefined_Behaviour, p') \<and>
    MultinodeQueryExecutor_execute ex query st p = Some (Inl Undefined_Behaviour, p') \<and>
    (StatementParser_process ex query = Inr st \<longrightarrow> StreamerServer_execute ex query p = Some (Inl Undefined_Behaviour, p'))"
proof -
  have p: "store_ok (pc_store p)" "db_sim (Suc n) db (pc_fs p) D" using assms(3,5) by (auto simp: serves_def)
  have "fold run_db (statement_ops st) (db, pc_fs p) = (db', f')"
    using Statement_execute_state [OF assms(2), of "ex_junk ex" "(db, pc_fs p)"] assms(6) by simp
  moreover have "length (statement_ops st) = 1" using assms(1) by auto
  ultimately have "db_sim n db' f' (fold spec_op (statement_ops st) D)"
    using run_dbs_sim [of n "statement_ops st" db "pc_fs p" D] p(2) statement_ops_ok [OF assms(2)] assms(4) by auto
  then obtain p' where p': "on_keyspace (keyspace_path (pc_config p)) (Statement_execute (ex_junk ex) st) p = Some (Inr r, p')"
      "serves n p' (fold spec_op (statement_ops st) D)"
    using on_keyspace_serves [where c = "Statement_execute (ex_junk ex) st" and p = p, OF p(1) assms(5,6)] by blast
  have "r = None" using write_no_result [OF assms(1,6)] .
  then have "StatementExecutor_execute ex st p = Some (Inl Undefined_Behaviour, p')"
    using get_keyspace_open [OF assms(3), of "ex_junk ex"] p'(1) by (simp add: StatementExecutor_execute_def Let_def)
  then show ?thesis
    using p'(2) by (auto simp: LocalQueryExecutor_execute_def MultinodeQueryExecutor_execute_def Let_def StreamerServer_execute_def)
qed

theorem writes_end_undefined_witness:
  "\<exists>p'. LocalQueryExecutor_execute example_externals example_insert (example_node ''n1'' ()) = Some (Inl Undefined_Behaviour, p') \<and>
    serves 4 p' [''t'' \<mapsto> (example_schema, spec_write (row_key example_schema example_row) example_row spec_empty)]"
proof -
  let ?p = "example_node ''n1'' ()" and ?D = "[''t'' \<mapsto> (example_schema, spec_empty)]"
  have db: "map_of (ss_keyspaces (pc_store ?p)) (keyspace_path (pc_config ?p)) = Some example_db" "pc_fs ?p = example_db_fs"
    by (simp_all add: example_node_def keyspace_path_def example_config_def Config_new_def)
  then have serves: "serves 5 ?p ?D" using example_db_sim example_store_ok [of "''n1''" "()"] by (simp add: serves_def)
  obtain db' f' where "Database_write_record ''t'' example_row (example_db, example_db_fs) = (Inr (), (db', f'))"
    using db_write_sim [of 4 example_db example_db_fs ?D "''t''" example_schema spec_empty example_row] example_db_sim example_row_ok
    by auto
  then have "Statement_execute (ex_junk example_externals) example_insert (example_db, pc_fs ?p) = (Inr None, (db', f'))"
    using db(2) example_statements_ok(2)
    by (simp add: example_insert_def Insert_execute_def copy_values_eq bindC_def)
  moreover have "example_insert = CreateTable c \<or> example_insert = Insert (InsertStatement_new\<lparr>in_table := ''t'', in_values := example_row\<rparr>)" for c
    by (simp add: example_insert_def)
  moreover have "fold spec_op (statement_ops example_insert) ?D =
      [''t'' \<mapsto> (example_schema, spec_write (row_key example_schema example_row) example_row spec_empty)]"
    by (simp add: example_insert_def example_row_ok)
  ultimately show ?thesis
    using writes_end_undefined [OF _ example_statements_ok(2) _ _ db(1), of CreateTableStatement_new _ 4 ?D example_externals]
      serves by fastforce
qed

end
