(* ===== verification/Api_Cql_Result.thy ===== *)
theory Api_Cql_Result
  imports Dht_Cluster
begin

text \<open>
  \<^verbatim>\<open>include/api/cql3/frame.hh\<close>, \<^verbatim>\<open>query_result.hh\<close> and their
  implementations: the frame of a request and the bodies of the results. A \<^verbatim>\<open>char *\<close> into
  an array is the list of the array's bytes and an index; every access is checked against its length.
  \<^verbatim>\<open>int\<close> is \<open>int\<close> with the sums that can leave its range checked; strings are taken to be
  shorter than \<open>2 ^ 31\<close>. The lemmas describe each function by the bytes it emits at an index; the main
  results are the exact image of a query result, and the splitting of strings.
\<close>

section \<open>Arrays and integers\<close>

definition arr_get :: "int \<Rightarrow> byte list \<Rightarrow> byte result" where
  "arr_get i a = (if 0 \<le> i \<and> i < int (length a) then Inr (a ! nat i) else Inl Undefined_Behaviour)"

definition arr_set :: "int \<Rightarrow> byte \<Rightarrow> byte list \<Rightarrow> byte list result" where
  "arr_set i b a = (if 0 \<le> i \<and> i < int (length a) then Inr (a[nat i := b]) else Inl Undefined_Behaviour)"

definition c_int :: "int \<Rightarrow> int result" where
  "c_int v = (if - (2 ^ 31) \<le> v \<and> v < 2 ^ 31 then Inr v else Inl Undefined_Behaviour)"

text \<open>Division by a positive number, rounding to zero.\<close>

definition c_div :: "int \<Rightarrow> int \<Rightarrow> int" where
  "c_div a b = (if 0 \<le> a then a div b else - ((- a) div b))"

text \<open>\<^verbatim>\<open>s[k]\<close> of a \<^verbatim>\<open>std::string\<close>: zero at its length, undefined beyond.\<close>

definition str_at :: "string \<Rightarrow> nat \<Rightarrow> char result" where
  "str_at s k = (if k < length s then Inr (s ! k) else if k = length s then Inr (CHR 0x00) else Inl Undefined_Behaviour)"

text \<open>The loop over \<open>n\<close> indices from \<open>i\<close>.\<close>

fun for_range :: "nat \<Rightarrow> int \<Rightarrow> (int \<Rightarrow> 's \<Rightarrow> 's result) \<Rightarrow> 's \<Rightarrow> 's result" where
  "for_range 0 i f s = Inr s"
| "for_range (Suc n) i f s = bindR (f i s) (for_range n (i + 1) f)"

text \<open>
  \<^verbatim>\<open>std::stoi\<close>: no digits is an invalid argument, a value outside \<^verbatim>\<open>int\<close> is out of
  range.
\<close>

definition stoi :: "string \<Rightarrow> int result" where
  "stoi s =
     (let ds = takeWhile is_digit (snd (split_sign (dropWhile isspace s)))
      in if ds = [] then Inl (invalid_argument ''stoi'')
         else if c_integer s < - (2 ^ 31) \<or> 2 ^ 31 \<le> c_integer s then Inl (out_of_range ''stoi'')
         else Inr (c_integer s))"

section \<open>Frames\<close>

record frame =
  fm_version :: byte
  fm_flags :: byte
  fm_opcode :: byte
  fm_streamID :: "byte \<times> byte"
  fm_max_size :: int
  fm_body :: "byte list option"
  fm_buffer :: "byte list"
  fm_length :: "byte list"

text \<open>The constructor leaves the flags and the opcode uninitialised.\<close>

definition Frame_new :: "byte \<Rightarrow> byte \<Rightarrow> byte list \<Rightarrow> int \<Rightarrow> frame" where
  "Frame_new junk_flags junk_opcode buff sz =
     \<lparr>fm_version = 3, fm_flags = junk_flags, fm_opcode = junk_opcode, fm_streamID = (48, 48), fm_max_size = sz,
      fm_body = None, fm_buffer = buff, fm_length = [48, 48, 48, 48]\<rparr>"

definition Frame_substr :: "byte list \<Rightarrow> int \<Rightarrow> int \<Rightarrow> byte list result" where
  "Frame_substr arr begin len =
     bindR (for_range (nat len) 0 (\<lambda>i res. bindR (arr_get (begin + i) arr) (\<lambda>b. Inr (res @ [b]))) []) (\<lambda>res.
       Inr (res @ [0]))"

definition Frame_parse :: "frame \<Rightarrow> frame result" where
  "Frame_parse f =
     (let at = (\<lambda>i. arr_get i (fm_buffer f)) in
      bindR (at 0) (\<lambda>version. bindR (at 1) (\<lambda>flags. bindR (at 2) (\<lambda>s0. bindR (at 3) (\<lambda>s1.
      bindR (at 4) (\<lambda>opcode. bindR (at 5) (\<lambda>l0. bindR (at 6) (\<lambda>l1. bindR (at 7) (\<lambda>l2. bindR (at 8) (\<lambda>l3.
        let f = f\<lparr>fm_version := version, fm_flags := flags, fm_streamID := (s0, s1), fm_opcode := opcode,
                  fm_length := [l0, l1, l2, l3]\<rparr>
        in if fm_max_size f > 9
           then bindR (Frame_substr (fm_buffer f) 9 (fm_max_size f - 9)) (\<lambda>body. Inr (f\<lparr>fm_body := Some body\<rparr>))
           else Inr f))))))))))"

section \<open>Results\<close>

text \<open>
  \<^verbatim>\<open>QueryResult::count\<close>: the digits of a number to the base 256. The array has signed
  characters. Of the numbers outside the three ranges of the code nothing is written.
\<close>

definition count :: "int \<Rightarrow> int \<Rightarrow> int \<Rightarrow> byte list \<Rightarrow> (int \<times> byte list) result" where
  "count start breadth sz body =
     bindR (c_int (start + breadth)) (\<lambda>stop.
     bindR (if sz < 256 * 256 * 256 \<and> sz > 256 * 256 then
         for_range (nat breadth) start (\<lambda>i body.
           bindR (arr_set i 0 body) (\<lambda>body.
             if i - start = breadth - 3 then arr_set i (word_of_int (c_div sz 65536)) body
             else if i - start = breadth - 2 then
               bindR (arr_get (i - 1) body) (\<lambda>b. arr_set i (word_of_int (c_div (sz - sint b * 65536) 256)) body)
             else if i - start = breadth - 1 then
               bindR (arr_get (i - 1) body) (\<lambda>b. bindR (arr_get (i - 2) body) (\<lambda>c.
                 arr_set i (word_of_int (sz - sint b * 256 - sint c * 65536)) body))
             else Inr body)) body
       else if sz < 256 * 256 \<and> sz > 256 then
         for_range (nat breadth) start (\<lambda>i body.
           bindR (arr_set i 0 body) (\<lambda>body.
             if i - start = breadth - 2 then arr_set i (word_of_int (c_div sz 256)) body
             else if i - start = breadth - 1 then
               bindR (arr_get (i - 1) body) (\<lambda>b. arr_set i (word_of_int (sz - sint b * 256)) body)
             else Inr body)) body
       else if sz < 256 then
         for_range (nat breadth) start (\<lambda>i body.
           bindR (arr_set i 0 body) (\<lambda>body.
             if i - start = breadth - 1 then arr_set i (word_of_int sz) body else Inr body)) body
       else Inr body) (\<lambda>body. Inr (stop, body)))"

definition put_chars :: "int \<Rightarrow> int \<Rightarrow> string \<Rightarrow> byte list \<Rightarrow> byte list result" where
  "put_chars start sz input =
     for_range (nat sz) start (\<lambda>i buffer.
       bindR (str_at input (nat (i - start))) (\<lambda>c. arr_set i (byte_of_char c) buffer))"

definition append_string :: "int \<Rightarrow> int \<Rightarrow> string \<Rightarrow> byte list \<Rightarrow> (int \<times> byte list) result" where
  "append_string start sz input buffer =
     bindR (c_int (start + sz)) (\<lambda>stop. bindR (put_chars start sz input buffer) (\<lambda>buffer. Inr (stop, buffer)))"

text \<open>The type codes of the protocol, \<^verbatim>\<open>QueryResult::type\<close>; none for an unnamed type id.\<close>

fun cql_type :: "type_id \<Rightarrow> byte option" where
  "cql_type T_ASCII = Some 1"
| "cql_type T_BIGINT = Some 2"
| "cql_type T_BOOLEAN = Some 4"
| "cql_type T_DOUBLE = Some 7"
| "cql_type T_FLOAT = Some 8"
| "cql_type T_INT = Some 9"
| "cql_type T_SMALLINT = Some 0x13"
| "cql_type T_TINYINT = Some 0x14"
| "cql_type T_BLOB = Some 3"
| "cql_type (T_UNNAMED w) = None"

definition append_field :: "int \<Rightarrow> int \<Rightarrow> string \<Rightarrow> data_type \<Rightarrow> byte list \<Rightarrow> (int \<times> byte list) result" where
  "append_field start sz field_name t buffer =
     bindR (c_int (start + sz + 2)) (\<lambda>stop.
     bindR (arr_set (sz + start) 0 buffer) (\<lambda>buffer.
     bindR (put_chars start sz field_name buffer) (\<lambda>buffer.
     bindR (case cql_type (ty_id t) of None \<Rightarrow> Inr buffer | Some c \<Rightarrow> arr_set (sz + start + 1) c buffer) (\<lambda>buffer.
       Inr (stop, buffer)))))"

definition append_record :: "int \<Rightarrow> int \<Rightarrow> string \<Rightarrow> int \<Rightarrow> byte list \<Rightarrow> (int \<times> byte list) result" where
  "append_record start sz record_str ident buffer =
     bindR (c_int (start + sz)) (\<lambda>stop.
     bindR (if ident = sint (type_id_code T_ASCII) then put_chars start sz record_str buffer
            else if ident = sint (type_id_code T_INT)
            then bindR (stoi record_str) (\<lambda>int_data. bindR (count start 4 int_data buffer) (\<lambda>(_, buffer). Inr buffer))
            else Inr buffer) (\<lambda>buffer. Inr (stop, buffer)))"

text \<open>
  \<^verbatim>\<open>QueryResult::split\<close>. With an empty token the loop does not end, which is the value
  \<open>None\<close>.
\<close>

partial_function (option) split_loop :: "string \<Rightarrow> string \<Rightarrow> string list \<Rightarrow> string list option" where
  "split_loop token str result =
     (if str = [] then Some result
      else case find_string token str of
        Some index \<Rightarrow>
          let result = result @ [take index str];
              str = drop (index + length token) str
          in split_loop token str (if str = [] then result @ [str] else result)
      | None \<Rightarrow> split_loop token '''' (result @ [str]))"

definition split :: "string \<Rightarrow> string \<Rightarrow> string list option" where
  "split str token = split_loop token str []"

text \<open>Consecutive assignments to elements of an array.\<close>

fun set_bytes :: "int \<Rightarrow> byte list \<Rightarrow> byte list \<Rightarrow> byte list result" where
  "set_bytes i [] a = Inr a"
| "set_bytes i (b # bs) a = bindR (arr_set i b a) (set_bytes (i + 1) bs)"

text \<open>A string preceded by its length in two bytes.\<close>

definition append_text :: "string \<Rightarrow> int \<Rightarrow> byte list \<Rightarrow> (int \<times> byte list) result" where
  "append_text s index body =
     bindR (count index 2 (int (length s)) body) (\<lambda>(index, body). append_string index (int (length s)) s body)"

definition schema_change :: "string \<Rightarrow> string \<Rightarrow> byte list \<Rightarrow> (int \<times> byte list) result" where
  "schema_change keyspace table body =
     bindR (set_bytes 0 [0xFF, 0xFF, 0x0C] body) (\<lambda>body.
     bindR (append_text ''SCHEMA_CHANGE'' 7 body) (\<lambda>(index, body).
     bindR (append_text ''CREATED'' index body) (\<lambda>(index, body).
     bindR (append_text ''TABLE'' index body) (\<lambda>(index, body).
     bindR (append_text keyspace index body) (\<lambda>(index, body).
     bindR (append_text table index body) (\<lambda>(index, body).
     bindR (count 3 4 (index - 6) body) (\<lambda>(_, body). Inr (index, body))))))))"

definition create_table_result :: "string \<Rightarrow> string \<Rightarrow> byte list \<Rightarrow> (int \<times> byte list) result" where
  "create_table_result keyspace table body =
     bindR (set_bytes 0 [0, 0, 0, 5] body) (\<lambda>body.
     bindR (append_text ''CREATED'' 4 body) (\<lambda>(index, body).
     bindR (append_text ''TABLE'' index body) (\<lambda>(index, body).
     bindR (append_text keyspace index body) (\<lambda>(index, body).
       append_text table index body))))"

definition insert_record :: "byte list \<Rightarrow> (int \<times> byte list) result" where
  "insert_record body = bindR (set_bytes 0 [0, 0, 0, 4, 0, 0, 0, 1] body) (\<lambda>body. Inr (8, body))"

fun append_fields :: "field list \<Rightarrow> int \<Rightarrow> byte list \<Rightarrow> (int \<times> byte list) result" where
  "append_fields [] index body = Inr (index, body)"
| "append_fields (f # fs) index body =
     bindR (count index 2 (int (length (fd_name f))) body) (\<lambda>(index, body).
     bindR (append_field index (int (length (fd_name f))) (fd_name f) (fd_type f) body) (\<lambda>(index, body).
       append_fields fs index body))"

text \<open>One value of a record: its attributes are the text, the type id and the length.\<close>

definition append_attributes :: "string list \<Rightarrow> int \<Rightarrow> byte list \<Rightarrow> (int \<times> byte list) result" where
  "append_attributes attributes index body =
     bindR (vec_at attributes 2) (\<lambda>a2.
     bindR (stoi a2) (\<lambda>n.
     bindR (count index 4 n body) (\<lambda>(index, body).
     bindR (vec_at attributes 0) (\<lambda>a0.
     bindR (vec_at attributes 1) (\<lambda>a1.
     bindR (stoi a1) (\<lambda>ident. append_record index n a0 ident body))))))"

fun append_values :: "string list \<Rightarrow> int \<Rightarrow> byte list \<Rightarrow> (int \<times> byte list) result option" where
  "append_values [] index body = Some (Inr (index, body))"
| "append_values (val # vals) index body =
     (if val = [] then append_values vals index body
      else case split val '','' of
        None \<Rightarrow> None
      | Some attributes \<Rightarrow> (case append_attributes attributes index body of
          Inl e \<Rightarrow> Some (Inl e)
        | Inr (index, body) \<Rightarrow> append_values vals index body))"

definition select_header :: "string \<Rightarrow> string \<Rightarrow> schema \<Rightarrow> int \<Rightarrow> string \<Rightarrow> byte list \<Rightarrow> (int \<times> byte list) result" where
  "select_header keyspace table sch rows record_str body =
     bindR (set_bytes 0 (if rows < 1 \<and> record_str = '''' then [0, 0, 0, 1] else [0, 0, 0, 2]) body) (\<lambda>body.
     bindR (if rows \<le> 10 \<and> 0 \<le> rows then set_bytes 4 [0, 0, 0, 1] body
            else if rows > 10 then set_bytes 4 [0, 0, 0, 2] body else Inr body) (\<lambda>body.
     bindR (count 8 4 (int (length (sc_fields sch))) body) (\<lambda>(index, body).
     bindR (append_text keyspace index body) (\<lambda>(index, body).
     bindR (append_text table index body) (\<lambda>(index, body).
     bindR (append_fields (sc_fields sch) index body) (\<lambda>(index, body).
       count index 4 (rows + 1) body))))))"

definition select_result ::
  "string \<Rightarrow> string \<Rightarrow> schema \<Rightarrow> row list \<Rightarrow> string \<Rightarrow> byte list \<Rightarrow> (int \<times> byte list) result option" where
  "select_result keyspace table sch record_v record_str body =
     (case select_header keyspace table sch (int (length record_v)) record_str body of
        Inl e \<Rightarrow> Some (Inl e)
      | Inr (index, body) \<Rightarrow> (case split record_str ''|'' of
          None \<Rightarrow> None
        | Some values \<Rightarrow> append_values values index body))"

section \<open>Splitting\<close>

text \<open>The pieces with the token between them.\<close>

fun joined :: "string \<Rightarrow> string list \<Rightarrow> string" where
  "joined token [] = []"
| "joined token [x] = x"
| "joined token (x # y # xs) = x @ token @ joined token (y # xs)"

lemma find_string_Some:
  "find_string t s = Some n \<Longrightarrow>
    \<exists>b. s = take n s @ t @ b \<and> drop (n + length t) s = b \<and> n + length t \<le> length s"
proof (induction s arbitrary: n)
  case Nil
  then show ?case by (simp split: if_splits)
next
  case (Cons c s)
  show ?case
  proof (cases "take (length t) (c # s) = t")
    case True
    then have "n = 0" using Cons.prems by simp
    moreover have "length t \<le> length (c # s)" using True by (metis length_take min.cobounded1 min_def nat_le_linear)
    moreover have "c # s = t @ drop (length t) (c # s)" using True by (metis append_take_drop_id)
    ultimately show ?thesis by simp
  next
    case False
    then obtain m where "find_string t s = Some m" "n = Suc m" using Cons.prems by auto
    then show ?thesis using Cons.IH [of m] by auto
  qed
qed

lemma joined_cons: "xs \<noteq> [] \<Longrightarrow> joined t (x # xs) = x @ t @ joined t xs"
  by (cases xs) simp_all

lemma joined_snoc: "xs \<noteq> [] \<Longrightarrow> joined t (xs @ [y]) = joined t xs @ t @ y"
  by (induction t xs rule: joined.induct) (simp_all add: joined_cons)

lemma find_string_first:
  assumes "t \<noteq> []" "find_string t s = Some n"
  shows "find_string t (take n s) = None"
  using assms(2)
proof (induction s arbitrary: n)
  case Nil
  then show ?case using assms(1) by simp
next
  case (Cons c s)
  show ?case
  proof (cases n)
    case 0
    then show ?thesis using assms(1) by simp
  next
    case (Suc m)
    then have ne: "take (length t) (c # s) \<noteq> t" and m: "find_string t s = Some m" using Cons.prems by (auto split: if_splits)
    have "take (length t) (c # take m s) \<noteq> t"
    proof
      assume eq: "take (length t) (c # take m s) = t"
      then have "length t \<le> length (c # take m s)" by (metis length_take min.cobounded1 min_def nat_le_linear)
      then have "take (length t) (c # s) = take (length t) (c # take m s)"
        by (cases "length t") (auto simp: min_def split: if_splits)
      then show False using eq ne by simp
    qed
    then show ?thesis using Cons.IH [OF m] Suc by simp
  qed
qed

lemma split_loop_joined:
  assumes "token \<noteq> []" "str \<noteq> []"
  shows "\<exists>parts. split_loop token str acc = Some (acc @ parts) \<and> parts \<noteq> [] \<and> joined token parts = str \<and>
    (\<forall>p \<in> set parts. find_string token p = None)"
  using assms(2)
proof (induction "length str" arbitrary: str acc rule: less_induct)
  case less
  have stop: "split_loop token [] r = Some r" for r
    by (subst split_loop.simps) simp
  have none: "find_string token [] = None" using assms(1) by simp
  show ?case
  proof (cases "find_string token str")
    case None
    then have "split_loop token str acc = Some (acc @ [str])"
      using less.prems stop by (subst split_loop.simps) simp
    then show ?thesis using None by (intro exI [of _ "[str]"]) simp
  next
    case (Some n)
    let ?b = "drop (n + length token) str"
    have s: "str = take n str @ token @ ?b" "n + length token \<le> length str" using find_string_Some [OF Some] by auto
    have first: "find_string token (take n str) = None" by (rule find_string_first [OF assms(1) Some])
    have run: "split_loop token str acc =
        split_loop token ?b (if ?b = [] then acc @ [take n str] @ [?b] else acc @ [take n str])"
      using less.prems Some by (subst split_loop.simps) (simp add: Let_def del: drop_eq_Nil)
    show ?thesis
    proof (cases "?b = []")
      case True
      then have "split_loop token str acc = Some (acc @ [take n str, []])" using run stop by simp
      moreover have "joined token [take n str, []] = str" using s(1) True by simp
      ultimately show ?thesis using first none by (intro exI [of _ "[take n str, []]"]) auto
    next
      case False
      have "length ?b < length str" using assms(1) s(2) by (cases token) auto
      then obtain parts where parts: "split_loop token ?b (acc @ [take n str]) = Some ((acc @ [take n str]) @ parts)"
          "parts \<noteq> []" "joined token parts = ?b" "\<forall>p \<in> set parts. find_string token p = None"
        using less.hyps [of ?b "acc @ [take n str]"] False by blast
      have "split_loop token str acc = Some (acc @ take n str # parts)" using run False parts(1) by simp
      moreover have "joined token (take n str # parts) = str" using s(1) parts(2,3) by (simp add: joined_cons)
      ultimately show ?thesis using first parts(4) by (intro exI [of _ "take n str # parts"]) auto
    qed
  qed
qed

text \<open>With a token of one character the pieces are determined.\<close>

lemma find_string_char: "find_string [c] s = None \<longleftrightarrow> c \<notin> set s"
  by (induction s) auto

lemma joined_unique:
  assumes "joined [c] ps = joined [c] qs" "ps \<noteq> []" "qs \<noteq> []" "\<forall>p \<in> set ps \<union> set qs. c \<notin> set p"
  shows "ps = qs"
  using assms
proof (induction ps arbitrary: qs)
  case (Cons p ps)
  obtain q qs' where qs: "qs = q # qs'" using Cons.prems(3) by (cases qs) auto
  have free: "c \<notin> set p" "c \<notin> set q" using Cons.prems(4) qs by auto
  have "joined [c] (p # ps) = p @ (if ps = [] then [] else c # joined [c] ps)"
      "joined [c] (q # qs') = q @ (if qs' = [] then [] else c # joined [c] qs')"
    by (cases ps; simp) (cases qs'; simp)
  then have eq: "p @ (if ps = [] then [] else c # joined [c] ps) = q @ (if qs' = [] then [] else c # joined [c] qs')"
    using Cons.prems(1) qs by simp
  have tw: "takeWhile (\<lambda>x. x \<noteq> c) (w @ (if b then [] else c # r)) = w" if "c \<notin> set w" for w b r
    using that by (induction w) auto
  have pq: "p = q" using arg_cong [OF eq, of "takeWhile (\<lambda>x. x \<noteq> c)"] tw [OF free(1)] tw [OF free(2)] by metis
  then have rest: "(if ps = [] then [] else c # joined [c] ps) = (if qs' = [] then [] else c # joined [c] qs')"
    using eq by simp
  show ?case
  proof (cases "ps = []")
    case True
    then show ?thesis using rest pq qs by (simp split: if_splits)
  next
    case False
    then have "qs' \<noteq> []" "joined [c] ps = joined [c] qs'" using rest by (auto split: if_splits)
    then show ?thesis using Cons.IH [of qs'] False Cons.prems(4) qs pq by auto
  qed
qed simp

lemma split_joined:
  assumes "ps \<noteq> []" "ps \<noteq> [[]]" "\<forall>p \<in> set ps. c \<notin> set p"
  shows "split (joined [c] ps) [c] = Some ps"
proof -
  have "joined [c] ps \<noteq> []" using assms(1,2) by (cases ps; cases "tl ps") (auto simp: joined_cons)
  then obtain qs where qs: "split_loop [c] (joined [c] ps) [] = Some qs" "qs \<noteq> []" "joined [c] qs = joined [c] ps"
      "\<forall>p \<in> set qs. find_string [c] p = None"
    using split_loop_joined [of "[c]" "joined [c] ps" "[]"] by auto
  moreover have "qs = ps" using qs assms(1,3) by (intro joined_unique) (auto simp: find_string_char)
  ultimately show ?thesis by (simp add: split_def)
qed

section \<open>What a call emits\<close>

text \<open>The array with some bytes written over it from an index.\<close>

definition blit :: "byte list \<Rightarrow> nat \<Rightarrow> byte list \<Rightarrow> byte list" where
  "blit a i bs = take i a @ bs @ drop (i + length bs) a"

text \<open>
  A call emits \<open>bs\<close> when, at every index where they fit, it writes them and returns the index behind them.
\<close>

definition emits :: "byte list \<Rightarrow> (int \<Rightarrow> byte list \<Rightarrow> (int \<times> byte list) result) \<Rightarrow> bool" where
  "emits bs f \<longleftrightarrow> (\<forall>i a. 0 \<le> i \<longrightarrow> i + int (length bs) \<le> int (length a) \<longrightarrow> length a < 2 ^ 31 \<longrightarrow>
     f i a = Inr (i + int (length bs), blit a (nat i) bs))"

lemma emitsI:
  "(\<And>i a. 0 \<le> i \<Longrightarrow> i + int (length bs) \<le> int (length a) \<Longrightarrow> length a < 2 ^ 31 \<Longrightarrow>
    f i a = Inr (i + int (length bs), blit a (nat i) bs)) \<Longrightarrow> emits bs f"
  by (simp add: emits_def)

lemma emitsD:
  "emits bs f \<Longrightarrow> 0 \<le> i \<Longrightarrow> i + int (length bs) \<le> int (length a) \<Longrightarrow> length a < 2 ^ 31 \<Longrightarrow>
    f i a = Inr (i + int (length bs), blit a (nat i) bs)"
  by (simp add: emits_def)

lemma length_blit [simp]: "i + length bs \<le> length a \<Longrightarrow> length (blit a i bs) = length a"
  by (simp add: blit_def)

lemma blit_Nil [simp]: "blit a i [] = a"
  by (simp add: blit_def)

lemma blit_blit:
  "i + length bs + length cs \<le> length a \<Longrightarrow> blit (blit a i bs) (i + length bs) cs = blit a i (bs @ cs)"
  by (cases bs) (auto simp: blit_def min_def add.commute add.left_commute)

lemma blit_at: "j = i + length bs \<Longrightarrow> j + length cs \<le> length a \<Longrightarrow> blit (blit a i bs) j cs = blit a i (bs @ cs)"
  using blit_blit [of i bs cs a] by simp

lemma nth_blit:
  "i + length bs \<le> length a \<Longrightarrow> k < length a \<Longrightarrow>
    blit a i bs ! k = (if k < i then a ! k else if k < i + length bs then bs ! (k - i) else a ! k)"
  by (auto simp: blit_def nth_append min_def)

lemma emits_Nil: "emits [] (\<lambda>i a. Inr (i, a))"
  by (simp add: emits_def)

lemma emits_bind:
  assumes "emits bs f" "emits cs g"
  shows "emits (bs @ cs) (\<lambda>i a. bindR (f i a) (\<lambda>(i, a). g i a))"
proof (rule emitsI)
  fix i and a :: "byte list"
  assume i: "0 \<le> i" "i + int (length (bs @ cs)) \<le> int (length a)" "length a < 2 ^ 31"
  have nat: "nat (i + int (length bs)) = nat i + length bs" using i(1) by simp
  have fits: "nat i + length bs + length cs \<le> length a" using i(1,2) by simp
  then have len: "length (blit a (nat i) bs) = length a" by simp
  have "f i a = Inr (i + int (length bs), blit a (nat i) bs)" using i by (intro emitsD [OF assms(1)]) simp_all
  moreover have "g (i + int (length bs)) (blit a (nat i) bs) =
      Inr (i + int (length bs) + int (length cs), blit (blit a (nat i) bs) (nat (i + int (length bs))) cs)"
    using i len by (intro emitsD [OF assms(2)]) simp_all
  ultimately show "bindR (f i a) (\<lambda>(i, a). g i a) = Inr (i + int (length (bs @ cs)), blit a (nat i) (bs @ cs))"
    using blit_blit [OF fits] nat by simp
qed

lemma arr_set_next:
  assumes "0 \<le> i" "j = i + int (length cs)" "j < int (length a)"
  shows "arr_set j b (blit a (nat i) cs) = Inr (blit a (nat i) (cs @ [b]))"
proof -
  have j: "nat j = nat i + length cs" "nat i + length cs < length a" using assms by simp_all
  have "(blit a (nat i) cs)[nat j := b] = blit a (nat i) (cs @ [b])"
    using j by (intro nth_equalityI) (auto simp: nth_blit nth_list_update nth_append less_Suc_eq)
  then show ?thesis using assms j by (simp add: arr_set_def)
qed

lemma arr_set_last:
  assumes "0 \<le> i" "cs \<noteq> []" "j = i + int (length cs) - 1" "j < int (length a)"
  shows "arr_set j b (blit a (nat i) cs) = Inr (blit a (nat i) (butlast cs @ [b]))"
proof -
  obtain ds d where cs: "cs = ds @ [d]" using assms(2) by (metis append_butlast_last_id)
  have j: "nat j = nat i + length ds" "nat i + length ds < length a" using assms cs by simp_all
  have "(blit a (nat i) (ds @ [d]))[nat j := b] = blit a (nat i) (ds @ [b])"
    using j by (intro nth_equalityI) (auto simp: nth_blit nth_list_update nth_append less_Suc_eq)
  then show ?thesis using assms j cs by (simp add: arr_set_def)
qed

lemma arr_get_blit:
  assumes "0 \<le> i" "i \<le> j" "j < i + int (length cs)" "i + int (length cs) \<le> int (length a)"
  shows "arr_get j (blit a (nat i) cs) = Inr (cs ! nat (j - i))"
proof -
  have n: "nat (j - i) = nat j - nat i" using assms by simp
  have "nat i + length cs \<le> length a" "nat j < length a" "nat i \<le> nat j" "nat j < nat i + length cs" using assms by linarith+
  then have "blit a (nat i) cs ! nat j = cs ! nat (j - i)" using nth_blit [of "nat i" cs a "nat j"] n assms(2) by simp
  then show ?thesis using assms by (simp add: arr_get_def)
qed

text \<open>The big-endian image of a number.\<close>

definition be16 :: "int \<Rightarrow> byte list" where
  "be16 v = [word_of_int (v div 256), word_of_int v]"

definition be32 :: "int \<Rightarrow> byte list" where
  "be32 v = [word_of_int (v div 16777216), word_of_int (v div 65536), word_of_int (v div 256), word_of_int v]"

lemma length_be [simp]: "length (be16 v) = 2" "length (be32 v) = 4"
  by (simp_all add: be16_def be32_def)

lemma byte_shift: "word_of_int (x - s * 256) = (word_of_int x :: byte)"
proof -
  have "(word_of_int (s * 256) :: byte) = word_of_int s * word_of_int 256" by (rule wi_hom_mult [symmetric])
  also have "(word_of_int 256 :: byte) = 0" by simp
  finally show ?thesis by (simp add: wi_hom_sub [symmetric])
qed

lemma byte_shift_256: "word_of_int (x - s * 65536) = (word_of_int x :: byte)"
  using byte_shift [of x "s * 256"] by (simp add: mult.assoc)

lemma c_int_ok: "- (2 ^ 31) \<le> v \<Longrightarrow> v < 2 ^ 31 \<Longrightarrow> c_int v = Inr v"
  by (simp add: c_int_def)

text \<open>The numbers the three ranges of the code reach.\<close>

definition countable :: "int \<Rightarrow> bool" where
  "countable v \<longleftrightarrow> 0 \<le> v \<and> v < 16777216 \<and> v \<noteq> 256 \<and> v \<noteq> 65536"

lemma arr_set_first: "0 \<le> i \<Longrightarrow> i < int (length a) \<Longrightarrow> arr_set i b a = Inr (blit a (nat i) [b])"
  using arr_set_next [of i i "[]" a b] by simp

lemmas arr_simps = arr_set_next arr_set_last arr_get_blit

lemma for_range_one: "for_range (Suc 0) i f = f i"
proof (rule ext)
  fix s show "for_range (Suc 0) i f s = f i s" by (cases "f i s") simp_all
qed

lemma for_range_two: "for_range 2 i f s = bindR (f i s) (f (i + 1))"
  by (simp add: numeral_2_eq_2 for_range_one)

lemma for_range_four:
  "for_range 4 i f s = bindR (f i s) (\<lambda>s. bindR (f (i + 1) s) (\<lambda>s. bindR (f (i + 2) s) (f (i + 3))))"
proof -
  have "for_range (Suc (Suc 0)) j f = (\<lambda>s. bindR (f j s) (f (j + 1)))" for j
    by (rule ext) (simp add: for_range_one)
  then have "for_range (Suc (Suc (Suc 0))) j f = (\<lambda>s. bindR (f j s) (\<lambda>s. bindR (f (j + 1) s) (f (j + 1 + 1))))" for j
    by (intro ext) simp
  then show ?thesis by (simp add: numeral_eq_Suc add.commute)
qed

lemma byte_256: "(256 :: byte) = 0"
  by simp

lemma emits_count16:
  assumes "0 \<le> v" "v < 65536" "v \<noteq> 256"
  shows "emits (be16 v) (\<lambda>i. count i 2 v)"
proof (rule emitsI)
  fix i and a :: "byte list"
  assume i: "0 \<le> i" "i + int (length (be16 v)) \<le> int (length a)" "length a < 2 ^ 31"
  then have c: "c_int (i + 2) = Inr (i + 2)" by (intro c_int_ok) simp_all
  consider "v < 256" | "256 < v" "v < 65536" using assms by linarith
  then show "count i 2 v a = Inr (i + int (length (be16 v)), blit a (nat i) (be16 v))"
  proof cases
    case 1
    then show ?thesis using i c assms(1)
      by (simp add: count_def for_range_two arr_set_first [of i a] arr_simps be16_def)
  next
    case 2
    then show ?thesis using i c
      by (simp add: count_def for_range_two arr_set_first [of i a] arr_simps be16_def c_div_def byte_256)
  qed
qed

lemma count32_middle:
  assumes "65536 < v" "v < 16777216"
  shows "word_of_int (c_div (v - sint (word_of_int (v div 65536) :: byte) * 65536) 256) = (word_of_int (v div 256) :: byte)"
proof -
  let ?s = "sint (word_of_int (v div 65536) :: byte)"
  have "?s \<le> v div 65536"
    using assms zmod_le_nonneg_dividend [of "v div 65536 + 128" 256] by (simp add: int_word_sint)
  then have "0 \<le> v - ?s * 65536" by simp
  moreover have "(v - ?s * 65536) div 256 = v div 256 - ?s * 256"
    using div_mult_self1 [of 256 v "- (?s * 256)"] by simp
  ultimately show ?thesis by (simp add: c_div_def byte_256)
qed

lemma emits_count32:
  assumes "countable v"
  shows "emits (be32 v) (\<lambda>i. count i 4 v)"
proof (rule emitsI)
  fix i and a :: "byte list"
  assume i: "0 \<le> i" "i + int (length (be32 v)) \<le> int (length a)" "length a < 2 ^ 31"
  then have c: "c_int (i + 4) = Inr (i + 4)" by (intro c_int_ok) simp_all
  have v: "0 \<le> v" "v < 16777216" "v \<noteq> 256" "v \<noteq> 65536" using assms by (simp_all add: countable_def)
  have high: "(word_of_int (v div 16777216) :: byte) = 0" using v by simp
  consider "v < 256" | "256 < v" "v < 65536" | "65536 < v" using v by linarith
  then show "count i 4 v a = Inr (i + int (length (be32 v)), blit a (nat i) (be32 v))"
  proof cases
    case 1
    then show ?thesis using i c v high
      by (simp add: count_def for_range_four arr_set_first [of i a] arr_simps be32_def)
  next
    case 2
    then show ?thesis using i c high
      by (simp add: count_def for_range_four arr_set_first [of i a] arr_simps be32_def c_div_def byte_256)
  next
    case 3
    have mid: "word_of_int (c_div (v - sint (word_of_int (c_div v 65536) :: byte) * 65536) 256) = (word_of_int (v div 256) :: byte)"
      using count32_middle [OF 3 v(2)] v(1) by (simp add: c_div_def)
    have top: "word_of_int (c_div v 65536) = (word_of_int (v div 65536) :: byte)" using v(1) by (simp add: c_div_def)
    have low: "word_of_int (v - sint b * 256 - sint d * 65536) = (word_of_int v :: byte)" for b d :: byte
      using byte_shift_256 [of "v - sint b * 256" "sint d"] byte_shift [of v "sint b"] by simp
    show ?thesis using i c high 3 v
      by (simp add: count_def for_range_four arr_set_first [of i a] arr_simps be32_def mid low del: of_int_diff of_int_mult)
        (simp add: top)
  qed
qed

lemma for_range_emits:
  assumes "\<And>k b. k < length bs \<Longrightarrow> f (i + int k) (blit a (nat i) (take k bs)) =
      arr_set (i + int k) (bs ! k) (blit a (nat i) (take k bs))"
    and "0 \<le> i" "i + int (length bs) \<le> int (length a)"
  shows "for_range (length bs) i f a = Inr (blit a (nat i) bs)"
proof -
  have "for_range (length bs - k) (i + int k) f (blit a (nat i) (take k bs)) = Inr (blit a (nat i) bs)"
    if "k \<le> length bs" for k
    using that
  proof (induction "length bs - k" arbitrary: k)
    case (Suc n)
    then have k: "k < length bs" and n: "length bs - k = Suc n" by simp_all
    have "arr_set (i + int k) (bs ! k) (blit a (nat i) (take k bs)) = Inr (blit a (nat i) (take k bs @ [bs ! k]))"
      using k assms(2,3) by (intro arr_set_next) simp_all
    then have "f (i + int k) (blit a (nat i) (take k bs)) = Inr (blit a (nat i) (take (Suc k) bs))"
      using assms(1) [OF k] take_Suc_conv_app_nth [OF k] by simp
    moreover have "for_range n (i + int k + 1) f (blit a (nat i) (take (Suc k) bs)) = Inr (blit a (nat i) bs)"
    proof -
      have n': "n = length bs - Suc k" using n by simp
      from Suc.hyps(1) [OF n'] k n' show ?thesis by (simp add: algebra_simps)
    qed
    ultimately show ?case unfolding n by simp
  qed simp
  from this [of 0] show ?thesis by simp
qed

lemma put_chars_eq:
  assumes "0 \<le> i" "i + int (length s) \<le> int (length a)"
  shows "put_chars i (int (length s)) s a = Inr (blit a (nat i) (bytes_of_string s))"
proof -
  have "for_range (length (bytes_of_string s)) i
      (\<lambda>j buffer. bindR (str_at s (nat (j - i))) (\<lambda>c. arr_set j (byte_of_char c) buffer)) a =
      Inr (blit a (nat i) (bytes_of_string s))"
    using assms by (intro for_range_emits) (simp_all add: str_at_def)
  then show ?thesis by (simp add: put_chars_def)
qed

lemma emits_append_string: "emits (bytes_of_string s) (\<lambda>i. append_string i (int (length s)) s)"
  by (rule emitsI) (simp add: append_string_def put_chars_eq c_int_ok)

lemma set_bytes_eq:
  assumes "0 \<le> i" "i + int (length bs) \<le> int (length a)"
  shows "set_bytes i bs a = Inr (blit a (nat i) bs)"
  using assms
proof (induction bs arbitrary: i a)
  case (Cons b bs)
  then have "arr_set i b a = Inr (blit a (nat i) [b])" by (intro arr_set_first) simp_all
  moreover have "set_bytes (i + 1) bs (blit a (nat i) [b]) = Inr (blit (blit a (nat i) [b]) (nat (i + 1)) bs)"
    using Cons.prems by (intro Cons.IH) simp_all
  moreover have "blit (blit a (nat i) [b]) (nat (i + 1)) bs = blit a (nat i) (b # bs)"
    using blit_blit [of "nat i" "[b]" bs a] Cons.prems by (simp add: nat_add_distrib)
  ultimately show ?case by simp
qed simp

declare set_bytes.simps [simp del]

section \<open>The image of a result\<close>

text \<open>Names and values the counts reach.\<close>

definition text_ok :: "string \<Rightarrow> bool" where
  "text_ok s \<longleftrightarrow> length s < 65536 \<and> length s \<noteq> 256"

definition text_enc :: "string \<Rightarrow> byte list" where
  "text_enc s = be16 (int (length s)) @ bytes_of_string s"

lemma emits_text: "text_ok s \<Longrightarrow> emits (text_enc s) (append_text s)"
  unfolding text_enc_def append_text_def text_ok_def
  by (intro emits_bind emits_count16 emits_append_string) simp_all

definition field_enc :: "field \<Rightarrow> byte list" where
  "field_enc f = be16 (int (length (fd_name f))) @ bytes_of_string (fd_name f) @ [0, the (cql_type (ty_id (fd_type f)))]"

definition wire_field :: "field \<Rightarrow> bool" where
  "wire_field f \<longleftrightarrow> text_ok (fd_name f) \<and> cql_type (ty_id (fd_type f)) \<noteq> None"

lemma blit_after:
  assumes "i + length bs + length cs \<le> length a"
  shows "blit (blit a (i + length bs) cs) i bs = blit a i (bs @ cs)"
  using assms by (intro nth_equalityI) (auto simp: nth_blit nth_append)

lemma emits_append_field:
  assumes "cql_type (ty_id t) = Some c"
  shows "emits (bytes_of_string s @ [0, c]) (\<lambda>i. append_field i (int (length s)) s t)"
proof (rule emitsI)
  fix i and a :: "byte list"
  let ?bs = "bytes_of_string s" and ?n = "int (length s)"
  assume i: "0 \<le> i" "i + int (length (?bs @ [0, c])) \<le> int (length a)" "length a < 2 ^ 31"
  have nat: "nat (?n + i) = nat i + length ?bs" using i(1) by simp
  have fits: "nat i + length ?bs + length [0] \<le> length a" using i by simp
  have 1: "arr_set (?n + i) 0 a = Inr (blit a (nat i + length ?bs) [0])"
    using arr_set_first [of "?n + i" a 0] nat i by simp
  have "put_chars i ?n s (blit a (nat i + length ?bs) [0]) =
      Inr (blit (blit a (nat i + length ?bs) [0]) (nat i) ?bs)"
    using i fits by (intro put_chars_eq) simp_all
  then have 2: "put_chars i ?n s (blit a (nat i + length ?bs) [0]) = Inr (blit a (nat i) (?bs @ [0]))"
    using blit_after [OF fits] by simp
  have 3: "arr_set (?n + i + 1) c (blit a (nat i) (?bs @ [0])) = Inr (blit a (nat i) ((?bs @ [0]) @ [c]))"
    using i by (intro arr_set_next) simp_all
  show "append_field i ?n s t a = Inr (i + int (length (?bs @ [0, c])), blit a (nat i) (?bs @ [0, c]))"
    using i 1 2 3 assms by (simp add: append_field_def c_int_ok)
qed

lemma emits_append_fields:
  "\<forall>f \<in> set fs. wire_field f \<Longrightarrow> emits (concat (map field_enc fs)) (append_fields fs)"
proof (induction fs)
  case Nil
  show ?case by (simp add: emits_def)
next
  case (Cons f fs)
  obtain c where c: "cql_type (ty_id (fd_type f)) = Some c" using Cons.prems by (auto simp: wire_field_def)
  have n: "0 \<le> int (length (fd_name f))" "int (length (fd_name f)) < 65536" "int (length (fd_name f)) \<noteq> 256"
    using Cons.prems by (simp_all add: wire_field_def text_ok_def)
  have eq: "append_fields (f # fs) = (\<lambda>i a. bindR (count i 2 (int (length (fd_name f))) a) (\<lambda>(i, a).
      bindR (append_field i (int (length (fd_name f))) (fd_name f) (fd_type f) a) (\<lambda>(i, a). append_fields fs i a)))"
    by (intro ext) simp
  have "emits (be16 (int (length (fd_name f))) @ (bytes_of_string (fd_name f) @ [0, c]) @ concat (map field_enc fs))
      (append_fields (f # fs))"
    unfolding eq using Cons
    by (intro emits_bind emits_count16 [OF n] emits_append_field [OF c]) simp_all
  then show ?case by (simp add: field_enc_def [of f] c del: append_fields.simps)
qed

text \<open>
  A value the result can carry: a string without the two separators, or an integer that
  \<open>count\<close> writes; its type id, its length and its text as the serialiser prints them.
\<close>

fun wire_value :: "data \<Rightarrow> bool" where
  "wire_value (ASCIIData s) = (CHR '','' \<notin> set s \<and> CHR ''|'' \<notin> set s \<and> countable (int (length s)))"
| "wire_value (IntData w) = countable (sint w)"
| "wire_value _ = False"

fun value_enc :: "data \<Rightarrow> byte list" where
  "value_enc (ASCIIData s) = be32 (int (length s)) @ bytes_of_string s"
| "value_enc (IntData w) = be32 4 @ be32 (sint w)"
| "value_enc _ = []"

fun value_attributes :: "data \<Rightarrow> string list" where
  "value_attributes (ASCIIData s) = [s, ''0'', to_string_nat (length s)]"
| "value_attributes (IntData w) = [to_string_int (sint w), ''5'', ''4'']"
| "value_attributes _ = []"

lemma stoi_to_string:
  assumes "- (2 ^ 31) \<le> i" "i < 2 ^ 31"
  shows "stoi (to_string_int i) = Inr i"
proof -
  have digits: "\<forall>c \<in> set (to_string_nat n). is_digit c" for n using to_string_nat_digits by blast
  have sp: "dropWhile isspace (to_string_int i) = to_string_int i"
  proof (cases "0 \<le> i")
    case True
    obtain c cs where "to_string_nat (nat i) = c # cs" using to_string_nat_nonempty by (metis neq_Nil_conv)
    then show ?thesis using digits [of "nat i"] is_digit_not_space [of c] True by (simp add: to_string_int_def)
  next
    case False
    then show ?thesis by (simp add: to_string_int_def isspace_def)
  qed
  have "takeWhile is_digit (snd (split_sign (to_string_int i))) \<noteq> []"
  proof (cases "0 \<le> i")
    case True
    obtain c cs where c: "to_string_nat (nat i) = c # cs" using to_string_nat_nonempty by (metis neq_Nil_conv)
    then show ?thesis using digits [of "nat i"] is_digit_not_space [of c] True by (simp add: to_string_int_def)
  next
    case False
    then show ?thesis using digits to_string_nat_nonempty by (simp add: to_string_int_def)
  qed
  then show ?thesis using assms sp by (simp add: stoi_def c_integer_to_string Let_def)
qed

lemma stoi_nat: "n < 2 ^ 31 \<Longrightarrow> stoi (to_string_nat n) = Inr (int n)"
  using stoi_to_string [of "int n"] by (simp add: to_string_int_def)

lemma stoi_digits: "stoi ''0'' = Inr 0" "stoi ''4'' = Inr 4" "stoi ''5'' = Inr 5"
  by code_simp+

lemma emits_append_ascii: "emits (bytes_of_string s) (\<lambda>i. append_record i (int (length s)) s 0)"
  by (rule emitsI) (simp add: append_record_def put_chars_eq c_int_ok)

lemma emits_append_int:
  assumes "countable (sint (w :: u32))"
  shows "emits (be32 (sint w)) (\<lambda>i. append_record i 4 (to_string_int (sint w)) 5)"
proof (rule emitsI)
  fix i and a :: "byte list"
  assume i: "0 \<le> i" "i + int (length (be32 (sint w))) \<le> int (length a)" "length a < 2 ^ 31"
  have "stoi (to_string_int (sint w)) = Inr (sint w)" using sint_ge [of w] sint_lt [of w] by (intro stoi_to_string) simp_all
  then show "append_record i 4 (to_string_int (sint w)) 5 a =
      Inr (i + int (length (be32 (sint w))), blit a (nat i) (be32 (sint w)))"
    using i emitsD [OF emits_count32 [OF assms] i] by (simp add: append_record_def c_int_ok)
qed

lemma emits_attributes:
  assumes "wire_value d"
  shows "emits (value_enc d) (append_attributes (value_attributes d))"
proof (cases d)
  case (ASCIIData s)
  then have s: "countable (int (length s))" "length s < 2 ^ 31" using assms by (simp_all add: countable_def)
  have eq: "append_attributes (value_attributes d) = (\<lambda>i a. bindR (count i 4 (int (length s)) a) (\<lambda>(i, a).
      append_record i (int (length s)) s 0 a))"
    by (intro ext) (simp add: append_attributes_def ASCIIData stoi_nat [OF s(2)] stoi_digits)
  have "emits (be32 (int (length s)) @ bytes_of_string s) (append_attributes (value_attributes d))"
    unfolding eq by (intro emits_bind emits_count32 emits_append_ascii s)
  then show ?thesis by (simp add: ASCIIData)
next
  case (IntData w)
  then have w: "countable (sint w)" using assms by simp
  have eq: "append_attributes (value_attributes d) = (\<lambda>i a. bindR (count i 4 4 a) (\<lambda>(i, a).
      append_record i 4 (to_string_int (sint w)) 5 a))"
    by (intro ext) (simp add: append_attributes_def IntData stoi_digits)
  have "emits (be32 4 @ be32 (sint w)) (append_attributes (value_attributes d))"
    unfolding eq by (intro emits_bind emits_count32 emits_append_int w) (simp add: countable_def)
  then show ?thesis by (simp add: IntData)
qed (use assms in simp_all)

lemma to_string_free:
  assumes "\<not> is_digit c" "c \<noteq> CHR ''-''"
  shows "c \<notin> set (to_string_nat n)" "c \<notin> set (to_string_int i)"
  using assms to_string_nat_digits by (auto simp: to_string_int_def)

lemma separators_free: "\<not> is_digit (CHR '','')" "\<not> is_digit (CHR ''|'')"
  by (simp_all add: is_digit_def)

lemma value_attributes_free:
  assumes "wire_value d" "p \<in> set (value_attributes d)"
  shows "CHR '','' \<notin> set p" "CHR ''|'' \<notin> set p"
  using assms to_string_free [OF separators_free(1)] to_string_free [OF separators_free(2)]
  by (cases d; auto)+

lemma value_attributes_three: "wire_value d \<Longrightarrow> \<exists>x y z. value_attributes d = [x, y, z]"
  by (cases d) auto

lemma split_attributes:
  assumes "wire_value d"
  shows "split (joined '','' (value_attributes d)) '','' = Some (value_attributes d)"
  using value_attributes_three [OF assms] value_attributes_free [OF assms] by (intro split_joined) auto

lemma serialize_wire_value:
  assumes "wire_value d"
  shows "serialize_value (Some d) = Inr (joined '','' (value_attributes d) @ ''|'')"
proof (cases d)
  case (ASCIIData s)
  then have "length s < 2 ^ 32" using assms by (simp add: countable_def)
  then have "unat (of_nat (length s) :: u32) = length s" by (simp add: unat_of_nat take_bit_nat_eq_self)
  moreover have "to_string_int 0 = ''0''" by code_simp
  ultimately show ?thesis by (simp add: ASCIIData serialize_value_def unat_Type_length)
next
  case (IntData w)
  have "to_string_int 5 = ''5''" "to_string_nat 4 = ''4''" by code_simp+
  then show ?thesis by (simp add: IntData serialize_value_def Type_length_def)
qed (use assms in simp_all)

lemma serialize_wire_values:
  "\<forall>d \<in> set ds. wire_value d \<Longrightarrow>
    serialize_values (map Some ds) = Inr (concat (map (\<lambda>d. joined '','' (value_attributes d) @ ''|'') ds))"
  by (induction ds) (simp_all add: serialize_wire_value)

lemma concat_joined: "concat (map (\<lambda>d. g d @ [c]) ds) = joined [c] (map g ds @ [[]])"
  by (induction ds) (simp_all add: joined_cons)

lemma joined_free: "\<forall>p \<in> set ps. c \<notin> set p \<Longrightarrow> c \<notin> set t \<Longrightarrow> c \<notin> set (joined t ps)"
  by (induction t ps rule: joined.induct) auto

lemma split_serialized:
  assumes "\<forall>d \<in> set ds. wire_value d" "ds \<noteq> []"
  shows "split (concat (map (\<lambda>d. joined '','' (value_attributes d) @ ''|'') ds)) ''|'' =
    Some (map (\<lambda>d. joined '','' (value_attributes d)) ds @ [[]])"
proof -
  have "CHR ''|'' \<notin> set (joined '','' (value_attributes d))" if "d \<in> set ds" for d
    using that assms(1) value_attributes_free(2) by (intro joined_free) auto
  then show ?thesis unfolding concat_joined using assms(2) by (intro split_joined) auto
qed

lemma append_values_eq:
  assumes "\<forall>d \<in> set ds. wire_value d" "0 \<le> i" "i + int (length (concat (map value_enc ds))) \<le> int (length a)" "length a < 2 ^ 31"
  shows "append_values (map (\<lambda>d. joined '','' (value_attributes d)) ds @ [[]]) i a =
    Some (Inr (i + int (length (concat (map value_enc ds))), blit a (nat i) (concat (map value_enc ds))))"
  using assms
proof (induction ds arbitrary: i a)
  case (Cons d ds)
  let ?n = "length (value_enc d)" and ?rest = "concat (map value_enc ds)"
  have d: "wire_value d" using Cons.prems(1) by simp
  have ne: "joined '','' (value_attributes d) \<noteq> []" using value_attributes_three [OF d] by auto
  have fits: "nat i + ?n + length ?rest \<le> length a" using Cons.prems(2,3) by simp
  have step: "append_attributes (value_attributes d) i a = Inr (i + int ?n, blit a (nat i) (value_enc d))"
    using Cons.prems by (intro emitsD [OF emits_attributes [OF d]]) simp_all
  have "append_values (map (\<lambda>d. joined '','' (value_attributes d)) ds @ [[]]) (i + int ?n) (blit a (nat i) (value_enc d)) =
      Some (Inr (i + int ?n + int (length ?rest), blit (blit a (nat i) (value_enc d)) (nat (i + int ?n)) ?rest))"
    using Cons.prems fits by (intro Cons.IH) simp_all
  moreover have "blit (blit a (nat i) (value_enc d)) (nat (i + int ?n)) ?rest = blit a (nat i) (value_enc d @ ?rest)"
    using blit_blit [OF fits] Cons.prems(2) by (simp add: nat_add_distrib)
  ultimately show ?case using step ne split_attributes [OF d] by (simp add: algebra_simps)
qed simp

section \<open>Properties\<close>

text \<open>
  Property C33. \<open>split\<close> ends for every non-empty token, with the pieces between the occurrences of the token:
  put together with the token between them they are the string again, and the token occurs in none
  of them. Of the empty string nothing is returned.
\<close>

theorem split_returns_pieces:
  assumes "token \<noteq> []"
  shows "\<exists>parts. split str token = Some parts \<and> joined token parts = str \<and> (parts = [] \<longleftrightarrow> str = []) \<and>
    (\<forall>p \<in> set parts. find_string token p = None)"
proof (cases "str = []")
  case True
  then show ?thesis by (simp add: split_def split_loop.simps)
next
  case False
  then show ?thesis using split_loop_joined [OF assms False, of "[]"] by (auto simp: split_def)
qed

theorem split_returns_pieces_witness:
  "\<exists>parts. split ''a,b,'' '','' = Some parts \<and> joined '','' parts = ''a,b,'' \<and> parts \<noteq> []"
  using split_returns_pieces [of "'',''" "''a,b,''"] by auto

text \<open>
  Property C35. \<open>count\<close> writes the big-endian image of its number and nothing else, in two bytes for the numbers
  below 65536 but 256, in four for those below \<open>2 ^ 24\<close> but 256 and 65536; for 256, 65536 and the
  numbers from \<open>2 ^ 24\<close> on it moves the index and leaves the array as it is, and for a negative
  number it writes zeros and the last byte.
\<close>

theorem count_big_endian:
  assumes "0 \<le> i" "i + 4 \<le> int (length a)" "length a < 2 ^ 31"
  shows "count i 4 v a = Inr (i + 4,
      if v < 0 then blit a (nat i) [0, 0, 0, word_of_int v]
      else if countable v then blit a (nat i) (be32 v) else a) \<and>
    (0 \<le> v \<and> v < 65536 \<longrightarrow> count i 2 v a = Inr (i + 2, if v = 256 then a else blit a (nat i) (be16 v)))"
proof (intro conjI impI)
  have c: "c_int (i + 4) = Inr (i + 4)" "c_int (i + 2) = Inr (i + 2)" using assms by (intro c_int_ok; simp)+
  show "count i 4 v a = Inr (i + 4,
      if v < 0 then blit a (nat i) [0, 0, 0, word_of_int v]
      else if countable v then blit a (nat i) (be32 v) else a)"
  proof (cases "0 \<le> v \<and> countable v")
    case True
    then show ?thesis using emitsD [OF emits_count32, of v i a] assms by simp
  next
    case False
    then consider "v < 0" | "v = 256 \<or> v = 65536 \<or> 16777216 \<le> v" by (auto simp: countable_def)
    then show ?thesis
    proof cases
      case 1
      then show ?thesis using assms c
        by (simp add: count_def for_range_four arr_set_first [of i a] arr_simps)
    next
      case 2
      then show ?thesis using False c by (auto simp: count_def)
    qed
  qed
  assume "0 \<le> v \<and> v < 65536"
  then show "count i 2 v a = Inr (i + 2, if v = 256 then a else blit a (nat i) (be16 v))"
    using emitsD [OF emits_count16, of v i a] assms c by (auto simp: count_def)
qed

theorem count_big_endian_witness:
  "count 1 4 1000 [9, 9, 9, 9, 9, 9] = Inr (5, [9, 0, 0, 3, 232, 9]) \<and>
   count 1 4 256 [9, 9, 9, 9, 9, 9] = Inr (5, [9, 9, 9, 9, 9, 9])"
  using count_big_endian [of 1 "[9, 9, 9, 9, 9, 9]" 1000] count_big_endian [of 1 "[9, 9, 9, 9, 9, 9]" 256]
  by (simp add: countable_def blit_def be32_def)

text \<open>What the body of a result with one record is to hold.\<close>

definition columns_image :: "string \<Rightarrow> string \<Rightarrow> schema \<Rightarrow> byte list" where
  "columns_image keyspace table sch =
     be32 (int (length (sc_fields sch))) @ text_enc keyspace @ text_enc table @
     concat (map field_enc (sc_fields sch)) @ be32 1"

definition result_image :: "string \<Rightarrow> string \<Rightarrow> schema \<Rightarrow> data list \<Rightarrow> byte list" where
  "result_image keyspace table sch ds =
     [0, 0, 0, 2] @ [0, 0, 0, 1] @ columns_image keyspace table sch @ concat (map value_enc ds)"

lemma emits_columns:
  assumes "text_ok keyspace" "text_ok table" "countable (int (length (sc_fields sch)))" "\<forall>f \<in> set (sc_fields sch). wire_field f"
  shows "emits (columns_image keyspace table sch)
    (\<lambda>i a. bindR (count i 4 (int (length (sc_fields sch))) a) (\<lambda>(index, body).
     bindR (append_text keyspace index body) (\<lambda>(index, body).
     bindR (append_text table index body) (\<lambda>(index, body).
     bindR (append_fields (sc_fields sch) index body) (\<lambda>(index, body). count index 4 1 body)))))"
  unfolding columns_image_def
  by (intro emits_bind emits_count32 emits_text emits_append_fields assms) (simp add: countable_def)

lemma select_header_eq:
  assumes "text_ok keyspace" "text_ok table" "countable (int (length (sc_fields sch)))" "\<forall>f \<in> set (sc_fields sch). wire_field f"
    and "str \<noteq> []" "8 + length (columns_image keyspace table sch) \<le> length body" "length body < 2 ^ 31"
  shows "select_header keyspace table sch 0 str body =
    Inr (8 + int (length (columns_image keyspace table sch)),
      blit body 0 ([0, 0, 0, 2, 0, 0, 0, 1] @ columns_image keyspace table sch))"
proof -
  let ?pre = "[0, 0, 0, 2, 0, 0, 0, 1] :: byte list" and ?mid = "columns_image keyspace table sch"
  have "set_bytes 0 [0, 0, 0, 2] body = Inr (blit body 0 [0, 0, 0, 2])"
      "set_bytes 4 [0, 0, 0, 1] (blit body 0 [0, 0, 0, 2]) = Inr (blit (blit body 0 [0, 0, 0, 2]) 4 [0, 0, 0, 1])"
    using assms(6) by (simp_all add: set_bytes_eq)
  moreover have "blit (blit body 0 [0, 0, 0, 2]) 4 [0, 0, 0, 1] = blit body 0 ?pre"
    using assms(6) by (subst blit_at) simp_all
  moreover have "blit (blit body 0 ?pre) 8 ?mid = blit body 0 (?pre @ ?mid)"
    using assms(6) by (subst blit_at) simp_all
  moreover have "length (blit body 0 ?pre) = length body" using assms(6) by simp
  ultimately show ?thesis
    using assms(5-7) emitsD [OF emits_columns [OF assms(1-4)], of 8 "blit body 0 ?pre"]
    unfolding select_header_def by simp
qed

lemma select_result_eq:
  assumes "text_ok keyspace" "text_ok table" "countable (int (length (sc_fields sch)))"
    and "list_all wire_field (sc_fields sch)" "list_all wire_value ds" "ds \<noteq> []"
    and "length (result_image keyspace table sch ds) \<le> length body" "length body < 2 ^ 31"
  shows "\<exists>str. ResultSerializer_serialize (Some (map Some ds)) = Inr str \<and>
    select_result keyspace table sch [] str body =
      Some (Inr (int (length (result_image keyspace table sch ds)), blit body 0 (result_image keyspace table sch ds)))"
proof -
  let ?str = "concat (map (\<lambda>d. joined '','' (value_attributes d) @ ''|'') ds)"
  let ?pre = "[0, 0, 0, 2, 0, 0, 0, 1] :: byte list" and ?mid = "columns_image keyspace table sch"
  let ?vals = "concat (map value_enc ds)"
  have ds: "\<forall>d \<in> set ds. wire_value d" and fs: "\<forall>f \<in> set (sc_fields sch). wire_field f"
    using assms(4,5) by (simp_all add: list_all_iff)
  have img: "result_image keyspace table sch ds = ?pre @ ?mid @ ?vals" by (simp add: result_image_def)
  have len: "8 + length ?mid + length ?vals \<le> length body" using assms(7) unfolding img by simp
  have "select_header keyspace table sch 0 ?str body = Inr (8 + int (length ?mid), blit body 0 (?pre @ ?mid))"
    using len assms(6,8) by (intro select_header_eq [OF assms(1-3) fs]) auto
  moreover have "append_values (map (\<lambda>d. joined '','' (value_attributes d)) ds @ [[]]) (8 + int (length ?mid))
      (blit body 0 (?pre @ ?mid)) =
      Some (Inr (8 + int (length ?mid) + int (length ?vals), blit (blit body 0 (?pre @ ?mid)) (nat (8 + int (length ?mid))) ?vals))"
    using len assms(8) by (intro append_values_eq [OF ds]) simp_all
  moreover have "blit (blit body 0 (?pre @ ?mid)) (nat (8 + int (length ?mid))) ?vals = blit body 0 (?pre @ ?mid @ ?vals)"
    using len by (subst blit_at) (simp_all add: nat_add_distrib)
  ultimately have "select_result keyspace table sch [] ?str body =
      Some (Inr (8 + int (length ?mid) + int (length ?vals), blit body 0 (?pre @ ?mid @ ?vals)))"
    using split_serialized [OF ds assms(6)] by (simp add: select_result_def)
  then show ?thesis
    unfolding img using serialize_wire_values [OF ds] by (auto simp: ResultSerializer_serialize_def)
qed

text \<open>
  Property C32. The body of the answer to a query: for a record of strings without separators and of integers
  that \<open>count\<close> writes, serialised by the node that has it, \<open>select_result\<close> ends, writes exactly the
  kind, the flags, the columns of the schema with their type codes and the one row, each value with its
  length, and returns the number of bytes, in every array that has room for them.
\<close>

theorem select_result_image:
  assumes "text_ok keyspace" "text_ok table" "countable (int (length (sc_fields sch)))"
    and "list_all wire_field (sc_fields sch)" "list_all wire_value ds" "ds \<noteq> []"
    and "length (result_image keyspace table sch ds) \<le> length body" "length body < 2 ^ 31"
  shows "\<exists>str. ResultSerializer_serialize (Some (map Some ds)) = Inr str \<and>
    select_result keyspace table sch [] str body =
      Some (Inr (int (length (result_image keyspace table sch ds)), blit body 0 (result_image keyspace table sch ds)))"
  using select_result_eq [OF assms] .

definition wire_schema :: schema where
  "wire_schema = \<lparr>sc_sort_key_index = 0, sc_partition_key_index = 0,
     sc_fields = [\<lparr>fd_name = ''id'', fd_type = \<lparr>ty_id = T_INT, ty_length = 4\<rparr>\<rparr>,
       \<lparr>fd_name = ''name'', fd_type = \<lparr>ty_id = T_ASCII, ty_length = 3\<rparr>\<rparr>]\<rparr>"

theorem select_result_image_witness:
  "\<exists>str. ResultSerializer_serialize (Some [Some (IntData 7), Some (ASCIIData ''ada'')]) = Inr str \<and>
    select_result ''ks'' ''t'' wire_schema [] str (replicate 80 1) =
      Some (Inr (52, blit (replicate 80 1) 0 (result_image ''ks'' ''t'' wire_schema [IntData 7, ASCIIData ''ada''])))"
proof -
  have "length (result_image ''ks'' ''t'' wire_schema [IntData 7, ASCIIData ''ada'']) = 52"
    by (simp add: result_image_def columns_image_def text_enc_def field_enc_def wire_schema_def)
  moreover have "list_all wire_field (sc_fields wire_schema)"
    by (simp add: wire_field_def wire_schema_def text_ok_def)
  moreover have "list_all wire_value [IntData 7, ASCIIData ''ada'']" by (simp add: countable_def)
  ultimately show ?thesis
    using select_result_image [of "''ks''" "''t''" wire_schema "[IntData 7, ASCIIData ''ada'']" "replicate 80 1"]
    by (simp add: text_ok_def countable_def wire_schema_def)
qed

end
