(* ===== verification/Api_Cql_Metadata.thy ===== *)
theory Api_Cql_Metadata
  imports Api_Cql_Result
begin

text \<open>
  \<^verbatim>\<open>include/api/cql3/fake_meta.hh\<close> and \<^verbatim>\<open>lib/api/cql3/fake_meta.cc\<close>: the answers
  to the queries a driver asks about the system tables. Six of them are tables of bytes in the source, of which
  only the lengths matter here: they are the fields of a record \<open>meta_tables\<close>. The arrays the others
  are built in are uninitialised before. The lemmas describe the frames that are built, and show that no
  query makes the code leave an array.
\<close>

section \<open>Building a frame\<close>

text \<open>
  The buffer is shared, \<open>cnt\<close> is the index of the next byte. \<^verbatim>\<open>add_str\<close> takes the
  length in two bytes.
\<close>

definition add_str :: "string \<Rightarrow> int \<Rightarrow> byte list \<Rightarrow> (int \<times> byte list) result" where
  "add_str str i metadata =
     (let len = int (length str) in
      bindR (if len > 255 then
               bindR (arr_set i (word_of_int (len div 256)) metadata) (\<lambda>metadata.
                 arr_set (i + 1) (word_of_int (len - (len div 256) * 256)) metadata)
             else
               bindR (arr_set i 0 metadata) (\<lambda>metadata. arr_set (i + 1) (word_of_int len) metadata)) (\<lambda>metadata.
      bindR (put_chars (i + 2) len str metadata) (\<lambda>metadata. Inr (i + 2 + len, metadata))))"

definition append_hdrs :: "string \<Rightarrow> string \<Rightarrow> int \<Rightarrow> byte list \<Rightarrow> (int \<times> byte list) result" where
  "append_hdrs keyspace table cols metadata =
     bindR (set_bytes 4 [0, 0, 0, 2] metadata) (\<lambda>metadata.
     bindR (set_bytes 8 [0, 0, 0, 1] metadata) (\<lambda>metadata.
     bindR (set_bytes 12 [0, 0, 0, word_of_int cols] metadata) (\<lambda>metadata.
     bindR (add_str keyspace 16 metadata) (\<lambda>(cnt, metadata). add_str table cnt metadata))))"

text \<open>One round of the loop of \<^verbatim>\<open>add_schema\<close>: a column with its type, and the types inside a collection.\<close>

definition add_column :: "string \<Rightarrow> int \<Rightarrow> int \<Rightarrow> int \<Rightarrow> int \<Rightarrow> byte list \<Rightarrow> (int \<times> byte list) result" where
  "add_column s dtype t1 t2 cnt metadata =
     bindR (add_str s cnt metadata) (\<lambda>(cnt, metadata).
     bindR (set_bytes cnt [0, word_of_int dtype] metadata) (\<lambda>metadata.
       if dtype = 34 \<or> dtype = 33 \<or> dtype = 32 then
         bindR (set_bytes (cnt + 2) [0, word_of_int t1] metadata) (\<lambda>metadata.
           if dtype = 33 then
             bindR (set_bytes (cnt + 4) [0, word_of_int t2] metadata) (\<lambda>metadata. Inr (cnt + 6, metadata))
           else Inr (cnt + 4, metadata))
       else Inr (cnt + 2, metadata)))"

definition add_schema ::
  "string list \<Rightarrow> int list \<Rightarrow> int list \<Rightarrow> int list \<Rightarrow> int \<Rightarrow> int \<Rightarrow> byte list \<Rightarrow> (int \<times> byte list) result" where
  "add_schema ss dtype t1 t2 cols cnt metadata =
     for_range (nat cols) 0 (\<lambda>i (cnt, metadata).
       bindR (vec_at ss (nat i)) (\<lambda>s. bindR (vec_at dtype (nat i)) (\<lambda>d.
       bindR (vec_at t1 (nat i)) (\<lambda>a. bindR (vec_at t2 (nat i)) (\<lambda>b. add_column s d a b cnt metadata)))))
     (cnt, metadata)"

definition record_metadata :: "int \<Rightarrow> int \<Rightarrow> byte list \<Rightarrow> (int \<times> byte list) result" where
  "record_metadata rows cnt metadata =
     (if rows < 256
      then bindR (set_bytes cnt [0, 0, 0, word_of_int rows] metadata) (\<lambda>metadata. Inr (cnt + 4, metadata))
      else Inr (cnt, metadata))"

text \<open>\<^verbatim>\<open>record_size\<close> works on unsigned characters.\<close>

definition meta_record_size :: "string \<Rightarrow> int \<Rightarrow> byte list \<Rightarrow> (int \<times> byte list) result" where
  "meta_record_size rec cnt metadata =
     (let len = int (length rec) in
      bindR (set_bytes cnt [0, 0, 0, 0] metadata) (\<lambda>metadata.
      bindR (if len < 256 then arr_set (cnt + 3) (word_of_int len) metadata
             else if len \<ge> 256 \<and> len < 65536 then
               bindR (arr_set (cnt + 2) (word_of_int (len div 256)) metadata) (\<lambda>metadata.
               bindR (arr_get (cnt + 2) metadata) (\<lambda>b.
                 arr_set (cnt + 3) (word_of_int (len - 256 * uint b)) metadata))
             else Inr metadata) (\<lambda>metadata. Inr (cnt + 4, metadata))))"

fun add_records_from :: "string list \<Rightarrow> int \<Rightarrow> byte list \<Rightarrow> (int \<times> byte list) result" where
  "add_records_from [] cnt metadata = Inr (cnt, metadata)"
| "add_records_from (r # rs) cnt metadata =
     bindR (meta_record_size r cnt metadata) (\<lambda>(cnt, metadata).
     bindR (put_chars cnt (int (length r)) r metadata) (\<lambda>metadata.
       add_records_from rs (cnt + int (length r)) metadata))"

definition add_records :: "string list \<Rightarrow> int \<Rightarrow> byte list \<Rightarrow> (int \<times> byte list) result" where
  "add_records records cnt metadata =
     bindR (add_records_from records cnt metadata) (\<lambda>(cnt, metadata). Inr (cnt + 1, metadata))"

definition total_size :: "int \<Rightarrow> byte list \<Rightarrow> (int \<times> byte list) result" where
  "total_size sz metadata =
     (let sz = sz - 3 in
      bindR (set_bytes 0 [0, 0, 0, 0] metadata) (\<lambda>metadata.
      bindR (if sz < 256 then arr_set 3 (word_of_int sz) metadata
             else if sz \<ge> 256 \<and> sz < 65536 then set_bytes 2 [word_of_int (sz div 256), word_of_int (sz - (sz div 256) * 256)] metadata
             else if sz \<ge> 65536 \<and> sz < 16777216 then
               bindR (arr_set 1 (word_of_int (sz div (256 * 256))) metadata) (\<lambda>metadata.
               bindR (arr_get 1 metadata) (\<lambda>b1.
               bindR (arr_set 2 (word_of_int (c_div (sz - uint b1 * 256 * 256) 256)) metadata) (\<lambda>metadata.
               bindR (arr_get 2 metadata) (\<lambda>b2.
                 arr_set 3 (word_of_int (sz - uint b1 * 256 * 256 - uint b2 * 256)) metadata))))
             else Inr metadata) (\<lambda>metadata. Inr (sz, metadata))))"

text \<open>\<^verbatim>\<open>Metadata::append\<close>: the first bytes of one array are copied into another.\<close>

definition meta_append :: "byte list \<Rightarrow> int \<Rightarrow> byte list \<Rightarrow> byte list result" where
  "meta_append meta msg_length body =
     for_range (nat msg_length) 0 (\<lambda>i body. bindR (arr_get i meta) (\<lambda>b. arr_set i b body)) body"

section \<open>Answers\<close>

text \<open>
  The block the branches for empty tables repeat: headers, columns, no rows, the size; \<open>adjust\<close> is what
  the branch takes off the index before it computes the size.
\<close>

definition meta_columns ::
  "byte list \<Rightarrow> string \<Rightarrow> string \<Rightarrow> string list \<Rightarrow> int list \<Rightarrow> int list \<Rightarrow> int list \<Rightarrow> int \<Rightarrow> int \<Rightarrow>
   (int \<times> byte list) result" where
  "meta_columns metadata keyspace table schema dtype t1 t2 cols rows =
     bindR (append_hdrs keyspace table cols metadata) (\<lambda>(cnt, metadata).
     bindR (add_schema schema dtype t1 t2 cols cnt metadata) (\<lambda>(cnt, metadata).
       record_metadata rows cnt metadata))"

definition meta_finish :: "int \<Rightarrow> byte list \<Rightarrow> byte list \<Rightarrow> (int \<times> byte list) result" where
  "meta_finish cnt metadata body =
     bindR (total_size cnt metadata) (\<lambda>(sz, metadata).
     bindR (meta_append metadata (sz + 9) body) (\<lambda>body. Inr (sz + 9, body)))"

definition meta_empty ::
  "byte list \<Rightarrow> string \<Rightarrow> string \<Rightarrow> string list \<Rightarrow> int list \<Rightarrow> int list \<Rightarrow> int list \<Rightarrow> int \<Rightarrow> int \<Rightarrow> byte list \<Rightarrow>
   (int \<times> byte list) result" where
  "meta_empty metadata keyspace table schema dtype t1 t2 cols adjust body =
     bindR (meta_columns metadata keyspace table schema dtype t1 t2 cols 0) (\<lambda>(cnt, metadata).
       meta_finish (cnt - adjust) metadata body)"

definition meta_constant :: "byte list \<Rightarrow> int \<Rightarrow> byte list \<Rightarrow> (int \<times> byte list) result" where
  "meta_constant meta msg_length body = bindR (meta_append meta msg_length body) (\<lambda>body. Inr (msg_length, body))"

record meta_tables =
  mt_local :: "byte list"
  mt_keyspaces :: "byte list"
  mt_tables :: "byte list"
  mt_columns :: "byte list"
  mt_v_tables :: "byte list"
  mt_v_columns :: "byte list"

definition strstr :: "string \<Rightarrow> string \<Rightarrow> bool" where
  "strstr haystack needle \<longleftrightarrow> find_string needle (takeWhile (\<lambda>c. c \<noteq> CHR 0x00) haystack) \<noteq> None"

abbreviation zeros :: "nat \<Rightarrow> int list" where
  "zeros n \<equiv> replicate n 0"

definition meta_result :: "meta_tables \<Rightarrow> byte list \<Rightarrow> string \<Rightarrow> byte list \<Rightarrow> (int \<times> byte list) result" where
  "meta_result tables metadata query body =
     (if strstr query ''peers_v2'' then
        meta_empty metadata ''system'' ''peers_v2''
          [''peer'', ''peer_port'', ''data_center'', ''host_id'', ''native_address'', ''native_port'', ''preferred_ip'',
           ''preferred_port'', ''rack'', ''release_version'', ''schema_version'', ''tokens'']
          [16, 9, 13, 12, 16, 9, 16, 9, 13, 13, 12, 34] (zeros 11 @ [13]) (zeros 12) 12 0 body
      else if strstr query ''system.local'' then meta_constant (mt_local tables) 1064 body
      else if strstr query ''system_schema.keyspaces'' then meta_constant (mt_keyspaces tables) 610 body
      else if strstr query ''system_schema.tables'' then meta_constant (mt_tables tables) 20880 body
      else if strstr query ''system_schema.columns'' then meta_constant (mt_columns tables) 26982 body
      else if strstr query ''types'' then
        meta_empty metadata ''system_schema'' ''types''
          [''keyspace_name'', ''type_name'', ''field_names'', ''field_types'']
          [13, 13, 32, 32] [0, 0, 13, 13] (zeros 4) 4 1 body
      else if strstr query ''aggregates'' then
        meta_empty metadata ''system_schema'' ''aggregates''
          [''keyspace_name'', ''aggregate_name'', ''argument_types'', ''final_func'', ''initcond'', ''return_type'',
           ''state_func'', ''state_type'']
          [13, 13, 32, 13, 13, 13, 13, 13] ([0, 0, 13] @ zeros 9) (zeros 12) 8 1 body
      else if strstr query ''functions'' then
        meta_empty metadata ''system_schema'' ''functions''
          [''keyspace_name'', ''function_name'', ''argument_types'', ''argument_names'', ''body'', ''called_on_null_input'',
           ''language'', ''return_type'']
          [13, 13, 32, 32, 13, 4, 13, 13] ([0, 0, 13, 13] @ zeros 8) (zeros 12) 8 1 body
      else if strstr query ''triggers'' then
        meta_empty metadata ''system_schema'' ''triggers''
          [''keyspace_name'', ''table_name'', ''trigger_name'', ''options'']
          [13, 13, 13, 33] [0, 0, 0, 13] [0, 0, 0, 13] 4 1 body
      else if strstr query ''indexes'' then
        meta_empty metadata ''system_schema'' ''triggers''
          [''keyspace_name'', ''table_name'', ''index_name'', ''kind'', ''options'']
          [13, 13, 13, 13, 33] [0, 0, 0, 0, 13] [0, 0, 0, 0, 13] 5 1 body
      else if strstr query ''views'' then
        meta_empty metadata ''system_schema'' ''views''
          [''keyspace_name'', ''view_name'', ''additional_write_policy'', ''base_table_id'', ''base_table_name'',
           ''bloom_filter_fp_chance'', ''caching'', ''cdc'', ''comment'', ''compaction'', ''compression'', ''crc_check_chance'',
           ''dclocal_read_repair_chance'', ''default_time_to_live'', ''extensions'', ''gc_grace_seconds'', ''id'',
           ''include_all_columns'', ''max_index_interval'', ''memtable_flush_period_in_ms'', ''min_index_interval'',
           ''read_repair'', ''read_repair_chance'', ''speculative_retry'', ''where_clause'']
          [13, 13, 13, 12, 13, 7, 33, 4, 13, 33, 33, 7, 7, 9, 33, 9, 12, 4, 9, 9, 9, 13, 7, 13, 13]
          [0, 0, 0, 0, 0, 0, 13, 0, 0, 13, 13, 0, 0, 0, 13, 0, 0, 0, 0, 0, 0, 0, 0, 0, 0]
          [0, 0, 0, 0, 0, 0, 13, 0, 0, 13, 13, 0, 0, 0, 3, 0, 0, 0, 0, 0, 0, 0, 0, 0, 0] 25 1 body
      else if strstr query ''system_virtual_schema.keyspaces'' then
        bindR (meta_columns metadata ''system_virtual_schema'' ''keyspaces'' [''keyspace_name''] [13] [0] [0] 1 2) (\<lambda>(cnt, metadata).
        bindR (add_records [''system_views'', ''system_virtual_schema''] cnt metadata) (\<lambda>(cnt, metadata).
          meta_finish (cnt - 2) metadata body))
      else if strstr query ''system_virtual_schema.tables'' then meta_constant (mt_v_tables tables) 1129 body
      else if strstr query ''system_virtual_schema.columns'' then meta_constant (mt_v_columns tables) 15638 body
      else Inr (0, body))"

section \<open>What the parts emit\<close>

lemma emits_set_bytes: "emits bs (\<lambda>i a. bindR (set_bytes i bs a) (\<lambda>a. Inr (i + int (length bs), a)))"
  by (rule emitsI) (simp add: set_bytes_eq)

lemma emits_put_chars: "emits (bytes_of_string s) (\<lambda>i a. bindR (put_chars i (int (length s)) s a) (\<lambda>a. Inr (i + int (length s), a)))"
  by (rule emitsI) (simp add: put_chars_eq)

lemma emits_add_str:
  assumes "length s < 65536"
  shows "emits (text_enc s) (add_str s)"
proof (rule emitsI)
  fix i and a :: "byte list"
  let ?n = "int (length s)"
  assume i: "0 \<le> i" "i + int (length (text_enc s)) \<le> int (length a)" "length a < 2 ^ 31"
  have fits: "i + 2 + ?n \<le> int (length a)" using i(2) by (simp add: text_enc_def)
  have h: "(if ?n > 255 then
               bindR (arr_set i (word_of_int (?n div 256)) a) (\<lambda>a. arr_set (i + 1) (word_of_int (?n - (?n div 256) * 256)) a)
             else bindR (arr_set i 0 a) (\<lambda>a. arr_set (i + 1) (word_of_int ?n) a)) = Inr (blit a (nat i) (be16 ?n))"
    using i(1) fits byte_shift [of ?n "?n div 256"]
    by (simp add: arr_set_first [of i a] arr_set_next be16_def del: of_int_diff of_int_mult of_int_of_nat_eq)
  have "put_chars (i + 2) ?n s (blit a (nat i) (be16 ?n)) = Inr (blit (blit a (nat i) (be16 ?n)) (nat (i + 2)) (bytes_of_string s))"
    using i(1) fits by (intro put_chars_eq) simp_all
  moreover have "blit (blit a (nat i) (be16 ?n)) (nat (i + 2)) (bytes_of_string s) = blit a (nat i) (text_enc s)"
    using i(1) fits by (subst blit_at) (simp_all add: text_enc_def nat_add_distrib)
  ultimately show "add_str s i a = Inr (i + int (length (text_enc s)), blit a (nat i) (text_enc s))"
    unfolding add_str_def Let_def h by (simp add: text_enc_def)
qed

text \<open>A column: its name, its type and the types inside.\<close>

definition column_enc :: "string \<times> int \<times> int \<times> int \<Rightarrow> byte list" where
  "column_enc = (\<lambda>(s, d, a, b). text_enc s @ [0, word_of_int d] @
     (if d = 34 \<or> d = 33 \<or> d = 32 then [0, word_of_int a] @ (if d = 33 then [0, word_of_int b] else []) else []))"

lemma emits_add_column:
  assumes "length s < 65536"
  shows "emits (column_enc (s, d, a, b)) (add_column s d a b)"
proof -
  let ?tail = "[0, word_of_int d] @
     (if d = 34 \<or> d = 33 \<or> d = 32 then [0, word_of_int a] @ (if d = 33 then [0, word_of_int b] else []) else [])"
  have "emits ?tail (\<lambda>i m. bindR (set_bytes i [0, word_of_int d] m) (\<lambda>metadata.
       if d = 34 \<or> d = 33 \<or> d = 32 then
         bindR (set_bytes (i + 2) [0, word_of_int a] metadata) (\<lambda>metadata.
           if d = 33 then
             bindR (set_bytes (i + 4) [0, word_of_int b] metadata) (\<lambda>metadata. Inr (i + 6, metadata))
           else Inr (i + 4, metadata))
       else Inr (i + 2, metadata)))"
    by (rule emitsI) (auto simp: set_bytes_eq nat_add_distrib blit_at)
  then have "emits (text_enc s @ ?tail) (add_column s d a b)"
    unfolding add_column_def by (intro emits_bind emits_add_str assms)
  then show ?thesis by (simp add: column_enc_def)
qed

lemma emits_for_range:
  assumes "\<And>k. k < n \<Longrightarrow> emits (g k) (\<lambda>i a. f (j + int k) (i, a))"
  shows "emits (concat (map g [0..<n])) (\<lambda>i a. for_range n j f (i, a))"
  using assms
proof (induction n arbitrary: g j)
  case 0
  show ?case by (simp add: emits_Nil)
next
  case (Suc n)
  have "emits (g (Suc k)) (\<lambda>i a. f (j + 1 + int k) (i, a))" if "k < n" for k
    using Suc.prems [of "Suc k"] that by (simp add: algebra_simps)
  then have "emits (concat (map (g \<circ> Suc) [0..<n])) (\<lambda>i a. for_range n (j + 1) f (i, a))"
    using Suc.IH [of "g \<circ> Suc" "j + 1"] by (simp add: comp_def)
  then have "emits (g 0 @ concat (map (g \<circ> Suc) [0..<n])) (\<lambda>i a. bindR (f j (i, a)) (\<lambda>(i, a). for_range n (j + 1) f (i, a)))"
    using Suc.prems [of 0] by (intro emits_bind) simp_all
  moreover have "[0..<Suc n] = 0 # map Suc [0..<n]" by (simp add: map_Suc_upt upt_conv_Cons del: upt_Suc)
  ultimately show ?case by (simp del: upt_Suc)
qed

definition columns_enc :: "string list \<Rightarrow> int list \<Rightarrow> int list \<Rightarrow> int list \<Rightarrow> nat \<Rightarrow> byte list" where
  "columns_enc ss dtype t1 t2 n = concat (map (\<lambda>k. column_enc (ss ! k, dtype ! k, t1 ! k, t2 ! k)) [0..<n])"

lemma emits_add_schema:
  assumes "n \<le> length ss" "n \<le> length dtype" "n \<le> length t1" "n \<le> length t2" "\<forall>s \<in> set ss. length s < 65536"
  shows "emits (columns_enc ss dtype t1 t2 n) (add_schema ss dtype t1 t2 (int n))"
  unfolding columns_enc_def add_schema_def nat_int
proof (rule emits_for_range)
  fix k assume k: "k < n"
  then have "length (ss ! k) < 65536" using assms(1,5) by simp
  from emits_add_column [OF this, of "dtype ! k" "t1 ! k" "t2 ! k"]
  show "emits (column_enc (ss ! k, dtype ! k, t1 ! k, t2 ! k))
      (\<lambda>i a. case (i, a) of (cnt, metadata) \<Rightarrow>
       bindR (vec_at ss (nat (0 + int k))) (\<lambda>s. bindR (vec_at dtype (nat (0 + int k))) (\<lambda>d.
       bindR (vec_at t1 (nat (0 + int k))) (\<lambda>a. bindR (vec_at t2 (nat (0 + int k))) (\<lambda>b. add_column s d a b cnt metadata)))))"
    using k assms by simp
qed

lemma emits_record_metadata:
  "rows < 256 \<Longrightarrow> emits [0, 0, 0, word_of_int rows] (record_metadata rows)"
  unfolding record_metadata_def using emits_set_bytes [of "[0, 0, 0, word_of_int rows]"] by simp

lemma append_hdrs_eq:
  assumes "length keyspace < 65536" "length table < 65536" "16 + length (text_enc keyspace @ text_enc table) \<le> length a"
    "length a < 2 ^ 31"
  shows "append_hdrs keyspace table cols a =
    Inr (16 + int (length (text_enc keyspace @ text_enc table)),
      blit a 4 ([0, 0, 0, 2, 0, 0, 0, 1, 0, 0, 0, word_of_int cols] @ text_enc keyspace @ text_enc table))"
proof -
  let ?h = "[0, 0, 0, 2, 0, 0, 0, 1, 0, 0, 0, word_of_int cols] :: byte list"
  have "set_bytes 4 [0, 0, 0, 2] a = Inr (blit a 4 [0, 0, 0, 2])"
      "set_bytes 8 [0, 0, 0, 1] (blit a 4 [0, 0, 0, 2]) = Inr (blit a 4 [0, 0, 0, 2, 0, 0, 0, 1])"
      "set_bytes 12 [0, 0, 0, word_of_int cols] (blit a 4 [0, 0, 0, 2, 0, 0, 0, 1]) = Inr (blit a 4 ?h)"
    using assms(3) by (simp_all add: set_bytes_eq blit_at)
  moreover have "bindR (add_str keyspace 16 (blit a 4 ?h)) (\<lambda>(cnt, metadata). add_str table cnt metadata) =
      Inr (16 + int (length (text_enc keyspace @ text_enc table)), blit (blit a 4 ?h) 16 (text_enc keyspace @ text_enc table))"
    using assms emitsD [OF emits_bind [OF emits_add_str [OF assms(1)] emits_add_str [OF assms(2)]], of 16 "blit a 4 ?h"] by simp
  moreover have "blit (blit a 4 ?h) 16 (text_enc keyspace @ text_enc table) = blit a 4 (?h @ text_enc keyspace @ text_enc table)"
    using assms(3) by (subst blit_at) simp_all
  ultimately show ?thesis by (simp add: append_hdrs_def)
qed

text \<open>The body of a frame with rows: kind, flags, columns and the number of rows.\<close>

definition meta_image :: "string \<Rightarrow> string \<Rightarrow> string list \<Rightarrow> int list \<Rightarrow> int list \<Rightarrow> int list \<Rightarrow> nat \<Rightarrow> int \<Rightarrow> byte list" where
  "meta_image keyspace table ss dtype t1 t2 n rows =
     [0, 0, 0, 2, 0, 0, 0, 1, 0, 0, 0, of_nat n] @ text_enc keyspace @ text_enc table @
     columns_enc ss dtype t1 t2 n @ [0, 0, 0, word_of_int rows]"

definition meta_args_ok :: "string \<Rightarrow> string \<Rightarrow> string list \<Rightarrow> int list \<Rightarrow> int list \<Rightarrow> int list \<Rightarrow> nat \<Rightarrow> bool" where
  "meta_args_ok keyspace table ss dtype t1 t2 n \<longleftrightarrow> length keyspace < 65536 \<and> length table < 65536 \<and>
     n \<le> length ss \<and> n \<le> length dtype \<and> n \<le> length t1 \<and> n \<le> length t2 \<and> list_all (\<lambda>s. length s < 65536) ss"

lemma meta_columns_eq:
  assumes "meta_args_ok keyspace table ss dtype t1 t2 n" "rows < 256"
    "4 + length (meta_image keyspace table ss dtype t1 t2 n rows) \<le> length a" "length a < 2 ^ 31"
  shows "meta_columns a keyspace table ss dtype t1 t2 (int n) rows =
    Inr (4 + int (length (meta_image keyspace table ss dtype t1 t2 n rows)),
      blit a 4 (meta_image keyspace table ss dtype t1 t2 n rows))"
proof -
  let ?h = "[0, 0, 0, 2, 0, 0, 0, 1, 0, 0, 0, of_nat n] @ text_enc keyspace @ text_enc table :: byte list"
  let ?t = "columns_enc ss dtype t1 t2 n @ [0, 0, 0, word_of_int rows] :: byte list"
  have img: "meta_image keyspace table ss dtype t1 t2 n rows = ?h @ ?t" by (simp add: meta_image_def)
  have len: "4 + length ?h + length ?t \<le> length a" using assms(3) unfolding img by simp
  have ok: "length keyspace < 65536" "length table < 65536" "n \<le> length ss" "n \<le> length dtype" "n \<le> length t1" "n \<le> length t2"
      "\<forall>s \<in> set ss. length s < 65536"
    using assms(1) by (simp_all add: meta_args_ok_def list_all_iff)
  have "append_hdrs keyspace table (int n) a = Inr (4 + int (length ?h), blit a 4 ?h)"
    using len assms(4) append_hdrs_eq [OF ok(1,2), of a "int n"] by simp
  moreover have "bindR (add_schema ss dtype t1 t2 (int n) (4 + int (length ?h)) (blit a 4 ?h))
      (\<lambda>(cnt, metadata). record_metadata rows cnt metadata) =
      Inr (4 + int (length ?h) + int (length ?t), blit (blit a 4 ?h) (nat (4 + int (length ?h))) ?t)"
    using len assms(4) by (intro emitsD [OF emits_bind [OF emits_add_schema [OF ok(3-7)] emits_record_metadata [OF assms(2)]]]) simp_all
  moreover have "blit (blit a 4 ?h) (nat (4 + int (length ?h))) ?t = blit a 4 (?h @ ?t)"
    using len by (subst blit_at) (simp_all add: nat_add_distrib)
  ultimately show ?thesis unfolding img meta_columns_def by simp
qed

lemma arr_set_in:
  assumes "0 \<le> i" "i \<le> j" "j < i + int (length cs)" "i + int (length cs) \<le> int (length a)"
  shows "arr_set j b (blit a (nat i) cs) = Inr (blit a (nat i) (cs[nat (j - i) := b]))"
proof -
  have n: "nat (j - i) = nat j - nat i" "nat i \<le> nat j" "nat j < nat i + length cs" "nat i + length cs \<le> length a"
    using assms by linarith+
  obtain d where d: "nat j = nat i + d" "d < length cs" using n by (metis le_Suc_ex nat_add_left_cancel_less)
  then have "(blit a (nat i) cs)[nat j := b] = blit a (nat i) (cs[nat j - nat i := b])"
    using n(4) by (simp add: blit_def list_update_append min_def)
  then show ?thesis using assms n by (simp add: arr_set_def)
qed

lemma arr_front:
  assumes "length cs \<le> length a" "0 \<le> j" "j < int (length cs)"
  shows "arr_set j b (blit a 0 cs) = Inr (blit a 0 (cs[nat j := b]))" "arr_get j (blit a 0 cs) = Inr (cs ! nat j)"
  using arr_set_in [of 0 j cs a b] arr_get_blit [of 0 j cs a] assms by simp_all

lemma total_size_eq:
  assumes "3 \<le> n" "n < 65536" "4 \<le> length a"
  shows "total_size n a = Inr (n - 3, blit a 0 (be32 (n - 3)))"
proof -
  let ?s = "n - 3"
  have z: "set_bytes 0 [0, 0, 0, 0] a = Inr (blit a 0 [0, 0, 0, 0])" using assms(3) by (simp add: set_bytes_eq)
  have high: "(word_of_int (?s div 16777216) :: byte) = 0" "(word_of_int (?s div 65536) :: byte) = 0" using assms by simp_all
  show ?thesis
  proof (cases "?s < 256")
    case True
    then show ?thesis using z assms high by (simp add: total_size_def Let_def arr_front be32_def)
  next
    case False
    then have "set_bytes 2 [word_of_int (?s div 256), word_of_int (?s - (?s div 256) * 256)] (blit a 0 [0, 0, 0, 0]) =
        Inr (blit a 0 (be32 ?s))"
      using assms high byte_shift [of ?s "?s div 256"]
      by (simp add: set_bytes.simps arr_front be32_def del: of_int_diff of_int_mult)
    then show ?thesis using False z assms by (simp add: total_size_def Let_def)
  qed
qed

lemma meta_append_eq:
  assumes "0 \<le> n" "nat n \<le> length meta" "nat n \<le> length body"
  shows "meta_append meta n body = Inr (blit body 0 (take (nat n) meta))"
proof -
  have "for_range (length (take (nat n) meta)) 0 (\<lambda>i body. bindR (arr_get i meta) (\<lambda>b. arr_set i b body)) body =
      Inr (blit body (nat 0) (take (nat n) meta))"
    using assms by (intro for_range_emits) (simp_all add: arr_get_def)
  then show ?thesis using assms by (simp add: meta_append_def min_absorb2)
qed

lemma meta_finish_eq:
  assumes "3 \<le> n" "n + 6 \<le> int (length a)" "length a < 65536" "nat (n + 6) \<le> length body"
  shows "meta_finish n a body = Inr (n + 6, blit body 0 (take (nat (n + 6)) (blit a 0 (be32 (n - 3)))))"
  using assms by (simp add: meta_finish_def total_size_eq meta_append_eq add.commute)

lemma emits_record_size:
  assumes "length r < 65536"
  shows "emits (be32 (int (length r))) (meta_record_size r)"
proof (rule emitsI)
  fix i and a :: "byte list"
  let ?n = "int (length r)"
  assume i: "0 \<le> i" "i + int (length (be32 ?n)) \<le> int (length a)" "length a < 2 ^ 31"
  have z: "set_bytes i [0, 0, 0, 0] a = Inr (blit a (nat i) [0, 0, 0, 0])" using i by (simp add: set_bytes_eq)
  have high: "(word_of_int (?n div 16777216) :: byte) = 0" "(word_of_int (?n div 65536) :: byte) = 0" using assms by simp_all
  have low: "word_of_int (?n - 256 * x) = (word_of_int ?n :: byte)" for x using byte_shift [of ?n x] by (simp add: mult.commute)
  show "meta_record_size r i a = Inr (i + int (length (be32 ?n)), blit a (nat i) (be32 ?n))"
    using z i assms high low
    by (simp add: meta_record_size_def Let_def arr_set_in arr_get_blit be32_def
        del: of_int_diff of_int_mult of_int_of_nat_eq)
qed

definition record_enc :: "string \<Rightarrow> byte list" where
  "record_enc r = be32 (int (length r)) @ bytes_of_string r"

lemma emits_add_records_from:
  "\<forall>r \<in> set rs. length r < 65536 \<Longrightarrow> emits (concat (map record_enc rs)) (add_records_from rs)"
proof (induction rs)
  case Nil
  show ?case by (simp add: emits_def)
next
  case (Cons r rs)
  have eq: "add_records_from (r # rs) = (\<lambda>i a. bindR (meta_record_size r i a) (\<lambda>(i, a).
      bindR (bindR (put_chars i (int (length r)) r a) (\<lambda>a. Inr (i + int (length r), a))) (\<lambda>(i, a). add_records_from rs i a)))"
    by (intro ext) (simp add: bindR_assoc)
  have "emits (be32 (int (length r)) @ bytes_of_string r @ concat (map record_enc rs)) (add_records_from (r # rs))"
    unfolding eq using Cons by (intro emits_bind emits_record_size emits_put_chars) simp_all
  then show ?case by (simp add: record_enc_def [of r] del: add_records_from.simps)
qed

lemma blit_front: "4 \<le> length a \<Longrightarrow> 4 + length img \<le> length a \<Longrightarrow>
    blit (blit a 4 img) 0 (be32 v) = be32 v @ img @ drop (4 + length img) a"
  by (simp add: blit_def)

lemma meta_empty_eq:
  assumes img_def: "img = meta_image keyspace table ss dtype t1 t2 n 0"
    and "meta_args_ok keyspace table ss dtype t1 t2 n" "0 \<le> adjust" "adjust \<le> 1"
    "length img + 10 \<le> length junk" "length junk < 65536" "length img + 10 \<le> length body"
  shows "meta_empty junk keyspace table ss dtype t1 t2 (int n) adjust body =
    (let sz = int (length img) + 1 - adjust
     in Inr (sz + 9, blit body 0 (take (nat (sz + 9)) (be32 sz @ img @ drop (4 + length img) junk))))"
proof -
  have "12 \<le> length img" by (simp add: img_def meta_image_def)
  have "meta_columns junk keyspace table ss dtype t1 t2 (int n) 0 = Inr (4 + int (length img), blit junk 4 img)"
    using meta_columns_eq [OF assms(2), of 0 junk] assms(5,6) by (simp add: img_def)
  moreover have "meta_finish (4 + int (length img) - adjust) (blit junk 4 img) body =
      Inr (4 + int (length img) - adjust + 6,
        blit body 0 (take (nat (4 + int (length img) - adjust + 6)) (blit (blit junk 4 img) 0 (be32 (4 + int (length img) - adjust - 3)))))"
    using assms(3-7) \<open>12 \<le> length img\<close> by (intro meta_finish_eq) auto
  ultimately show ?thesis
    using assms(5) by (simp add: meta_empty_def Let_def blit_front algebra_simps)
qed

definition answered :: "(int \<times> byte list) result \<Rightarrow> bool" where
  "answered r \<longleftrightarrow> (\<exists>m body'. r = Inr (m, body') \<and> 0 \<le> m \<and> m \<le> 26982 \<and> length body' = 30000)"

lemma answered_if: "answered x \<Longrightarrow> answered y \<Longrightarrow> answered (if c then x else y)"
  by simp

lemma meta_empty_safe:
  assumes "meta_args_ok keyspace table ss dtype t1 t2 n" "0 \<le> adjust" "adjust \<le> 1"
    "length (meta_image keyspace table ss dtype t1 t2 n 0) \<le> 2000" "length junk = 4096" "length body = 30000"
  shows "answered (meta_empty junk keyspace table ss dtype t1 t2 (int n) adjust body)"
  using assms meta_empty_eq [OF refl assms(1-3), of junk body] by (auto simp: Let_def answered_def)

lemma meta_constant_safe:
  assumes "n \<le> length meta" "n \<le> 26982" "length body = 30000"
  shows "answered (meta_constant meta (int n) body)"
  using assms by (simp add: meta_constant_def meta_append_eq answered_def)

definition meta_tables_ok :: "meta_tables \<Rightarrow> bool" where
  "meta_tables_ok t \<longleftrightarrow> length (mt_local t) = 4096 \<and> length (mt_keyspaces t) = 4096 \<and> length (mt_tables t) = 20880 \<and>
     length (mt_columns t) = 26982 \<and> length (mt_v_tables t) = 1129 \<and> length (mt_v_columns t) = 15638"

lemma virtual_keyspaces_safe:
  assumes "length junk = 4096" "length body = 30000"
  shows "answered (bindR (meta_columns junk ''system_virtual_schema'' ''keyspaces'' [''keyspace_name''] [13] [0] [0] 1 2) (\<lambda>(cnt, metadata).
        bindR (add_records [''system_views'', ''system_virtual_schema''] cnt metadata) (\<lambda>(cnt, metadata).
          meta_finish (cnt - 2) metadata body)))"
proof -
  let ?img = "meta_image ''system_virtual_schema'' ''keyspaces'' [''keyspace_name''] [13] [0] [0] 1 2"
  let ?rs = "[''system_views'', ''system_virtual_schema'']"
  have len: "length ?img = 67" "length (concat (map record_enc ?rs)) = 41"
    by (simp_all add: meta_image_def columns_enc_def column_enc_def text_enc_def record_enc_def)
  have "meta_columns junk ''system_virtual_schema'' ''keyspaces'' [''keyspace_name''] [13] [0] [0] 1 2 = Inr (71, blit junk 4 ?img)"
    using meta_columns_eq [of "''system_virtual_schema''" "''keyspaces''" "[''keyspace_name'']" "[13]" "[0]" "[0]" 1 2 junk] len assms
    by (simp add: meta_args_ok_def)
  moreover have "add_records_from ?rs 71 (blit junk 4 ?img) = Inr (112, blit (blit junk 4 ?img) 71 (concat (map record_enc ?rs)))"
    using emitsD [OF emits_add_records_from [of ?rs], of 71 "blit junk 4 ?img"] len assms by simp
  moreover have "meta_finish 111 (blit (blit junk 4 ?img) 71 (concat (map record_enc ?rs))) body =
      Inr (117, blit body 0 (take 117 (blit (blit (blit junk 4 ?img) 71 (concat (map record_enc ?rs))) 0 (be32 108))))"
    using meta_finish_eq [of 111 "blit (blit junk 4 ?img) 71 (concat (map record_enc ?rs))" body] len assms by simp
  ultimately show ?thesis using len assms by (simp add: add_records_def answered_def)
qed

lemma length_columns_enc: "length (columns_enc ss dtype t1 t2 (length ss)) \<le> sum_list (map (\<lambda>s. length s + 8) ss)"
proof -
  have "length (columns_enc ss dtype t1 t2 (length ss)) \<le> sum_list (map (\<lambda>k. length (ss ! k) + 8) [0..<length ss])"
    unfolding columns_enc_def length_concat map_map
    by (intro sum_list_mono) (auto simp: column_enc_def text_enc_def)
  also have "map (\<lambda>k. length (ss ! k) + 8) [0..<length ss] = map (\<lambda>s. length s + 8) ss"
    by (rule nth_equalityI) simp_all
  finally show ?thesis .
qed

lemma meta_empty_in_bounds:
  assumes "length junk = 4096" "length body = 30000" "adjust \<in> {0, 1}" "cols = int (length ss)"
    and "length ss \<le> length dtype" "length ss \<le> length t1" "length ss \<le> length t2" "list_all (\<lambda>s. length s < 65536) ss"
    and "length keyspace + length table + sum_list (map (\<lambda>s. length s + 8) ss) \<le> 1900"
  shows "answered (meta_empty junk keyspace table ss dtype t1 t2 cols adjust body)"
  unfolding assms(4)
  using assms length_columns_enc [of ss dtype t1 t2]
  by (intro meta_empty_safe) (auto simp: meta_args_ok_def meta_image_def text_enc_def)

section \<open>Properties\<close>

text \<open>
  Property C34. Whatever the query, answering it from the system tables stays inside the arrays: with the tables
  of the sizes the source gives them, the 4096 bytes the frames are built in and the 30000 bytes of the
  caller, whatever these hold, a message length between 0 and 26982 is returned.
\<close>

theorem meta_result_in_bounds:
  assumes "meta_tables_ok tables" "length junk = 4096" "length body = 30000"
  shows "\<exists>m body'. meta_result tables junk query body = Inr (m, body') \<and> 0 \<le> m \<and> m \<le> 26982 \<and> length body' = 30000"
proof -
  have t: "1064 \<le> length (mt_local tables)" "610 \<le> length (mt_keyspaces tables)" "20880 \<le> length (mt_tables tables)"
      "26982 \<le> length (mt_columns tables)" "1129 \<le> length (mt_v_tables tables)" "15638 \<le> length (mt_v_columns tables)"
    using assms(1) by (simp_all add: meta_tables_ok_def)
  note tabs = t [THEN meta_constant_safe, OF _ assms(3), simplified]
  have "answered (Inr (0, body))" using assms(3) by (simp add: answered_def)
  then have "answered (meta_result tables junk query body)"
    unfolding meta_result_def
    by (intro answered_if tabs virtual_keyspaces_safe [OF assms(2,3)] meta_empty_in_bounds [OF assms(2,3)]; simp)
  then show ?thesis by (simp add: answered_def)
qed

definition zero_tables :: meta_tables where
  "zero_tables = \<lparr>mt_local = replicate 4096 0, mt_keyspaces = replicate 4096 0, mt_tables = replicate 20880 0,
     mt_columns = replicate 26982 0, mt_v_tables = replicate 1129 0, mt_v_columns = replicate 15638 0\<rparr>"

theorem meta_result_in_bounds_witness:
  "\<exists>m body'. meta_result zero_tables (replicate 4096 0) ''SELECT * FROM system_schema.types'' (replicate 30000 0) = Inr (m, body') \<and>
    m \<le> 26982"
  using meta_result_in_bounds [of zero_tables "replicate 4096 0" "replicate 30000 0" "''SELECT * FROM system_schema.types''"]
  by (auto simp: meta_tables_ok_def zero_tables_def)

text \<open>
  The frame of an empty system table: its body is the kind, the flags, the columns and the number of
  rows, and the length in front of it is the length of the body in the branches that step the index back
  before they compute it. In the branch that does not (\<^verbatim>\<open>peers_v2\<close>) one byte more is
  announced and sent.
\<close>

theorem meta_frame_length:
  assumes "img = meta_image keyspace table ss dtype t1 t2 n 0" "meta_args_ok keyspace table ss dtype t1 t2 n"
    and "adjust \<in> {0, 1}" "length img + 10 \<le> length junk" "length junk < 65536" "length img + 10 \<le> length body"
  shows "\<exists>body'. meta_empty junk keyspace table ss dtype t1 t2 (int n) adjust body =
      Inr (int (length img) + 10 - adjust, body') \<and>
    take (4 + length img) body' = be32 (int (length img) + 1 - adjust) @ img"
proof -
  let ?sz = "int (length img) + 1 - adjust"
  let ?f = "be32 ?sz @ img @ drop (4 + length img) junk"
  have adj: "0 \<le> adjust" "adjust \<le> 1" using assms(3) by auto
  have n: "4 + length img \<le> nat (?sz + 9)" using adj by linarith
  have "meta_empty junk keyspace table ss dtype t1 t2 (int n) adjust body = Inr (?sz + 9, blit body 0 (take (nat (?sz + 9)) ?f))"
    using meta_empty_eq [OF assms(1,2) adj assms(4-6)] by (simp add: Let_def)
  moreover have "take (4 + length img) (blit body 0 (take (nat (?sz + 9)) ?f)) = be32 ?sz @ img"
    using n assms(4) by (simp add: blit_def)
  ultimately show ?thesis by (simp add: algebra_simps)
qed

theorem meta_frame_length_witness:
  "\<exists>body'. meta_empty (replicate 4096 7) ''system_schema'' ''types''
      [''keyspace_name'', ''type_name'', ''field_names'', ''field_types''] [13, 13, 32, 32] [0, 0, 13, 13] (zeros 4) (int 4) 1
      (replicate 30000 0) = Inr (111, body') \<and> take 4 body' = [0, 0, 0, 102]"
proof -
  define img where img: "img = meta_image ''system_schema'' ''types'' [''keyspace_name'', ''type_name'', ''field_names'', ''field_types'']
    [13, 13, 32, 32] [0, 0, 13, 13] (zeros 4) 4 0"
  have len: "length img = 102"
    by (simp add: img meta_image_def columns_enc_def column_enc_def text_enc_def upt_rec numeral_eq_Suc)
  have ok: "meta_args_ok ''system_schema'' ''types'' [''keyspace_name'', ''type_name'', ''field_names'', ''field_types'']
    [13, 13, 32, 32] [0, 0, 13, 13] (zeros 4) 4"
    by (simp add: meta_args_ok_def)
  obtain body' where b: "meta_empty (replicate 4096 7) ''system_schema'' ''types''
      [''keyspace_name'', ''type_name'', ''field_names'', ''field_types''] [13, 13, 32, 32] [0, 0, 13, 13] (zeros 4) (int 4) 1
      (replicate 30000 0) = Inr (int (length img) + 10 - 1, body')"
      "take (4 + length img) body' = be32 (int (length img) + 1 - 1) @ img"
    using meta_frame_length [OF img ok, of 1 "replicate 4096 7" "replicate 30000 0"] len by auto
  have "take 4 body' = take 4 (take (4 + length img) body')" by simp
  also have "\<dots> = [0, 0, 0, 102]" by (subst b(2)) (simp add: len be32_def)
  finally show ?thesis using b(1) len by (intro exI [of _ body']) simp
qed

end
