(* ===== verification/Api_Http_Message.thy ===== *)
theory Api_Http_Message
  imports C_Strings Std_Map
begin

text \<open>
  \<^verbatim>\<open>include/api/prom_endp/uri.hh\<close>, \<^verbatim>\<open>http_message.hh\<close> and
  \<^verbatim>\<open>lib/api/prom_endp/http_message.cc\<close>: the messages of the metrics endpoint, printing and
  parsing. Reading from a string stream is modelled on the rest of the string: \<open>next_word\<close> is the
  formatted extraction of a word, \<open>get_lines\<close> the loop over \<^verbatim>\<open>std::getline\<close>. The
  character functions are those of the C locale. The main result is that a request survives printing
  and parsing.
\<close>

section \<open>Methods, versions and status codes\<close>

datatype http_method =
    M_GET | M_HEAD | M_POST | M_PUT | M_DELETE | M_CONNECT | M_OPTIONS | M_TRACE | M_PATCH

datatype http_version = HTTP_0_9 | HTTP_1_0 | HTTP_1_1 | HTTP_2_0

datatype http_status =
    Continue | SwitchingProtocols | EarlyHints
  | Ok | Created | Accepted | NonAuthoritativeInformation | NoContent | ResetContent | PartialContent
  | MultipleChoices | MovedPermanently | Found | NotModified
  | BadRequest | Unauthorized | Forbidden | NotFound | MethodNotAllowed | RequestTimeout | ImATeapot
  | InternalServerError | NotImplemented | BadGateway | ServiceUnvailable | GatewayTimeout
  | HttpVersionNotSupported

fun status_code :: "http_status \<Rightarrow> nat" where
  "status_code Continue = 100"
| "status_code SwitchingProtocols = 101"
| "status_code EarlyHints = 103"
| "status_code Ok = 200"
| "status_code Created = 201"
| "status_code Accepted = 202"
| "status_code NonAuthoritativeInformation = 203"
| "status_code NoContent = 204"
| "status_code ResetContent = 205"
| "status_code PartialContent = 206"
| "status_code MultipleChoices = 300"
| "status_code MovedPermanently = 301"
| "status_code Found = 302"
| "status_code NotModified = 304"
| "status_code BadRequest = 400"
| "status_code Unauthorized = 401"
| "status_code Forbidden = 403"
| "status_code NotFound = 404"
| "status_code MethodNotAllowed = 405"
| "status_code RequestTimeout = 408"
| "status_code ImATeapot = 418"
| "status_code InternalServerError = 500"
| "status_code NotImplemented = 501"
| "status_code BadGateway = 502"
| "status_code ServiceUnvailable = 503"
| "status_code GatewayTimeout = 504"
| "status_code HttpVersionNotSupported = 505"

fun method_to_string :: "http_method \<Rightarrow> string" where
  "method_to_string M_GET = ''GET''"
| "method_to_string M_HEAD = ''HEAD''"
| "method_to_string M_POST = ''POST''"
| "method_to_string M_PUT = ''PUT''"
| "method_to_string M_DELETE = ''DELETE''"
| "method_to_string M_CONNECT = ''CONNECT''"
| "method_to_string M_OPTIONS = ''OPTIONS''"
| "method_to_string M_TRACE = ''TRACE''"
| "method_to_string M_PATCH = ''PATCH''"

fun version_to_string :: "http_version \<Rightarrow> string" where
  "version_to_string HTTP_0_9 = ''HTTP/0.9''"
| "version_to_string HTTP_1_0 = ''HTTP/1.0''"
| "version_to_string HTTP_1_1 = ''HTTP/1.1''"
| "version_to_string HTTP_2_0 = ''HTTP/2.0''"

text \<open>Status codes the function does not name are printed as the empty string.\<close>

definition status_to_string :: "http_status \<Rightarrow> string" where
  "status_to_string s = (case s of
     Continue \<Rightarrow> ''Continue''
   | Ok \<Rightarrow> ''OK''
   | Accepted \<Rightarrow> ''Accepted''
   | MovedPermanently \<Rightarrow> ''Moved Permanently''
   | Found \<Rightarrow> ''Found''
   | BadRequest \<Rightarrow> ''Bad Request''
   | Forbidden \<Rightarrow> ''Forbidden''
   | NotFound \<Rightarrow> ''Not Found''
   | MethodNotAllowed \<Rightarrow> ''Method Not Allowed''
   | ImATeapot \<Rightarrow> ''I'' @ [CHR 0x27] @ ''m a Teapot''
   | InternalServerError \<Rightarrow> ''Internal Server Error''
   | NotImplemented \<Rightarrow> ''Not Implemented''
   | BadGateway \<Rightarrow> ''Bad Gateway''
   | _ \<Rightarrow> '''')"

definition string_to_method :: "string \<Rightarrow> http_method result" where
  "string_to_method method_string =
     (let s = map toupper method_string
      in if s = ''GET'' then Inr M_GET
         else if s = ''HEAD'' then Inr M_HEAD
         else if s = ''POST'' then Inr M_POST
         else if s = ''PUT'' then Inr M_PUT
         else if s = ''DELETE'' then Inr M_DELETE
         else if s = ''CONNECT'' then Inr M_CONNECT
         else if s = ''OPTIONS'' then Inr M_OPTIONS
         else if s = ''TRACE'' then Inr M_TRACE
         else if s = ''PATCH'' then Inr M_PATCH
         else Inl (invalid_argument ''Unexpected HTTP method''))"

definition string_to_version :: "string \<Rightarrow> http_version result" where
  "string_to_version version_string =
     (let s = map toupper version_string
      in if s = ''HTTP/0.9'' then Inr HTTP_0_9
         else if s = ''HTTP/1.0'' then Inr HTTP_1_0
         else if s = ''HTTP/1.1'' then Inr HTTP_1_1
         else if s = ''HTTP/2'' \<or> s = ''HTTP/2.0'' then Inr HTTP_2_0
         else Inl (invalid_argument ''Unexpected HTTP version''))"

section \<open>Messages\<close>

text \<open>A \<^verbatim>\<open>Uri\<close>: only the path is ever set.\<close>

record uri =
  ur_path :: string

definition Uri_new :: "string \<Rightarrow> uri" where
  "Uri_new path = \<lparr>ur_path = map tolower path\<rparr>"

definition Uri_less :: "uri \<Rightarrow> uri \<Rightarrow> bool" where
  "Uri_less a b \<longleftrightarrow> ur_path a < ur_path b"

record http_message =
  hm_version :: http_version
  hm_headers :: "(string \<times> string) list"
  hm_content :: string

record http_request = http_message +
  hr_method :: http_method
  hr_uri :: uri

record http_response = http_message +
  hp_status_code :: http_status

text \<open>The order on strings never throws, so assigning to the map of headers always succeeds.\<close>

definition SetHeader :: "string \<Rightarrow> string \<Rightarrow> 'a http_message_scheme \<Rightarrow> 'a http_message_scheme" where
  "SetHeader key v m =
     (case map_assign string_less key v (hm_headers m) of
        Inr h \<Rightarrow> m\<lparr>hm_headers := h\<rparr>
      | Inl e \<Rightarrow> m)"

definition RemoveHeader :: "string \<Rightarrow> 'a http_message_scheme \<Rightarrow> 'a http_message_scheme" where
  "RemoveHeader key m = m\<lparr>hm_headers := filter (\<lambda>(k, v). k \<noteq> key) (hm_headers m)\<rparr>"

definition ClearHeader :: "'a http_message_scheme \<Rightarrow> 'a http_message_scheme" where
  "ClearHeader m = m\<lparr>hm_headers := []\<rparr>"

definition SetContentLength :: "'a http_message_scheme \<Rightarrow> 'a http_message_scheme" where
  "SetContentLength m = SetHeader ''Content-Length'' (to_string_nat (length (hm_content m))) m"

definition SetContent :: "string \<Rightarrow> 'a http_message_scheme \<Rightarrow> 'a http_message_scheme" where
  "SetContent content m = SetContentLength (m\<lparr>hm_content := content\<rparr>)"

definition ClearContent :: "'a http_message_scheme \<Rightarrow> 'a http_message_scheme" where
  "ClearContent m = SetContentLength (m\<lparr>hm_content := ''''\<rparr>)"

definition header :: "string \<Rightarrow> 'a http_message_scheme \<Rightarrow> string" where
  "header key m = (case map_of (hm_headers m) key of None \<Rightarrow> '''' | Some v \<Rightarrow> v)"

definition HttpRequest_new :: http_request where
  "HttpRequest_new = \<lparr>hm_version = HTTP_1_1, hm_headers = [], hm_content = '''',
     hr_method = M_GET, hr_uri = \<lparr>ur_path = ''''\<rparr>\<rparr>"

definition HttpResponse_new :: "http_status \<Rightarrow> http_response" where
  "HttpResponse_new s = \<lparr>hm_version = HTTP_1_1, hm_headers = [], hm_content = '''', hp_status_code = s\<rparr>"

section \<open>Printing\<close>

abbreviation crlf :: string where
  "crlf \<equiv> [CHR 0x0D, CHR 0x0A]"

definition print_header :: "string \<times> string \<Rightarrow> string" where
  "print_header p = fst p @ '': '' @ snd p @ crlf"

definition request_to_string :: "http_request \<Rightarrow> string" where
  "request_to_string r =
     method_to_string (hr_method r) @ '' '' @ ur_path (hr_uri r) @ '' '' @ version_to_string (hm_version r) @ crlf @
     concat (map print_header (hm_headers r)) @ crlf @ hm_content r"

definition response_to_string :: "http_response \<Rightarrow> bool \<Rightarrow> string" where
  "response_to_string r send_content =
     version_to_string (hm_version r) @ '' '' @ to_string_nat (status_code (hp_status_code r)) @ '' '' @
     status_to_string (hp_status_code r) @ crlf @
     concat (map print_header (hm_headers r)) @ crlf @ (if send_content then hm_content r else '''')"

section \<open>Parsing\<close>

definition next_word :: "string \<Rightarrow> string \<times> string" where
  "next_word s =
     (let s = dropWhile isspace s in (takeWhile (\<lambda>c. \<not> isspace c) s, dropWhile (\<lambda>c. \<not> isspace c) s))"

text \<open>
  The lines \<^verbatim>\<open>std::getline\<close> returns until it fails: a last line without a newline counts,
  an empty rest does not.
\<close>

fun get_lines :: "string \<Rightarrow> string \<Rightarrow> string list" where
  "get_lines line [] = (if line = [] then [] else [line])"
| "get_lines line (c # s) = (if c = CHR 0x0A then line # get_lines [] s else get_lines (line @ [c]) s)"

definition remove_spaces :: "string \<Rightarrow> string" where
  "remove_spaces s = filter (\<lambda>c. \<not> isspace c) s"

text \<open>
  One header line. Without a colon the first \<^verbatim>\<open>getline\<close> reaches the end of the line and the
  second one fails before it clears its argument: \<open>value\<close> keeps what the line before left in it.
\<close>

definition parse_header :: "string \<Rightarrow> string \<Rightarrow> string \<times> string" where
  "parse_header line v =
     (remove_spaces (takeWhile (\<lambda>c. c \<noteq> CHR '':'') line),
      remove_spaces (if CHR '':'' \<in> set line
        then takeWhile (\<lambda>c. c \<noteq> CHR 0x0A) (drop 1 (dropWhile (\<lambda>c. c \<noteq> CHR '':'') line)) else v))"

fun parse_headers :: "string list \<Rightarrow> string \<Rightarrow> http_request \<Rightarrow> http_request" where
  "parse_headers [] v r = r"
| "parse_headers (line # lines) v r =
     (let (key, v) = parse_header line v in parse_headers lines v (SetHeader key v r))"

text \<open>
  The test after reading the start line never fires: an extraction that fails has reached the end of
  the stream, one that does not leaves the stream good.
\<close>

definition string_to_request :: "string \<Rightarrow> http_request result" where
  "string_to_request s = (case find_string crlf s of
     None \<Rightarrow> Inl (invalid_argument ''Could not find request start line'')
   | Some rpos \<Rightarrow>
       let start_line = take rpos s;
           rest = drop (rpos + 2) s;
           (header_lines, message_body) = (case find_string (crlf @ crlf) rest of
              None \<Rightarrow> ('''', '''')
            | Some q \<Rightarrow> (take q rest, drop (q + 4) rest));
           (m, line) = next_word start_line;
           (path, line) = next_word line;
           (version, line) = next_word line
       in bindR (string_to_method m) (\<lambda>m.
          bindR (string_to_version version) (\<lambda>v.
            if v \<noteq> hm_version HttpRequest_new then Inl (logic_error ''HTTP version not supported'')
            else Inr (SetContent message_body (parse_headers (get_lines '''' header_lines) ''''
                   (HttpRequest_new\<lparr>hr_method := m, hr_uri := Uri_new path\<rparr>))))))"

definition string_to_response :: "string \<Rightarrow> http_response result" where
  "string_to_response s = Inl (logic_error ''Method not implemented'')"

section \<open>Searching\<close>

lemma find_crlf: "CHR 0x0D \<notin> set a \<Longrightarrow> find_string crlf (a @ crlf @ s) = Some (length a)"
  using find_string_skip [of crlf "CHR 0x0D" _ a "crlf @ s"] find_string_at [of crlf s] by simp

section \<open>Header blocks\<close>

text \<open>Lines separated, not ended, by a carriage return and a line feed.\<close>

fun join_lines :: "string list \<Rightarrow> string" where
  "join_lines [] = []"
| "join_lines [b] = b"
| "join_lines (b # bs) = b @ crlf @ join_lines bs"

definition line_ok :: "string \<Rightarrow> bool" where
  "line_ok b \<longleftrightarrow> b \<noteq> [] \<and> CHR 0x0D \<notin> set b \<and> CHR 0x0A \<notin> set b"

lemma find_header_end:
  "bs \<noteq> [] \<Longrightarrow> \<forall>b \<in> set bs. line_ok b \<Longrightarrow>
    find_string (crlf @ crlf) (join_lines bs @ crlf @ crlf @ s) = Some (length (join_lines bs))"
proof (induction bs rule: join_lines.induct)
  case (2 b)
  then show ?case
    using find_string_skip [of "crlf @ crlf" "CHR 0x0D" _ b "crlf @ crlf @ s"]
      find_string_at [of "crlf @ crlf" s] by (simp add: line_ok_def)
next
  case (3 b b' bs)
  let ?r = "join_lines (b' # bs) @ crlf @ crlf @ s"
  obtain x xs where r: "?r = x # xs" "x \<noteq> CHR 0x0D"
    using 3(3) by (cases b'; cases bs) (auto simp: line_ok_def)
  have "find_string (crlf @ crlf) (crlf @ ?r) = map_option (\<lambda>n. n + 2) (find_string (crlf @ crlf) ?r)"
    unfolding r(1) using r(2) by (simp add: option.map_comp comp_def)
  moreover have "find_string (crlf @ crlf) ?r = Some (length (join_lines (b' # bs)))" using 3 by simp
  ultimately show ?case
    using find_string_skip [of "crlf @ crlf" "CHR 0x0D" _ b "crlf @ ?r"] 3(3) by (simp add: line_ok_def)
qed simp

lemma get_lines_line: "CHR 0x0A \<notin> set b \<Longrightarrow> get_lines a (b @ CHR 0x0A # s) = (a @ b) # get_lines [] s"
  by (induction b arbitrary: a) auto

lemma get_lines_last: "CHR 0x0A \<notin> set b \<Longrightarrow> a @ b \<noteq> [] \<Longrightarrow> get_lines a b = [a @ b]"
  by (induction b arbitrary: a) auto

text \<open>Every line but the last keeps its carriage return.\<close>

fun with_cr :: "string list \<Rightarrow> string list" where
  "with_cr [] = []"
| "with_cr [b] = [b]"
| "with_cr (b # bs) = (b @ [CHR 0x0D]) # with_cr bs"

lemma get_lines_join: "\<forall>b \<in> set bs. line_ok b \<Longrightarrow> get_lines [] (join_lines bs) = with_cr bs"
proof (induction bs rule: join_lines.induct)
  case (2 b)
  then show ?case using get_lines_last [of b "[]"] by (simp add: line_ok_def)
next
  case (3 b b' bs)
  then show ?case
    using get_lines_line [of "b @ [CHR 0x0D]" "[]" "join_lines (b' # bs)"] by (simp add: line_ok_def)
qed simp

definition header_line :: "string \<times> string \<Rightarrow> string" where
  "header_line p = fst p @ '': '' @ snd p"

definition header_ok :: "string \<times> string \<Rightarrow> bool" where
  "header_ok p \<longleftrightarrow> (\<forall>c \<in> set (fst p) \<union> set (snd p). \<not> isspace c) \<and> CHR '':'' \<notin> set (fst p)"

lemma print_headers: "hs \<noteq> [] \<Longrightarrow> concat (map print_header hs) = join_lines (map header_line hs) @ crlf"
proof (induction hs)
  case (Cons h hs)
  then show ?case by (cases hs) (simp_all add: print_header_def header_line_def)
qed simp

lemma not_space: "\<not> isspace c \<Longrightarrow> c \<noteq> CHR 0x0D \<and> c \<noteq> CHR 0x0A \<and> c \<noteq> CHR '' ''"
  by (auto simp: isspace_def)

lemma header_line_ok: "header_ok h \<Longrightarrow> line_ok (header_line h)"
  using not_space by (fastforce simp: header_ok_def line_ok_def header_line_def)

lemma remove_spaces_none: "\<forall>c \<in> set s. \<not> isspace c \<Longrightarrow> remove_spaces s = s"
  by (simp add: remove_spaces_def filter_id_conv)

lemma takeWhile_before: "c \<notin> set k \<Longrightarrow> takeWhile (\<lambda>x. x \<noteq> c) (k @ c # s) = k"
  by (induction k) auto

lemma dropWhile_before: "c \<notin> set k \<Longrightarrow> dropWhile (\<lambda>x. x \<noteq> c) (k @ c # s) = c # s"
  by (induction k) auto

lemma parse_header_line:
  assumes "header_ok h" "r = [] \<or> r = [CHR 0x0D]"
  shows "parse_header (header_line h @ r) v = h"
proof -
  obtain k x where h: "h = (k, x)" by (cases h)
  have k: "\<forall>c \<in> set k. \<not> isspace c" "\<forall>c \<in> set x. \<not> isspace c" "CHR '':'' \<notin> set k"
    using assms(1) by (auto simp: header_ok_def h)
  have line: "header_line h @ r = k @ CHR '':'' # CHR '' '' # x @ r" by (simp add: header_line_def h)
  have key: "takeWhile (\<lambda>c. c \<noteq> CHR '':'') (header_line h @ r) = k"
      "dropWhile (\<lambda>c. c \<noteq> CHR '':'') (header_line h @ r) = CHR '':'' # CHR '' '' # x @ r"
      "CHR '':'' \<in> set (header_line h @ r)"
    unfolding line by (rule takeWhile_before [OF k(3)], rule dropWhile_before [OF k(3)]) simp
  moreover have val: "takeWhile (\<lambda>c. c \<noteq> CHR 0x0A) (CHR '' '' # x @ r) = CHR '' '' # x @ r"
  proof -
    have "\<forall>c \<in> set (CHR '' '' # x @ r). c \<noteq> CHR 0x0A"
      using not_space k(2) assms(2) by fastforce
    then show ?thesis by (simp only: takeWhile_eq_all_conv simp_thms)
  qed
  moreover have stripped: "remove_spaces (CHR '' '' # x @ r) = x"
    using assms(2) remove_spaces_none [OF k(2)] by (auto simp: remove_spaces_def isspace_def)
  moreover have "drop 1 (dropWhile (\<lambda>c. c \<noteq> CHR '':'') (header_line h @ r)) = CHR '' '' # x @ r"
    by (simp only: key(2) drop_Suc_Cons drop_0 One_nat_def)
  ultimately show ?thesis
    unfolding parse_header_def by (simp only: if_True remove_spaces_none [OF k(1)] h)
qed

lemma parse_headers_block:
  "\<forall>h \<in> set hs. header_ok h \<Longrightarrow>
    parse_headers (with_cr (map header_line hs)) v r = fold (\<lambda>(k, x). SetHeader k x) hs r"
proof (induction hs arbitrary: v r rule: induct_list012)
  case (2 h)
  then show ?case using parse_header_line [of h "[]" v] by (simp split: prod.split)
next
  case (3 h h' hs)
  obtain k x where h: "h = (k, x)" by (cases h)
  have "parse_header (header_line h @ [CHR 0x0D]) v = (k, x)" using 3(3) parse_header_line [of h] by (simp add: h)
  then show ?case using 3 by (simp add: h)
qed simp

section \<open>Requests\<close>

lemma drop_line: "drop (length a + 2) (a @ crlf @ s) = s"
  by simp

lemma take_line: "take (length a) (a @ s) = a"
  by simp

lemma SetHeader_last:
  assumes "smap.map_ok (hm_headers m)" "\<forall>k' \<in> fst ` set (hm_headers m). k' < k"
  shows "SetHeader k v m = m\<lparr>hm_headers := hm_headers m @ [(k, v)]\<rparr>"
  using smap.assign_last [OF assms(1), of k v] assms(2) by (simp add: SetHeader_def)

lemma SetHeaders_sorted:
  "smap.map_ok (hm_headers m @ hs) \<Longrightarrow>
    fold (\<lambda>(k, x). SetHeader k x) hs m = m\<lparr>hm_headers := hm_headers m @ hs\<rparr>"
proof (induction hs arbitrary: m)
  case (Cons h hs)
  obtain k x where h: "h = (k, x)" by (cases h)
  have "SetHeader k x m = m\<lparr>hm_headers := hm_headers m @ [(k, x)]\<rparr>"
    using Cons.prems by (intro SetHeader_last) (auto simp: h smap.map_ok_append smap.map_ok_Cons)
  then show ?case using Cons.IH [of "m\<lparr>hm_headers := hm_headers m @ [(k, x)]\<rparr>"] Cons.prems by (simp add: h)
qed simp

lemma SetHeader_present:
  "smap.map_ok (hm_headers m) \<Longrightarrow> (k, v) \<in> set (hm_headers m) \<Longrightarrow> SetHeader k v m = m"
  using smap.assign_present [of "hm_headers m" k v] by (simp add: SetHeader_def)

lemma SetHeader_ok:
  assumes "smap.map_ok (hm_headers m)"
  shows "smap.map_ok (hm_headers (SetHeader k v m)) \<and>
    map_of (hm_headers (SetHeader k v m)) = (map_of (hm_headers m))(k \<mapsto> v)"
  using smap.assign_eq [OF assms, of k v] by (auto simp: SetHeader_def)

definition request_ok :: "http_request \<Rightarrow> bool" where
  "request_ok r \<longleftrightarrow> hm_version r = HTTP_1_1 \<and>
     ur_path (hr_uri r) \<noteq> [] \<and> (\<forall>c \<in> set (ur_path (hr_uri r)). \<not> isspace c \<and> tolower c = c) \<and>
     smap.map_ok (hm_headers r) \<and> (\<forall>h \<in> set (hm_headers r). header_ok h) \<and>
     (''Content-Length'', to_string_nat (length (hm_content r))) \<in> set (hm_headers r)"

lemma method_roundtrip: "string_to_method (method_to_string m) = Inr m"
  by (cases m) (simp_all add: string_to_method_def toupper_def)

lemma method_no_space: "\<forall>c \<in> set (method_to_string m). \<not> isspace c"
  by (cases m) (simp_all add: isspace_def)

lemma method_nonempty: "method_to_string m \<noteq> []"
  by (cases m) simp_all

lemma version_roundtrip: "string_to_version (version_to_string v) = Inr v"
  by (cases v) (simp_all add: string_to_version_def toupper_def)

lemma next_word_space:
  assumes "w \<noteq> []" "\<forall>c \<in> set w. \<not> isspace c"
  shows "next_word (w @ CHR '' '' # s) = (w, CHR '' '' # s)" "next_word (CHR '' '' # w @ CHR '' '' # s) = (w, CHR '' '' # s)"
    "next_word (CHR '' '' # w) = (w, [])"
proof -
  have *: "dropWhile isspace (w @ t) = w @ t" for t
    using assms by (cases w) simp_all
  have sp: "isspace (CHR '' '')" by (simp add: isspace_def)
  have "takeWhile (\<lambda>c. \<not> isspace c) (w @ CHR '' '' # s) = w" "dropWhile (\<lambda>c. \<not> isspace c) (w @ CHR '' '' # s) = CHR '' '' # s"
      "takeWhile (\<lambda>c. \<not> isspace c) w = w" "dropWhile (\<lambda>c. \<not> isspace c) w = []"
    using assms(2) sp by (simp_all add: takeWhile_append2 dropWhile_append2)
  then show "next_word (w @ CHR '' '' # s) = (w, CHR '' '' # s)" "next_word (CHR '' '' # w @ CHR '' '' # s) = (w, CHR '' '' # s)"
      "next_word (CHR '' '' # w) = (w, [])"
    using * [of "CHR '' '' # s"] * [of "[]"] sp by (simp_all add: next_word_def Let_def)
qed

section \<open>Properties\<close>

text \<open>
  Property C29. A request survives printing and parsing: method, path, headers and content, for every
  request of version 1.1 with a lower-case path without white space, header names and values without
  white space, no colon in a name, and the content length its content has.
\<close>

theorem request_roundtrip:
  assumes "request_ok r"
  shows "string_to_request (request_to_string r) = Inr r"
proof -
  let ?p = "ur_path (hr_uri r)" and ?h = "hm_headers r" and ?m = "method_to_string (hr_method r)"
  let ?line = "?m @ CHR '' '' # ?p @ CHR '' '' # ''HTTP/1.1''" and ?j = "join_lines (map header_line ?h)"
  have p: "?p \<noteq> []" "\<forall>c \<in> set ?p. \<not> isspace c" "map tolower ?p = ?p" and v: "hm_version r = HTTP_1_1"
    and h: "smap.map_ok ?h" "\<forall>h \<in> set ?h. header_ok h" "?h \<noteq> []"
      "(''Content-Length'', to_string_nat (length (hm_content r))) \<in> set ?h"
    using assms by (auto simp: request_ok_def map_idI)
  have ver: "\<forall>c \<in> set ''HTTP/1.1''. \<not> isspace c" by (simp add: isspace_def)
  have words: "next_word ?line = (?m, CHR '' '' # ?p @ CHR '' '' # ''HTTP/1.1'')"
      "next_word (CHR '' '' # ?p @ CHR '' '' # ''HTTP/1.1'') = (?p, CHR '' '' # ''HTTP/1.1'')"
      "next_word (CHR '' '' # ''HTTP/1.1'') = (''HTTP/1.1'', [])"
    using next_word_space(1) [OF method_nonempty method_no_space] next_word_space(2) [OF p(1,2)]
      next_word_space(3) [OF _ ver] by simp_all
  have str: "request_to_string r = ?line @ crlf @ ?j @ crlf @ crlf @ hm_content r"
    using print_headers [OF h(3)] v by (simp add: request_to_string_def)
  have "CHR 0x0D \<notin> set ?line"
    using method_no_space [of "hr_method r"] p(2) not_space by fastforce
  then have f1: "find_string crlf (request_to_string r) = Some (length ?line)"
    unfolding str by (rule find_crlf)
  have lines: "\<forall>b \<in> set (map header_line ?h). line_ok b" using h(2) header_line_ok by auto
  have f2: "find_string (crlf @ crlf) (?j @ crlf @ crlf @ hm_content r) = Some (length ?j)"
    using find_header_end [OF _ lines] h(3) by simp
  have drop: "drop (length ?line + 2) (request_to_string r) = ?j @ crlf @ crlf @ hm_content r"
      "take (length ?line) (request_to_string r) = ?line"
    unfolding str by (rule drop_line, rule take_line)
  let ?r0 = "HttpRequest_new\<lparr>hr_method := hr_method r, hr_uri := hr_uri r\<rparr>"
  have "parse_headers (get_lines [] ?j) [] ?r0 = ?r0\<lparr>hm_headers := ?h\<rparr>"
    using get_lines_join [OF lines] parse_headers_block [OF h(2)] SetHeaders_sorted [of ?r0 ?h] h(1)
    by (simp add: HttpRequest_new_def)
  moreover have "SetContent (hm_content r) (?r0\<lparr>hm_headers := ?h\<rparr>) = r"
    using SetHeader_present [of "?r0\<lparr>hm_headers := ?h, hm_content := hm_content r\<rparr>"] h(1,4) v
    by (simp add: SetContent_def SetContentLength_def HttpRequest_new_def)
  moreover have "Uri_new ?p = hr_uri r" using p(3) by (simp add: Uri_new_def)
  moreover have "string_to_version ''HTTP/1.1'' = Inr HTTP_1_1" using version_roundtrip [of HTTP_1_1] by simp
  ultimately show ?thesis
    unfolding string_to_request_def f1 option.case Let_def drop f2 words prod.case
    by (simp add: method_roundtrip HttpRequest_new_def)
qed

definition example_request :: http_request where
  "example_request = SetContent ''abc'' (SetHeader ''Accept'' ''*/*''
     (HttpRequest_new\<lparr>hr_method := M_POST, hr_uri := Uri_new ''/Metrics''\<rparr>))"

lemma to_string_three: "to_string_nat (Suc (Suc (Suc 0))) = ''3''"
  by code_simp

lemma example_request_eq: "example_request = \<lparr>hm_version = HTTP_1_1,
    hm_headers = [(''Accept'', ''*/*''), (''Content-Length'', ''3'')], hm_content = ''abc'',
    hr_method = M_POST, hr_uri = \<lparr>ur_path = ''/metrics''\<rparr>\<rparr>"
proof -
  have "map tolower ''/Metrics'' = ''/metrics''" by code_simp
  then show ?thesis
    using to_string_three
    by (simp add: example_request_def SetContent_def SetContentLength_def SetHeader_def HttpRequest_new_def
        string_less_def Uri_new_def)
qed

theorem request_roundtrip_witness:
  "string_to_request (''POST /metrics HTTP/1.1'' @ crlf @ ''Accept: */*'' @ crlf @ ''Content-Length: 3'' @ crlf @ crlf @
     ''abc'') = Inr example_request"
proof -
  have "request_ok example_request"
    using to_string_three
    by (simp add: example_request_eq request_ok_def header_ok_def isspace_def tolower_def smap.map_ok_def)
  from request_roundtrip [OF this] show ?thesis
    by (simp add: example_request_eq request_to_string_def print_header_def)
qed

lemma parse_headers_keep:
  "smap.map_ok (hm_headers r) \<Longrightarrow> smap.map_ok (hm_headers (parse_headers ls v r)) \<and>
    hm_version (parse_headers ls v r) = hm_version r"
proof (induction ls arbitrary: v r)
  case (Cons l ls)
  obtain k x where kx: "parse_header l v = (k, x)" by fastforce
  have "hm_version (SetHeader k x r) = hm_version r" by (simp add: SetHeader_def split: sum.split)
  then show ?case using Cons.IH [of "SetHeader k x r" x] SetHeader_ok [OF Cons.prems] kx by simp
qed simp

lemma parsed_request_errors:
  "string_to_request s = Inl e \<Longrightarrow> e \<in> {invalid_argument ''Could not find request start line'',
     invalid_argument ''Unexpected HTTP method'', invalid_argument ''Unexpected HTTP version'',
     logic_error ''HTTP version not supported''}"
proof -
  have "string_to_method m = Inl e \<Longrightarrow> e = invalid_argument ''Unexpected HTTP method''"
      "string_to_version m = Inl e \<Longrightarrow> e = invalid_argument ''Unexpected HTTP version''" for m
    by (simp_all add: string_to_method_def string_to_version_def Let_def split: if_splits)
  then show "string_to_request s = Inl e \<Longrightarrow> ?thesis"
    by (auto simp: string_to_request_def Let_def bindR_eq_Inl split: option.splits prod.splits if_splits)
qed

lemma SetContent_ok:
  assumes "smap.map_ok (hm_headers m)"
  shows "hm_version (SetContent c m) = hm_version m \<and> smap.map_ok (hm_headers (SetContent c m)) \<and>
    header ''Content-Length'' (SetContent c m) = to_string_nat (length (hm_content (SetContent c m)))"
  using SetHeader_ok [of "m\<lparr>hm_content := c\<rparr>"] assms
  by (auto simp: SetContent_def SetContentLength_def SetHeader_def header_def split: sum.splits)

lemma parsed_request_ok:
  assumes "string_to_request s = Inr r"
  shows "hm_version r = HTTP_1_1 \<and> smap.map_ok (hm_headers r) \<and>
    header ''Content-Length'' r = to_string_nat (length (hm_content r))"
proof -
  obtain c ls m u where
      r: "r = SetContent c (parse_headers ls [] (HttpRequest_new\<lparr>hr_method := m, hr_uri := u\<rparr>))"
    using assms by (auto simp: string_to_request_def Let_def bindR_eq_Inr simp del: get_lines.simps parse_headers.simps
        split: option.splits prod.splits if_splits)
  have "smap.map_ok (hm_headers (parse_headers ls [] (HttpRequest_new\<lparr>hr_method := m, hr_uri := u\<rparr>))) \<and>
      hm_version (parse_headers ls [] (HttpRequest_new\<lparr>hr_method := m, hr_uri := u\<rparr>)) = HTTP_1_1"
    using parse_headers_keep [of "HttpRequest_new\<lparr>hr_method := m, hr_uri := u\<rparr>" ls "[]"]
    by (simp add: HttpRequest_new_def)
  then show ?thesis using SetContent_ok unfolding r by metis
qed

text \<open>
  Property C30. What parsing returns is a well-formed message, whatever the bytes: version 1.1, headers in
  the order of their names, a content length header that is the length of the content. Everything else
  is refused with one of four exceptions.
\<close>

theorem parsed_request_well_formed:
  "case string_to_request s of
     Inr r \<Rightarrow> hm_version r = HTTP_1_1 \<and> smap.map_ok (hm_headers r) \<and>
       header ''Content-Length'' r = to_string_nat (length (hm_content r))
   | Inl e \<Rightarrow> e \<in> {invalid_argument ''Could not find request start line'',
       invalid_argument ''Unexpected HTTP method'', invalid_argument ''Unexpected HTTP version'',
       logic_error ''HTTP version not supported''}"
  using parsed_request_errors [of s] parsed_request_ok [of s] by (auto split: sum.split)

text \<open>A header line without a colon takes over the value of the line before it.\<close>

theorem header_without_colon:
  assumes "header_ok (k, v)" "CHR '':'' \<notin> set l" "\<forall>c \<in> set l. \<not> isspace c"
  shows "parse_headers [header_line (k, v), l] x r = SetHeader l v (SetHeader k v r)"
proof -
  have "remove_spaces v = v" using assms(1) by (intro remove_spaces_none) (auto simp: header_ok_def)
  moreover have tw: "takeWhile (\<lambda>c. c \<noteq> CHR '':'') l = l"
    using assms(2) by (intro takeWhile_eq_all_conv [THEN iffD2]) auto
  moreover have "parse_header l v = (l, v)"
    using assms(2) remove_spaces_none [OF assms(3)] calculation(1)
    by (simp only: parse_header_def tw if_False)
  ultimately show ?thesis
    using parse_header_line [OF assms(1), of "[]" x] by simp
qed

end
