(* ===== verification/Api_Http_Server.thy ===== *)
theory Api_Http_Server
  imports Api_Http_Message
begin

text \<open>
  \<^verbatim>\<open>include/api/prom_endp/http_server.hh\<close> and \<^verbatim>\<open>lib/api/prom_endp/http_server.cc\<close>:
  the table of handlers, the handling of one request and the events of a worker. What the system calls
  return is an argument of the step that uses it; the epoll instance of a worker is a map from file
  descriptors to what is registered for them, with the errors \<^verbatim>\<open>epoll_ctl\<close> documents. A
  worker is a sequence of steps; \<open>Node_Process\<close> interleaves them with those of the other threads. The lemmas show what a request is
  answered with, that a response is transmitted byte for byte, and the invariant of a worker.
\<close>

section \<open>Handlers\<close>

text \<open>The callbacks the server registers return a response and do not throw.\<close>

type_synonym handler = "http_request \<Rightarrow> http_response"
type_synonym handlers = "(string \<times> (http_method \<times> handler) list) list"

fun method_index :: "http_method \<Rightarrow> nat" where
  "method_index M_GET = 0"
| "method_index M_HEAD = 1"
| "method_index M_POST = 2"
| "method_index M_PUT = 3"
| "method_index M_DELETE = 4"
| "method_index M_CONNECT = 5"
| "method_index M_OPTIONS = 6"
| "method_index M_TRACE = 7"
| "method_index M_PATCH = 8"

definition method_less :: "http_method \<Rightarrow> http_method \<Rightarrow> bool result" where
  "method_less a b = Inr (method_index a < method_index b)"

text \<open>
  \<^verbatim>\<open>request_handlers_[uri].insert(...)\<close>: the map of methods is created when the path has
  none.
\<close>

fun insert_at :: "string \<Rightarrow> http_method \<Rightarrow> handler \<Rightarrow> handlers \<Rightarrow> handlers result" where
  "insert_at path m callback [] = Inr []"
| "insert_at path m callback ((p, ms) # hs) =
     (if p = path then bindR (map_insert method_less m callback ms) (\<lambda>ms. Inr ((p, ms) # hs))
      else bindR (insert_at path m callback hs) (\<lambda>hs. Inr ((p, ms) # hs)))"

definition RegisterHttpRequestHandler_uri :: "uri \<Rightarrow> http_method \<Rightarrow> handler \<Rightarrow> handlers \<Rightarrow> handlers result" where
  "RegisterHttpRequestHandler_uri u m callback hs =
     bindR (map_insert string_less (ur_path u) [] hs) (insert_at (ur_path u) m callback)"

definition erase_handlers :: "uri \<Rightarrow> handlers \<Rightarrow> handlers" where
  "erase_handlers u hs = filter (\<lambda>(p, ms). p \<noteq> ur_path u) hs"

definition RegisterHttpRequestHandler :: "string \<Rightarrow> http_method \<Rightarrow> handler \<Rightarrow> handlers \<Rightarrow> handlers result" where
  "RegisterHttpRequestHandler path m callback hs =
     RegisterHttpRequestHandler_uri (Uri_new path) m callback (erase_handlers (Uri_new path) hs)"

definition HandleHttpRequest :: "handlers \<Rightarrow> http_request \<Rightarrow> http_response result" where
  "HandleHttpRequest hs request =
     bindR (map_find string_less (ur_path (hr_uri request)) hs) (\<lambda>it. case it of
       None \<Rightarrow> Inr (HttpResponse_new NotFound)
     | Some ms \<Rightarrow>
         bindR (map_find method_less (hr_method request) ms) (\<lambda>callback_it. case callback_it of
           None \<Rightarrow> Inr (HttpResponse_new MethodNotAllowed)
         | Some callback \<Rightarrow> Inr (callback request)))"

section \<open>One request\<close>

definition kMaxBufferSize :: nat where
  "kMaxBufferSize = 4096"

record event_data =
  ed_fd :: int
  ed_length :: u64
  ed_cursor :: u64
  ed_buffer :: "byte list"

definition EventData_new :: event_data where
  "EventData_new = \<lparr>ed_fd = 0, ed_length = 0, ed_cursor = 0, ed_buffer = replicate kMaxBufferSize 0\<rparr>"

text \<open>A string from a character array: up to the first zero, undefined if there is none.\<close>

definition c_string :: "byte list \<Rightarrow> string result" where
  "c_string bs = (if 0 \<in> set bs then Inr (string_of_bytes (takeWhile (\<lambda>b. b \<noteq> 0) bs)) else Inl Undefined_Behaviour)"

definition strncpy :: "string \<Rightarrow> nat \<Rightarrow> byte list" where
  "strncpy s n =
     (let bs = take n (takeWhile (\<lambda>b. b \<noteq> 0) (bytes_of_string s)) in bs @ replicate (n - length bs) 0)"

text \<open>
  The handlers of \<^verbatim>\<open>std::invalid_argument\<close>, \<^verbatim>\<open>std::logic_error\<close> and
  \<^verbatim>\<open>std::exception\<close>, in that order; \<open>None\<close> for what they do not catch.
\<close>

fun catch_exception :: "error \<Rightarrow> http_response option" where
  "catch_exception (invalid_argument what) = Some (SetContent what (HttpResponse_new BadRequest))"
| "catch_exception (logic_error what) = Some (SetContent what (HttpResponse_new HttpVersionNotSupported))"
| "catch_exception (out_of_range what) = Some (SetContent what (HttpResponse_new HttpVersionNotSupported))"
| "catch_exception (runtime_error what) = Some (SetContent what (HttpResponse_new InternalServerError))"
| "catch_exception e = None"

definition HandleHttpData :: "handlers \<Rightarrow> event_data \<Rightarrow> event_data \<Rightarrow> event_data result" where
  "HandleHttpData hs raw_request raw_response =
     bindR (c_string (ed_buffer raw_request)) (\<lambda>request_string.
     bindR (case string_to_request request_string of
              Inl e \<Rightarrow> (case catch_exception e of Some r \<Rightarrow> Inr (M_GET, r) | None \<Rightarrow> Inl e)
            | Inr request \<Rightarrow> (case HandleHttpRequest hs request of
                Inr r \<Rightarrow> Inr (hr_method request, r)
              | Inl e \<Rightarrow> (case catch_exception e of Some r \<Rightarrow> Inr (hr_method request, r) | None \<Rightarrow> Inl e)))
       (\<lambda>(m, http_response).
         let response_string = response_to_string http_response (m \<noteq> M_HEAD)
         in Inr (raw_response\<lparr>ed_buffer := strncpy response_string kMaxBufferSize,
                 ed_length := of_nat (length response_string)\<rparr>)))"

section \<open>Events\<close>

datatype epoll_kind = EPOLLIN | EPOLLOUT

datatype epoll_op = CTL_ADD epoll_kind event_data | CTL_MOD epoll_kind event_data | CTL_DEL

text \<open>
  The state of a worker: what its epoll instance has registered, the open sockets, and the bytes sent on
  each.
\<close>

record worker =
  wk_interest :: "int \<Rightarrow> (epoll_kind \<times> event_data) option"
  wk_open :: "int \<Rightarrow> bool"
  wk_sent :: "int \<Rightarrow> byte list"

fun control_epoll_event :: "epoll_op \<Rightarrow> int \<Rightarrow> (worker, unit) cmd" where
  "control_epoll_event CTL_DEL fd w =
     (if wk_interest w fd = None
      then (Inl (runtime_error ''Failed to remove file descriptor (Prometheus Server)''), w)
      else (Inr (), w\<lparr>wk_interest := (wk_interest w)(fd := None)\<rparr>))"
| "control_epoll_event (CTL_ADD k d) fd w =
     (if wk_interest w fd \<noteq> None
      then (Inl (runtime_error ''Failed to add file descriptor (Prometheus Server)''), w)
      else (Inr (), w\<lparr>wk_interest := (wk_interest w)(fd \<mapsto> (k, d))\<rparr>))"
| "control_epoll_event (CTL_MOD k d) fd w =
     (if wk_interest w fd = None
      then (Inl (runtime_error ''Failed to add file descriptor (Prometheus Server)''), w)
      else (Inr (), w\<lparr>wk_interest := (wk_interest w)(fd \<mapsto> (k, d))\<rparr>))"

definition sys_close :: "int \<Rightarrow> (worker, unit) cmd" where
  "sys_close fd w = (Inr (), w\<lparr>wk_open := (wk_open w)(fd := False)\<rparr>)"

definition drop_connection :: "int \<Rightarrow> (worker, unit) cmd" where
  "drop_connection fd = bindC (control_epoll_event CTL_DEL fd) (\<lambda>_. sys_close fd)"

text \<open>What \<^verbatim>\<open>recv\<close> and \<^verbatim>\<open>send\<close> return.\<close>

datatype recv_result = Received "byte list" | PeerClosed | RecvAgain | RecvError
datatype send_result = Sent nat | SendAgain | SendError

definition handle_readable :: "handlers \<Rightarrow> event_data \<Rightarrow> recv_result \<Rightarrow> (worker, unit) cmd" where
  "handle_readable hs request r = (case r of
     Received bs \<Rightarrow>
       bindC (liftC (HandleHttpData hs (request\<lparr>ed_buffer := bs @ drop (length bs) (ed_buffer request)\<rparr>)
                (EventData_new\<lparr>ed_fd := ed_fd request\<rparr>))) (\<lambda>response.
         control_epoll_event (CTL_MOD EPOLLOUT response) (ed_fd request))
   | PeerClosed \<Rightarrow> drop_connection (ed_fd request)
   | RecvAgain \<Rightarrow> control_epoll_event (CTL_MOD EPOLLIN request) (ed_fd request)
   | RecvError \<Rightarrow> drop_connection (ed_fd request))"

text \<open>
  The bytes handed to \<^verbatim>\<open>send\<close> start at the cursor; reading past the buffer is undefined.
\<close>

definition handle_writable :: "event_data \<Rightarrow> send_result \<Rightarrow> (worker, unit) cmd" where
  "handle_writable response r w =
     (let fd = ed_fd response; c = unat (ed_cursor response); n = unat (ed_length response)
      in if length (ed_buffer response) < c + n then (Inl Undefined_Behaviour, w)
         else case r of
           Sent k \<Rightarrow>
             (let w = w\<lparr>wk_sent := (wk_sent w)(fd := wk_sent w fd @ take k (drop c (ed_buffer response)))\<rparr>
              in if k < n
                 then control_epoll_event (CTL_MOD EPOLLOUT (response\<lparr>ed_cursor := ed_cursor response + of_nat k,
                        ed_length := ed_length response - of_nat k\<rparr>)) fd w
                 else control_epoll_event (CTL_MOD EPOLLIN (EventData_new\<lparr>ed_fd := fd\<rparr>)) fd w)
         | SendAgain \<Rightarrow> control_epoll_event (CTL_ADD EPOLLOUT response) fd w
         | SendError \<Rightarrow> drop_connection fd w)"

definition HandleEpollEvent ::
  "handlers \<Rightarrow> event_data \<Rightarrow> epoll_kind \<Rightarrow> recv_result \<Rightarrow> send_result \<Rightarrow> (worker, unit) cmd" where
  "HandleEpollEvent hs data events r s =
     (if events = EPOLLIN then handle_readable hs data r else handle_writable data s)"

text \<open>
  An event of \<^verbatim>\<open>ProcessEvents\<close>: a hang-up or error flag, exactly one of the two flags, or
  something unexpected.
\<close>

datatype event_flags = HangUp | Exactly epoll_kind | Unexpected

definition process_event ::
  "handlers \<Rightarrow> event_data \<Rightarrow> event_flags \<Rightarrow> recv_result \<Rightarrow> send_result \<Rightarrow> (worker, unit) cmd" where
  "process_event hs data flags r s = (case flags of
     HangUp \<Rightarrow> drop_connection (ed_fd data)
   | Exactly k \<Rightarrow> HandleEpollEvent hs data k r s
   | Unexpected \<Rightarrow> drop_connection (ed_fd data))"

text \<open>The events of one \<^verbatim>\<open>epoll_wait\<close>, each with the data registered for it.\<close>

fun process_events ::
  "handlers \<Rightarrow> (event_data \<times> event_flags \<times> recv_result \<times> send_result) list \<Rightarrow> (worker, unit) cmd" where
  "process_events hs [] w = (Inr (), w)"
| "process_events hs ((data, flags, r, s) # evs) w =
     bindC (process_event hs data flags r s) (\<lambda>_. process_events hs evs) w"

text \<open>A connection the listener hands to a worker.\<close>

definition accept_connection :: "int \<Rightarrow> (worker, unit) cmd" where
  "accept_connection client_fd w =
     control_epoll_event (CTL_ADD EPOLLIN (EventData_new\<lparr>ed_fd := client_fd\<rparr>)) client_fd
       (w\<lparr>wk_open := (wk_open w)(client_fd := True)\<rparr>)"

section \<open>The server\<close>

text \<open>
  The listener and the workers. What \<^verbatim>\<open>setsockopt\<close>, \<^verbatim>\<open>bind\<close>,
  \<^verbatim>\<open>listen\<close> and each \<^verbatim>\<open>epoll_create1\<close> return (success or not) are
  arguments of \<open>Start\<close>.
\<close>

record http_server =
  sv_port :: u16
  sv_running :: bool
  sv_workers :: "worker list"
  sv_current_worker :: nat

definition kThreadPoolSize :: nat where
  "kThreadPoolSize = 5"

fun SetUpEpoll :: "bool list \<Rightarrow> worker list result" where
  "SetUpEpoll [] = Inr []"
| "SetUpEpoll (created # rest) =
     (if \<not> created
      then Inl (runtime_error ''Failed to create epoll file descriptor for worker (Prometheus Server)'')
      else bindR (SetUpEpoll rest) (\<lambda>ws. Inr (\<lparr>wk_interest = \<lambda>_. None, wk_open = \<lambda>_. False, wk_sent = \<lambda>_. []\<rparr> # ws)))"

text \<open>The constructor opens the socket.\<close>

definition HttpServer_new :: "u16 \<Rightarrow> bool \<Rightarrow> http_server result" where
  "HttpServer_new port created =
     (if \<not> created then Inl (runtime_error ''Failed to create a TCP socket (Prometheus Server)'')
      else Inr \<lparr>sv_port = port, sv_running = False, sv_workers = [], sv_current_worker = 0\<rparr>)"

definition Start :: "bool \<Rightarrow> bool \<Rightarrow> bool \<Rightarrow> (nat \<Rightarrow> bool) \<Rightarrow> http_server \<Rightarrow> http_server result" where
  "Start option_set bound listening created sv =
     (if \<not> option_set then Inl (runtime_error ''Failed to set socket options (Prometheus Server)'')
      else if \<not> bound then Inl (runtime_error ''Failed to bind to socket (Prometheus Server)'')
      else if \<not> listening
      then Inl (runtime_error (''Failed to listen on port (Prometheus Server)'' @ to_string_nat (unat (sv_port sv))))
      else bindR (SetUpEpoll (map created [0..<kThreadPoolSize])) (\<lambda>ws.
        Inr (sv\<lparr>sv_running := True, sv_workers := ws, sv_current_worker := 0\<rparr>)))"

definition Stop :: "http_server \<Rightarrow> http_server" where
  "Stop sv = sv\<lparr>sv_running := False\<rparr>"

text \<open>One round of the listener: the connection goes to the current worker.\<close>

definition Listen :: "int \<Rightarrow> http_server \<Rightarrow> http_server result" where
  "Listen client_fd sv =
     (if client_fd < 0 \<or> \<not> sv_running sv then Inr sv
      else case accept_connection client_fd (sv_workers sv ! sv_current_worker sv) of
        (Inl e, w) \<Rightarrow> Inl e
      | (Inr _, w) \<Rightarrow>
          let current_worker = sv_current_worker sv + 1
          in Inr (sv\<lparr>sv_workers := (sv_workers sv)[sv_current_worker sv := w],
                  sv_current_worker := (if current_worker = kThreadPoolSize then 0 else current_worker)\<rparr>))"

text \<open>One round of a worker: \<^verbatim>\<open>epoll_wait\<close> fails, or reports events.\<close>

definition ProcessEvents ::
  "handlers \<Rightarrow> nat \<Rightarrow> (event_data \<times> event_flags \<times> recv_result \<times> send_result) list option \<Rightarrow> http_server \<Rightarrow> http_server result" where
  "ProcessEvents hs worker_id waited sv =
     (if \<not> sv_running sv then Inr sv
      else case waited of
        None \<Rightarrow> Inr sv
      | Some evs \<Rightarrow>
          (case process_events hs evs (sv_workers sv ! worker_id) of
             (Inl e, w) \<Rightarrow> Inl e
           | (Inr _, w) \<Rightarrow> Inr (sv\<lparr>sv_workers := (sv_workers sv)[worker_id := w]\<rparr>)))"

section \<open>The table of handlers\<close>

interpretation mmap: cmp_order "\<lambda>_. True" method_less "\<lambda>a b. method_index a < method_index b"
proof
  fix a b :: http_method assume "a \<noteq> b"
  then show "method_index a < method_index b \<or> method_index b < method_index a"
    by (cases a; cases b) simp_all
qed (auto simp: method_less_def)

definition handlers_ok :: "handlers \<Rightarrow> bool" where
  "handlers_ok hs \<longleftrightarrow> smap.map_ok hs \<and> (\<forall>(p, ms) \<in> set hs. mmap.map_ok ms)"

text \<open>The handler of a path and a method.\<close>

definition handler_of :: "handlers \<Rightarrow> string \<Rightarrow> http_method \<Rightarrow> handler option" where
  "handler_of hs p m = (case map_of hs p of None \<Rightarrow> None | Some ms \<Rightarrow> map_of ms m)"

lemma HandleHttpRequest_eq:
  assumes "handlers_ok hs"
  shows "HandleHttpRequest hs r = Inr (case map_of hs (ur_path (hr_uri r)) of
    None \<Rightarrow> HttpResponse_new NotFound
  | Some ms \<Rightarrow> (case map_of ms (hr_method r) of None \<Rightarrow> HttpResponse_new MethodNotAllowed | Some cb \<Rightarrow> cb r))"
proof (cases "map_of hs (ur_path (hr_uri r))")
  case None
  then show ?thesis
    using assms smap.find_eq [of hs "ur_path (hr_uri r)"] by (simp add: HandleHttpRequest_def handlers_ok_def)
next
  case (Some ms)
  then have "mmap.map_ok ms" using assms by (auto simp: handlers_ok_def dest: map_of_SomeD)
  then show ?thesis
    using Some assms smap.find_eq [of hs "ur_path (hr_uri r)"] mmap.find_eq [of ms "hr_method r"]
    by (simp add: HandleHttpRequest_def handlers_ok_def split: option.split)
qed

lemma insert_at_eq:
  assumes "distinct (map fst hs)" "map_of hs p = Some ms" "map_insert method_less m cb ms = Inr ms'"
  shows "\<exists>hs'. insert_at p m cb hs = Inr hs' \<and> map fst hs' = map fst hs \<and> map_of hs' = (map_of hs)(p \<mapsto> ms') \<and>
    set hs' \<subseteq> insert (p, ms') (set hs)"
  using assms
proof (induction hs)
  case (Cons e hs)
  obtain q qs where e: "e = (q, qs)" by (cases e)
  show ?case
  proof (cases "q = p")
    case False
    then obtain hs' where "insert_at p m cb hs = Inr hs'" "map fst hs' = map fst hs"
        "map_of hs' = (map_of hs)(p \<mapsto> ms')" "set hs' \<subseteq> insert (p, ms') (set hs)"
      using Cons.IH Cons.prems(2,3) Cons.prems(1) e by (auto simp: fun_upd_def)
    then show ?thesis using False by (auto simp: e)
  qed (use Cons.prems e in auto)
qed simp

lemma smap_ok_fst: "smap.map_ok m \<Longrightarrow> map fst m' = map fst m \<Longrightarrow> smap.map_ok m'"
  unfolding smap.map_ok_def by (metis image_set)

lemma register_uri_eq:
  assumes "handlers_ok hs"
  shows "\<exists>hs'. RegisterHttpRequestHandler_uri u m cb hs = Inr hs' \<and> handlers_ok hs' \<and>
    (\<forall>p m'. handler_of hs' p m' =
      (if p = ur_path u \<and> m' = m \<and> handler_of hs p m' = None then Some cb else handler_of hs p m')) \<and>
    (\<forall>p. map_of hs' p = None \<longleftrightarrow> p \<noteq> ur_path u \<and> map_of hs p = None)"
proof -
  let ?p = "ur_path u"
  let ?ms = "case map_of hs ?p of None \<Rightarrow> [] | Some ms \<Rightarrow> ms"
  obtain h1 where h1: "map_insert string_less ?p [] hs = Inr h1" "smap.map_ok h1" "map_of h1 = (map_of hs)(?p := Some ?ms)"
    using smap.insert_eq [of hs ?p "[] :: (http_method \<times> handler) list"] assms
    by (auto simp: handlers_ok_def)
  have d: "distinct (map fst h1)" using h1(2) by (auto simp: smap.map_ok_def strict_sorted_iff)
  have ms: "mmap.map_ok ?ms" using assms by (auto simp: handlers_ok_def dest: map_of_SomeD split: option.split)
  obtain ms' where ms': "map_insert method_less m cb ?ms = Inr ms'" "mmap.map_ok ms'"
      "map_of ms' = (map_of ?ms)(m := Some (case map_of ?ms m of None \<Rightarrow> cb | Some w \<Rightarrow> w))"
    using mmap.insert_eq [OF ms, of m cb] by blast
  obtain hs' where hs': "insert_at ?p m cb h1 = Inr hs'" "map fst hs' = map fst h1"
      "map_of hs' = (map_of h1)(?p \<mapsto> ms')" "set hs' \<subseteq> insert (?p, ms') (set h1)"
    using insert_at_eq [OF d _ ms'(1), of ?p] h1(3) by auto
  have "mmap.map_ok qs" if "(q, qs) \<in> set h1" for q qs
  proof -
    have "map_of h1 q = Some qs" using that d by simp
    then show ?thesis using h1(3) ms assms
      by (auto simp: handlers_ok_def dest: map_of_SomeD split: if_splits)
  qed
  then have "handlers_ok hs'" using hs'(2,4) ms'(2) smap_ok_fst [OF h1(2)] by (auto simp: handlers_ok_def)
  moreover have "handler_of hs' p m' =
      (if p = ?p \<and> m' = m \<and> handler_of hs p m' = None then Some cb else handler_of hs p m')" for p m'
    unfolding handler_of_def hs'(3) h1(3) using ms'(3) by (auto split: option.split)
  ultimately show ?thesis
    using h1(1) hs'(1,3) h1(3) by (auto simp: RegisterHttpRequestHandler_uri_def)
qed

lemma erase_eq:
  assumes "handlers_ok hs"
  shows "handlers_ok (erase_handlers u hs)" "map_of (erase_handlers u hs) p = (if p = ur_path u then None else map_of hs p)"
    "handler_of (erase_handlers u hs) p m = (if p = ur_path u then None else handler_of hs p m)"
proof -
  show m: "map_of (erase_handlers u hs) p = (if p = ur_path u then None else map_of hs p)"
    by (induction hs) (auto simp: erase_handlers_def)
  then show "handler_of (erase_handlers u hs) p m = (if p = ur_path u then None else handler_of hs p m)"
    by (simp add: handler_of_def)
  have "smap.map_ok (erase_handlers u hs)"
    using assms sorted_wrt_filter [of "(<)" "map fst hs" "\<lambda>p. p \<noteq> ur_path u"]
    by (auto simp: handlers_ok_def smap.map_ok_def filter_map comp_def case_prod_unfold erase_handlers_def)
  then show "handlers_ok (erase_handlers u hs)" using assms by (auto simp: handlers_ok_def erase_handlers_def)
qed

lemma register_eq:
  assumes "handlers_ok hs"
  shows "\<exists>hs'. RegisterHttpRequestHandler path m cb hs = Inr hs' \<and> handlers_ok hs' \<and>
    map_of hs' (map tolower path) \<noteq> None \<and>
    (\<forall>p m'. handler_of hs' p m' =
      (if p = map tolower path then if m' = m then Some cb else None else handler_of hs p m')) \<and>
    (\<forall>p. p \<noteq> map tolower path \<longrightarrow> (map_of hs' p = None \<longleftrightarrow> map_of hs p = None))"
proof -
  note e = erase_eq [OF assms, of "Uri_new path"]
  have u: "ur_path (Uri_new path) = map tolower path" by (simp add: Uri_new_def)
  from register_uri_eq [OF e(1), of "Uri_new path" m cb] show ?thesis
    by (auto simp: RegisterHttpRequestHandler_def e(2,3) u)
qed

lemma HandleHttpRequest_handler:
  assumes "handlers_ok hs" "handler_of hs (ur_path (hr_uri r)) (hr_method r) = Some cb"
  shows "HandleHttpRequest hs r = Inr (cb r)"
  using HandleHttpRequest_eq [OF assms(1), of r] assms(2) by (auto simp: handler_of_def split: option.splits)

lemma HandleHttpRequest_no_method:
  assumes "handlers_ok hs" "handler_of hs (ur_path (hr_uri r)) (hr_method r) = None" "map_of hs (ur_path (hr_uri r)) \<noteq> None"
  shows "HandleHttpRequest hs r = Inr (HttpResponse_new MethodNotAllowed)"
  using HandleHttpRequest_eq [OF assms(1), of r] assms(2,3) by (auto simp: handler_of_def split: option.splits)

section \<open>Buffers\<close>

text \<open>What a request is answered with.\<close>

definition answer :: "handlers \<Rightarrow> string \<Rightarrow> http_method \<times> http_response" where
  "answer hs s = (case string_to_request s of
     Inl e \<Rightarrow> (M_GET, case catch_exception e of Some r \<Rightarrow> r | None \<Rightarrow> HttpResponse_new InternalServerError)
   | Inr r \<Rightarrow> (hr_method r, case map_of hs (ur_path (hr_uri r)) of
       None \<Rightarrow> HttpResponse_new NotFound
     | Some ms \<Rightarrow> (case map_of ms (hr_method r) of None \<Rightarrow> HttpResponse_new MethodNotAllowed | Some cb \<Rightarrow> cb r)))"

definition answer_string :: "handlers \<Rightarrow> string \<Rightarrow> string" where
  "answer_string hs s = response_to_string (snd (answer hs s)) (fst (answer hs s) \<noteq> M_HEAD)"

lemma parse_exception_caught: "string_to_request s = Inl e \<Longrightarrow> catch_exception e \<noteq> None"
  using parsed_request_errors [of s e] by auto

lemma HandleHttpData_eq:
  assumes "handlers_ok hs" "0 \<in> set (ed_buffer raw)"
  shows "HandleHttpData hs raw response =
    (let s = answer_string hs (string_of_bytes (takeWhile (\<lambda>b. b \<noteq> 0) (ed_buffer raw)))
     in Inr (response\<lparr>ed_buffer := strncpy s kMaxBufferSize, ed_length := of_nat (length s)\<rparr>))"
proof -
  let ?s = "string_of_bytes (takeWhile (\<lambda>b. b \<noteq> 0) (ed_buffer raw))"
  show ?thesis
  proof (cases "string_to_request ?s")
    case (Inl e)
    then obtain r where "catch_exception e = Some r" using parse_exception_caught by blast
    then show ?thesis using Inl assms(2) by (simp add: HandleHttpData_def c_string_def answer_string_def answer_def Let_def)
  next
    case (Inr r)
    then show ?thesis
      using assms(2) HandleHttpRequest_eq [OF assms(1), of r]
      by (simp add: HandleHttpData_def c_string_def answer_string_def answer_def Let_def)
  qed
qed

lemma length_strncpy [simp]: "length (strncpy s n) = n"
  by (simp add: strncpy_def Let_def)

section \<open>Workers as a state machine\<close>

text \<open>What the system calls may return.\<close>

fun recv_ok :: "recv_result \<Rightarrow> bool" where
  "recv_ok (Received bs) = (0 < length bs \<and> length bs \<le> kMaxBufferSize)"
| "recv_ok _ = True"

fun send_ok :: "event_data \<Rightarrow> send_result \<Rightarrow> bool" where
  "send_ok d (Sent k) = (k \<le> unat (ed_length d))"
| "send_ok d _ = True"

fun flags_ok :: "epoll_kind \<Rightarrow> event_flags \<Rightarrow> bool" where
  "flags_ok k (Exactly k') = (k = k')"
| "flags_ok k _ = True"

inductive worker_step :: "handlers \<Rightarrow> worker \<Rightarrow> worker \<Rightarrow> bool" for hs where
  accept: "\<not> wk_open w fd \<Longrightarrow> accept_connection fd w = (Inr (), w') \<Longrightarrow> worker_step hs w w'"
| event: "wk_interest w fd = Some (k, d) \<Longrightarrow> recv_ok r \<Longrightarrow> send_ok d s \<Longrightarrow> flags_ok k flags \<Longrightarrow>
    process_event hs d flags r s w = (Inr (), w') \<Longrightarrow> worker_step hs w w'"

definition worker_start :: worker where
  "worker_start = \<lparr>wk_interest = (\<lambda>_. None), wk_open = (\<lambda>_. False), wk_sent = (\<lambda>_. [])\<rparr>"

inductive worker_reachable :: "handlers \<Rightarrow> worker \<Rightarrow> bool" for hs where
  start: "worker_reachable hs worker_start"
| step: "worker_reachable hs w \<Longrightarrow> worker_step hs w w' \<Longrightarrow> worker_reachable hs w'"

text \<open>
  What is registered belongs to its descriptor, which is open; a connection waiting for a request has an
  empty buffer; one waiting to send points inside its buffer.
\<close>

definition data_ok_for :: "int \<Rightarrow> epoll_kind \<Rightarrow> event_data \<Rightarrow> bool" where
  "data_ok_for fd k d \<longleftrightarrow> ed_fd d = fd \<and> length (ed_buffer d) = kMaxBufferSize \<and>
     (case k of
        EPOLLIN \<Rightarrow> d = EventData_new\<lparr>ed_fd := fd\<rparr>
      | EPOLLOUT \<Rightarrow> unat (ed_cursor d) + unat (ed_length d) \<le> kMaxBufferSize)"

definition worker_ok :: "worker \<Rightarrow> bool" where
  "worker_ok w \<longleftrightarrow> (\<forall>fd k d. wk_interest w fd = Some (k, d) \<longrightarrow> wk_open w fd \<and> data_ok_for fd k d)"

text \<open>Every answer fits the buffer.\<close>

definition short_answers :: "handlers \<Rightarrow> bool" where
  "short_answers hs \<longleftrightarrow> (\<forall>s. length (answer_string hs s) \<le> kMaxBufferSize)"

lemma worker_okD: "worker_ok w \<Longrightarrow> wk_interest w fd = Some (k, d) \<Longrightarrow> wk_open w fd \<and> data_ok_for fd k d"
  by (simp add: worker_ok_def)

lemma new_data_ok: "data_ok_for fd EPOLLIN (EventData_new\<lparr>ed_fd := fd\<rparr>)"
  by (simp add: data_ok_for_def EventData_new_def)

lemma worker_ok_set:
  "worker_ok w \<Longrightarrow> wk_open w fd \<Longrightarrow> data_ok_for fd k d \<Longrightarrow>
    worker_ok (w\<lparr>wk_interest := (wk_interest w)(fd \<mapsto> (k, d))\<rparr>)"
  by (simp add: worker_ok_def)

lemma worker_ok_drop:
  "worker_ok w \<Longrightarrow> drop_connection fd w = (Inr (), w') \<Longrightarrow> worker_ok w'"
  by (auto simp: worker_ok_def drop_connection_def bindC_def sys_close_def split: if_splits)

lemma received_zero:
  assumes "0 < length bs" "length bs < kMaxBufferSize"
  shows "0 \<in> set (bs @ drop (length bs) (replicate kMaxBufferSize 0))"
  using assms by simp

lemma HandleHttpData_answer_ok:
  assumes "handlers_ok hs" "short_answers hs" "HandleHttpData hs raw (EventData_new\<lparr>ed_fd := fd\<rparr>) = Inr d"
  shows "data_ok_for fd EPOLLOUT d"
proof -
  have "0 \<in> set (ed_buffer raw)"
    using assms(3) by (auto simp: HandleHttpData_def c_string_def bindR_eq_Inr split: if_splits)
  from HandleHttpData_eq [OF assms(1) this] obtain s where
      d: "d = EventData_new\<lparr>ed_fd := fd, ed_buffer := strncpy (answer_string hs s) kMaxBufferSize,
        ed_length := of_nat (length (answer_string hs s))\<rparr>"
    using assms(3) by (auto simp: Let_def)
  have "length (answer_string hs s) \<le> kMaxBufferSize" using assms(2) by (simp add: short_answers_def)
  then have "unat (of_nat (length (answer_string hs s)) :: u64) \<le> kMaxBufferSize"
    by (simp add: unat_of_nat kMaxBufferSize_def take_bit_nat_eq_self)
  then show ?thesis by (simp add: d data_ok_for_def EventData_new_def)
qed

lemma handle_readable_ok:
  assumes "worker_ok w" "wk_interest w fd = Some (EPOLLIN, d)" "handlers_ok hs" "short_answers hs"
    "handle_readable hs d r w = (Inr (), w')"
  shows "worker_ok w'"
proof -
  have fd: "ed_fd d = fd" "wk_open w fd" "d = EventData_new\<lparr>ed_fd := fd\<rparr>"
    using worker_okD [OF assms(1,2)] by (simp_all add: data_ok_for_def)
  show ?thesis
  proof (cases r)
    case (Received bs)
    then obtain response where "HandleHttpData hs (d\<lparr>ed_buffer := bs @ drop (length bs) (ed_buffer d)\<rparr>)
        (EventData_new\<lparr>ed_fd := fd\<rparr>) = Inr response"
        "w' = w\<lparr>wk_interest := (wk_interest w)(fd \<mapsto> (EPOLLOUT, response))\<rparr>"
      using assms(2,5) fd(1) by (auto simp: handle_readable_def bindC_def split: sum.splits)
    then show ?thesis using worker_ok_set [OF assms(1) fd(2)] HandleHttpData_answer_ok [OF assms(3,4)] by blast
  next
    case RecvAgain
    then show ?thesis
      using assms(2,5) fd worker_ok_set [OF assms(1) fd(2) new_data_ok] by (auto simp: handle_readable_def)
  qed (use assms(5) worker_ok_drop [OF assms(1)] in \<open>auto simp: handle_readable_def\<close>)
qed

lemma unat_advance:
  assumes "k < unat (n :: u64)" "unat (c :: u64) + unat n \<le> kMaxBufferSize"
  shows "unat (c + of_nat k) = unat c + k" "unat (n - of_nat k) = unat n - k"
proof -
  have k: "unat (of_nat k :: u64) = k"
    using assms by (simp add: unat_of_nat kMaxBufferSize_def take_bit_nat_eq_self)
  then show "unat (c + of_nat k) = unat c + k"
    using assms by (subst unat_plus_simple [THEN iffD1]) (simp_all add: no_olen_add_nat kMaxBufferSize_def)
  have "of_nat k \<le> n" using assms(1) by (simp only: word_le_nat_alt k less_imp_le)
  then show "unat (n - of_nat k) = unat n - k" using k by (simp add: unat_sub)
qed

lemma handle_writable_sent:
  assumes "ed_fd d = fd" "wk_interest w fd \<noteq> None" "unat (ed_cursor d) + unat (ed_length d) \<le> length (ed_buffer d)"
  shows "handle_writable d (Sent k) w = (Inr (),
    w\<lparr>wk_sent := (wk_sent w)(fd := wk_sent w fd @ take k (drop (unat (ed_cursor d)) (ed_buffer d))),
      wk_interest := (wk_interest w)(fd \<mapsto>
        if k < unat (ed_length d)
        then (EPOLLOUT, d\<lparr>ed_cursor := ed_cursor d + of_nat k, ed_length := ed_length d - of_nat k\<rparr>)
        else (EPOLLIN, EventData_new\<lparr>ed_fd := fd\<rparr>))\<rparr>)"
proof -
  obtain i where "wk_interest w fd = Some i" using assms(2) by blast
  then show ?thesis using assms(1,3) by (simp add: handle_writable_def Let_def)
qed

lemma handle_writable_ok:
  assumes "worker_ok w" "wk_interest w fd = Some (EPOLLOUT, d)" "handle_writable d s w = (Inr (), w')"
  shows "worker_ok w'"
proof -
  have fd: "ed_fd d = fd" "wk_open w fd" "length (ed_buffer d) = kMaxBufferSize"
      "unat (ed_cursor d) + unat (ed_length d) \<le> kMaxBufferSize"
    using worker_okD [OF assms(1,2)] by (simp_all add: data_ok_for_def)
  show ?thesis
  proof (cases s)
    case (Sent k)
    let ?w = "w\<lparr>wk_sent := (wk_sent w)(fd := wk_sent w fd @ take k (drop (unat (ed_cursor d)) (ed_buffer d)))\<rparr>"
    have "worker_ok ?w" "wk_open ?w fd" using assms(1) fd(2) by (simp_all add: worker_ok_def)
    moreover have "data_ok_for fd EPOLLOUT (d\<lparr>ed_cursor := ed_cursor d + of_nat k, ed_length := ed_length d - of_nat k\<rparr>)"
      if "k < unat (ed_length d)"
      using unat_advance [OF that fd(4)] that fd by (simp add: data_ok_for_def)
    ultimately show ?thesis
      using assms(2,3) handle_writable_sent [of d fd w k] fd worker_ok_set [of ?w fd] new_data_ok [of fd]
      by (auto simp: Sent split: if_splits)
  next
    case SendAgain
    then show ?thesis using assms(2,3) fd by (simp add: handle_writable_def Let_def)
  next
    case SendError
    then show ?thesis
      using assms(3) fd worker_ok_drop [OF assms(1)] by (simp add: handle_writable_def Let_def)
  qed
qed

lemma process_event_ok:
  assumes "worker_ok w" "handlers_ok hs" "short_answers hs" "wk_interest w fd = Some (k, d)" "flags_ok k flags"
    "process_event hs d flags r s w = (Inr (), w')"
  shows "worker_ok w'"
proof (cases flags)
  case (Exactly k')
  then have "HandleEpollEvent hs d k r s w = (Inr (), w')" using assms(5,6) by (simp add: process_event_def)
  then show ?thesis
    using assms(4) handle_readable_ok [OF assms(1) _ assms(2,3)] handle_writable_ok [OF assms(1)]
    by (cases k) (auto simp: HandleEpollEvent_def)
qed (use assms(6) worker_ok_drop [OF assms(1)] in \<open>auto simp: process_event_def\<close>)

lemma worker_step_ok:
  assumes "worker_step hs w w'" "worker_ok w" "handlers_ok hs" "short_answers hs"
  shows "worker_ok w'"
  using assms(1)
proof (cases rule: worker_step.cases)
  case (accept fd)
  then have "w' = w\<lparr>wk_open := (wk_open w)(fd := True),
      wk_interest := (wk_interest w)(fd \<mapsto> (EPOLLIN, EventData_new\<lparr>ed_fd := fd\<rparr>))\<rparr>"
    by (auto simp: accept_connection_def split: if_splits)
  moreover have "worker_ok (w\<lparr>wk_open := (wk_open w)(fd := True)\<rparr>)" using assms(2) by (auto simp: worker_ok_def)
  ultimately show ?thesis
    using worker_ok_set [of "w\<lparr>wk_open := (wk_open w)(fd := True)\<rparr>" fd, OF _ _ new_data_ok] by simp
next
  case (event fd k d r s flags)
  then show ?thesis using process_event_ok [OF assms(2-4)] by blast
qed

lemma reachable_ok:
  assumes "worker_reachable hs w" "handlers_ok hs" "short_answers hs"
  shows "worker_ok w"
  using assms(1)
proof induction
  case start
  show ?case by (simp add: worker_ok_def worker_start_def)
next
  case (step w w')
  then show ?case using worker_step_ok assms(2,3) by blast
qed

section \<open>Sequences of events\<close>

text \<open>An event on a descriptor carries the data registered for it.\<close>

definition dispatch :: "handlers \<Rightarrow> int \<Rightarrow> event_flags \<Rightarrow> recv_result \<Rightarrow> send_result \<Rightarrow> (worker, unit) cmd" where
  "dispatch hs fd flags r s w = (case wk_interest w fd of
     None \<Rightarrow> (Inr (), w)
   | Some (k, d) \<Rightarrow> process_event hs d flags r s w)"

text \<open>The socket becomes writable again and again, and takes some bytes each time.\<close>

fun writable_events :: "handlers \<Rightarrow> int \<Rightarrow> nat list \<Rightarrow> (worker, unit) cmd" where
  "writable_events hs fd [] w = (Inr (), w)"
| "writable_events hs fd (k # ks) w =
     bindC (dispatch hs fd (Exactly EPOLLOUT) RecvAgain (Sent k)) (\<lambda>_. writable_events hs fd ks) w"

lemma dispatch_sent:
  assumes "worker_ok w" "wk_interest w fd = Some (EPOLLOUT, d)"
  shows "\<exists>w'. dispatch hs fd (Exactly EPOLLOUT) RecvAgain (Sent k) w = (Inr (), w') \<and> worker_ok w' \<and>
    wk_sent w' fd = wk_sent w fd @ take k (drop (unat (ed_cursor d)) (ed_buffer d)) \<and>
    wk_interest w' fd = Some (if k < unat (ed_length d)
      then (EPOLLOUT, d\<lparr>ed_cursor := ed_cursor d + of_nat k, ed_length := ed_length d - of_nat k\<rparr>)
      else (EPOLLIN, EventData_new\<lparr>ed_fd := fd\<rparr>))"
proof -
  have fd: "ed_fd d = fd" "unat (ed_cursor d) + unat (ed_length d) \<le> length (ed_buffer d)"
    using worker_okD [OF assms] by (simp_all add: data_ok_for_def)
  note sent = handle_writable_sent [OF fd(1) _ fd(2), of w k]
  show ?thesis
    using sent handle_writable_ok [OF assms, of "Sent k"] assms(2)
    by (simp add: dispatch_def process_event_def HandleEpollEvent_def)
qed

lemma send_loop:
  assumes "worker_ok w" "wk_interest w fd = Some (EPOLLOUT, d)" "sum_list ks = unat (ed_length d)" "0 \<notin> set ks" "ks \<noteq> []"
  shows "\<exists>w'. writable_events hs fd ks w = (Inr (), w') \<and> worker_ok w' \<and>
    wk_sent w' fd = wk_sent w fd @ take (unat (ed_length d)) (drop (unat (ed_cursor d)) (ed_buffer d)) \<and>
    wk_interest w' fd = Some (EPOLLIN, EventData_new\<lparr>ed_fd := fd\<rparr>)"
  using assms
proof (induction ks arbitrary: w d)
  case (Cons k ks)
  let ?c = "unat (ed_cursor d)" and ?n = "unat (ed_length d)"
  obtain w1 where w1: "dispatch hs fd (Exactly EPOLLOUT) RecvAgain (Sent k) w = (Inr (), w1)" "worker_ok w1"
      "wk_sent w1 fd = wk_sent w fd @ take k (drop ?c (ed_buffer d))"
      "wk_interest w1 fd = Some (if k < ?n
        then (EPOLLOUT, d\<lparr>ed_cursor := ed_cursor d + of_nat k, ed_length := ed_length d - of_nat k\<rparr>)
        else (EPOLLIN, EventData_new\<lparr>ed_fd := fd\<rparr>))"
    using dispatch_sent [OF Cons.prems(1,2), of hs k] by blast
  show ?case
  proof (cases "ks = []")
    case True
    then show ?thesis using w1 Cons.prems(3) by (simp add: bindC_def)
  next
    case False
    then have "0 < sum_list ks" using Cons.prems(4) by (cases ks) auto
    then have k: "k < ?n" using Cons.prems(3) by simp
    let ?d = "d\<lparr>ed_cursor := ed_cursor d + of_nat k, ed_length := ed_length d - of_nat k\<rparr>"
    have "?c + ?n \<le> kMaxBufferSize" using worker_okD [OF Cons.prems(1,2)] by (simp add: data_ok_for_def)
    note adv = unat_advance [OF k this]
    have "\<exists>w'. writable_events hs fd ks w1 = (Inr (), w') \<and> worker_ok w' \<and>
        wk_sent w' fd = wk_sent w1 fd @ take (unat (ed_length ?d)) (drop (unat (ed_cursor ?d)) (ed_buffer ?d)) \<and>
        wk_interest w' fd = Some (EPOLLIN, EventData_new\<lparr>ed_fd := fd\<rparr>)"
      using Cons.prems(3,4) k adv False by (intro Cons.IH [OF w1(2)]) (simp_all add: w1(4))
    moreover have "take k (drop ?c (ed_buffer d)) @ take (?n - k) (drop (?c + k) (ed_buffer d)) =
        take ?n (drop ?c (ed_buffer d))"
      using k take_add [of k "?n - k" "drop ?c (ed_buffer d)"] by (simp add: add.commute)
    ultimately show ?thesis using w1(1,3) adv by (auto simp: bindC_def)
  qed
qed simp

lemma takeWhile_zero_padded: "0 \<notin> set bs \<Longrightarrow> takeWhile (\<lambda>b. b \<noteq> 0) (bs @ replicate n 0) = bs"
proof (induction bs)
  case Nil
  show ?case by (cases n) simp_all
qed auto

lemma char_of_byte_zero: "char_of_byte 0 = CHR 0x00"
  by (simp add: char_of_def)

lemma strncpy_whole:
  assumes "CHR 0x00 \<notin> set s" "length s \<le> n"
  shows "take (length s) (strncpy s n) = bytes_of_string s"
proof -
  have "byte_of_char c \<noteq> 0" if "c \<in> set s" for c
    using that assms(1) char_of_byte_of_char [of c] by (metis char_of_byte_zero)
  then have tw: "takeWhile (\<lambda>b. b \<noteq> 0) (bytes_of_string s) = bytes_of_string s"
    by (intro takeWhile_eq_all_conv [THEN iffD2]) auto
  show ?thesis unfolding strncpy_def Let_def tw using assms(2) by simp
qed

section \<open>Properties\<close>

lemma register_answers:
  assumes "handlers_ok hs"
  shows "\<exists>hs'. RegisterHttpRequestHandler path m cb hs = Inr hs' \<and> handlers_ok hs' \<and>
    (\<forall>r. HandleHttpRequest hs' r =
      (if ur_path (hr_uri r) = map tolower path
       then Inr (if hr_method r = m then cb r else HttpResponse_new MethodNotAllowed)
       else HandleHttpRequest hs r))"
proof -
  let ?p = "map tolower path"
  obtain hs' where hs': "RegisterHttpRequestHandler path m cb hs = Inr hs'" "handlers_ok hs'" "map_of hs' ?p \<noteq> None"
      "\<And>p m'. handler_of hs' p m' =
         (if p = ?p then if m' = m then Some cb else None else handler_of hs p m')"
      "\<And>p. p \<noteq> ?p \<Longrightarrow> map_of hs' p = None \<longleftrightarrow> map_of hs p = None"
    using register_eq [OF assms, of path m cb] by blast
  have "HandleHttpRequest hs' r = Inr (if hr_method r = m then cb r else HttpResponse_new MethodNotAllowed)"
    if "ur_path (hr_uri r) = ?p" for r
    using that hs'(3,4) HandleHttpRequest_handler [OF hs'(2), of r cb] HandleHttpRequest_no_method [OF hs'(2), of r]
    by (cases "hr_method r = m") auto
  moreover have "HandleHttpRequest hs' r = HandleHttpRequest hs r" if "ur_path (hr_uri r) \<noteq> ?p" for r
    unfolding HandleHttpRequest_eq [OF hs'(2)] HandleHttpRequest_eq [OF assms]
    using hs'(4) [of "ur_path (hr_uri r)" "hr_method r"] hs'(5) [OF that] that
    by (auto simp: handler_of_def split: option.splits)
  ultimately show ?thesis using hs'(1,2) by auto
qed

text \<open>
  Registering a handler by path: afterwards the callback answers the requests for that path,
  whatever its case, with that method; every other method of the path is answered with 405, even one
  that had a handler before; the answers for every other path are as before.
\<close>

theorem registered_handler_answers:
  assumes "handlers_ok hs"
  shows "\<exists>hs'. RegisterHttpRequestHandler path m cb hs = Inr hs' \<and> handlers_ok hs' \<and>
    (\<forall>r. HandleHttpRequest hs' r =
      (if ur_path (hr_uri r) = map tolower path
       then Inr (if hr_method r = m then cb r else HttpResponse_new MethodNotAllowed)
       else HandleHttpRequest hs r))"
  using register_answers [OF assms] .

definition up_handler :: handler where
  "up_handler r = SetContent ''up 1'' (HttpResponse_new Ok)"

theorem registered_handler_answers_witness:
  "\<exists>hs'. RegisterHttpRequestHandler ''/Metrics'' M_GET up_handler [] = Inr hs' \<and>
    HandleHttpRequest hs' example_request = Inr (HttpResponse_new MethodNotAllowed) \<and>
    HandleHttpRequest hs' (example_request\<lparr>hr_method := M_GET\<rparr>) = Inr (up_handler (example_request\<lparr>hr_method := M_GET\<rparr>))"
proof -
  have "map tolower ''/Metrics'' = ''/metrics''" by code_simp
  moreover have "handlers_ok []" by (simp add: handlers_ok_def smap.map_ok_def)
  ultimately show ?thesis
    using registered_handler_answers [of "[]" "''/Metrics''" M_GET up_handler] by (auto simp: example_request_eq)
qed

lemma answer_registered:
  assumes "worker_ok w" "wk_interest w fd = Some (EPOLLIN, d)" "handlers_ok hs"
    and bs: "bs \<noteq> []" "length bs < kMaxBufferSize" "0 \<notin> set bs"
    and out: "out = answer_string hs (string_of_bytes bs)" "CHR 0x00 \<notin> set out" "length out \<le> kMaxBufferSize"
  shows "\<exists>w' d'. dispatch hs fd (Exactly EPOLLIN) (Received bs) SendAgain w = (Inr (), w') \<and> worker_ok w' \<and>
    wk_interest w' fd = Some (EPOLLOUT, d') \<and> unat (ed_length d') = length out \<and> ed_cursor d' = 0 \<and>
    take (length out) (ed_buffer d') = bytes_of_string out \<and> wk_sent w' fd = wk_sent w fd"
proof -
  let ?raw = "d\<lparr>ed_buffer := bs @ drop (length bs) (ed_buffer d)\<rparr>"
  let ?d = "EventData_new\<lparr>ed_fd := fd, ed_buffer := strncpy out kMaxBufferSize, ed_length := of_nat (length out)\<rparr>"
  let ?w = "w\<lparr>wk_interest := (wk_interest w)(fd \<mapsto> (EPOLLOUT, ?d))\<rparr>"
  have fd: "wk_open w fd" "d = EventData_new\<lparr>ed_fd := fd\<rparr>"
    using worker_okD [OF assms(1,2)] by (simp_all add: data_ok_for_def)
  have zero: "0 \<in> set (ed_buffer ?raw)"
    using received_zero [of bs] bs fd(2) by (simp add: EventData_new_def)
  have "takeWhile (\<lambda>b. b \<noteq> 0) (ed_buffer ?raw) = bs"
    using bs fd(2) by (simp add: EventData_new_def takeWhile_zero_padded)
  then have "HandleHttpData hs ?raw (EventData_new\<lparr>ed_fd := fd\<rparr>) = Inr ?d"
    using HandleHttpData_eq [OF assms(3) zero] out(1) by (simp add: Let_def)
  then have step: "dispatch hs fd (Exactly EPOLLIN) (Received bs) SendAgain w = (Inr (), ?w)"
    using assms(2) fd(2)
    by (simp add: dispatch_def process_event_def HandleEpollEvent_def handle_readable_def bindC_def)
  have n: "unat (of_nat (length out) :: u64) = length out"
    using out(3) by (simp add: unat_of_nat kMaxBufferSize_def take_bit_nat_eq_self)
  then have "worker_ok ?w"
    using worker_ok_set [OF assms(1) fd(1)] out(3) by (simp add: data_ok_for_def EventData_new_def)
  then show ?thesis
    using step n strncpy_whole [OF out(2,3)] by (intro exI [of _ ?w] exI [of _ ?d]) (simp add: EventData_new_def)
qed

lemma answer_not_empty: "answer_string hs s \<noteq> []"
  by (simp add: answer_string_def response_to_string_def)

lemma answer_string_sent:
  assumes "worker_ok w" "wk_interest w fd = Some (EPOLLIN, d)" "handlers_ok hs"
    and bs: "bs \<noteq> []" "length bs < kMaxBufferSize" "0 \<notin> set bs"
    and out: "out = answer_string hs (string_of_bytes bs)" "CHR 0x00 \<notin> set out" "length out \<le> kMaxBufferSize"
    and ks: "sum_list ks = length out" "0 \<notin> set ks"
  shows "\<exists>w'. bindC (dispatch hs fd (Exactly EPOLLIN) (Received bs) SendAgain) (\<lambda>_. writable_events hs fd ks) w =
      (Inr (), w') \<and> wk_sent w' fd = wk_sent w fd @ bytes_of_string out \<and>
    wk_interest w' fd = Some (EPOLLIN, EventData_new\<lparr>ed_fd := fd\<rparr>) \<and> worker_ok w'"
proof -
  obtain w1 d1 where w1: "dispatch hs fd (Exactly EPOLLIN) (Received bs) SendAgain w = (Inr (), w1)" "worker_ok w1"
      "wk_interest w1 fd = Some (EPOLLOUT, d1)" "unat (ed_length d1) = length out" "ed_cursor d1 = 0"
      "take (length out) (ed_buffer d1) = bytes_of_string out" "wk_sent w1 fd = wk_sent w fd"
    using answer_registered [OF assms(1-3) bs out] by blast
  have "ks \<noteq> []" using ks(1) answer_not_empty out(1) by fastforce
  then show ?thesis using send_loop [OF w1(2,3), of ks hs] w1 ks by (auto simp: bindC_def)
qed

lemma answer_sent:
  assumes "worker_ok w" "wk_interest w fd = Some (EPOLLIN, d)" "handlers_ok hs"
    and bs: "bs \<noteq> []" "length bs < kMaxBufferSize" "0 \<notin> set bs"
    and r: "string_to_request (string_of_bytes bs) = Inr r" "handler_of hs (ur_path (hr_uri r)) (hr_method r) = Some cb"
    and out: "out = response_to_string (cb r) (hr_method r \<noteq> M_HEAD)" "CHR 0x00 \<notin> set out" "length out \<le> kMaxBufferSize"
    and ks: "sum_list ks = length out" "0 \<notin> set ks"
  shows "\<exists>w'. bindC (dispatch hs fd (Exactly EPOLLIN) (Received bs) SendAgain) (\<lambda>_. writable_events hs fd ks) w =
      (Inr (), w') \<and> wk_sent w' fd = wk_sent w fd @ bytes_of_string out \<and>
    wk_interest w' fd = Some (EPOLLIN, EventData_new\<lparr>ed_fd := fd\<rparr>) \<and> worker_ok w'"
proof -
  have "out = answer_string hs (string_of_bytes bs)"
    using r out(1) by (auto simp: answer_string_def answer_def handler_of_def split: option.splits)
  then show ?thesis using answer_string_sent [OF assms(1-3) bs _ out(2,3) ks] by blast
qed

text \<open>
  A request is served: when it arrives in fewer than 4096 bytes without a zero, its path and
  method have a handler, and the printed response has no zero and fits 4096 bytes, then after any
  sequence of successful sends, however the socket splits them, exactly the bytes of the response have
  been sent and the connection waits for the next request with an empty buffer.
\<close>

theorem request_served:
  assumes "worker_ok w" "wk_interest w fd = Some (EPOLLIN, d)" "handlers_ok hs"
    and bs: "bs \<noteq> []" "length bs < kMaxBufferSize" "0 \<notin> set bs"
    and r: "string_to_request (string_of_bytes bs) = Inr r" "handler_of hs (ur_path (hr_uri r)) (hr_method r) = Some cb"
    and out: "out = response_to_string (cb r) (hr_method r \<noteq> M_HEAD)" "CHR 0x00 \<notin> set out" "length out \<le> kMaxBufferSize"
    and ks: "sum_list ks = length out" "0 \<notin> set ks"
  shows "\<exists>w'. bindC (dispatch hs fd (Exactly EPOLLIN) (Received bs) SendAgain) (\<lambda>_. writable_events hs fd ks) w =
      (Inr (), w') \<and> wk_sent w' fd = wk_sent w fd @ bytes_of_string out \<and>
    wk_interest w' fd = Some (EPOLLIN, EventData_new\<lparr>ed_fd := fd\<rparr>) \<and> worker_ok w'"
  using answer_sent [OF assms] .

definition up_handlers :: handlers where
  "up_handlers = [(''/metrics'', [(M_GET, up_handler)])]"

definition up_request :: string where
  "up_request = ''GET /metrics HTTP/1.1'' @ crlf @ ''Accept: */*'' @ crlf @ crlf"

definition up_response :: string where
  "up_response = ''HTTP/1.1 200 OK'' @ crlf @ ''Content-Length: 4'' @ crlf @ crlf @ ''up 1''"

definition connected :: worker where
  "connected = worker_start\<lparr>wk_open := (\<lambda>fd. fd = 7),
     wk_interest := [7 \<mapsto> (EPOLLIN, EventData_new\<lparr>ed_fd := 7\<rparr>)]\<rparr>"

lemma up_request_parsed: "string_to_request up_request =
    Inr \<lparr>hm_version = HTTP_1_1, hm_headers = [(''Accept'', ''*/*''), (''Content-Length'', ''0'')], hm_content = '''',
      hr_method = M_GET, hr_uri = \<lparr>ur_path = ''/metrics''\<rparr>\<rparr>"
  by code_simp

lemma up_response_printed: "response_to_string (up_handler r) True = up_response"
proof -
  have "response_to_string (SetContent ''up 1'' (HttpResponse_new Ok)) True = up_response" by code_simp
  then show ?thesis by (simp only: up_handler_def)
qed

lemma bytes_of_string_zero: "CHR 0x00 \<notin> set s \<Longrightarrow> 0 \<notin> set (bytes_of_string s)"
  by (metis (no_types, lifting) char_of_byte_of_char char_of_byte_zero imageE list.set_map)

theorem request_served_witness:
  "\<exists>w'. bindC (dispatch up_handlers 7 (Exactly EPOLLIN) (Received (bytes_of_string up_request)) SendAgain)
      (\<lambda>_. writable_events up_handlers 7 [10, 1, 31]) connected = (Inr (), w') \<and>
    wk_sent w' 7 = bytes_of_string up_response"
proof -
  have req: "up_request \<noteq> []" "length up_request < 4096" "CHR 0x00 \<notin> set up_request" by code_simp+
  have res: "CHR 0x00 \<notin> set up_response" "length up_response = 42" by code_simp+
  have "worker_ok connected" by (auto simp: connected_def worker_ok_def worker_start_def new_data_ok)
  moreover have "wk_interest connected 7 = Some (EPOLLIN, EventData_new\<lparr>ed_fd := 7\<rparr>)" by (simp add: connected_def)
  moreover have "handlers_ok up_handlers"
    by (simp add: handlers_ok_def smap.map_ok_def mmap.map_ok_def up_handlers_def)
  moreover have "string_of_bytes (bytes_of_string up_request) = up_request" by simp
  moreover have "wk_sent connected 7 = []" by (simp add: connected_def worker_start_def)
  ultimately show ?thesis
    using request_served [of connected 7 "EventData_new\<lparr>ed_fd := 7\<rparr>" up_handlers "bytes_of_string up_request" _
        up_handler up_response "[10, 1, 31]"]
      req res bytes_of_string_zero [OF req(3)] up_response_printed up_request_parsed
    by (auto simp: kMaxBufferSize_def handler_of_def up_handlers_def)
qed

lemma drop_connection_total: "wk_interest w fd \<noteq> None \<Longrightarrow> \<exists>w'. drop_connection fd w = (Inr (), w')"
  by (auto simp: drop_connection_def bindC_def sys_close_def)

lemma handle_readable_total:
  assumes "handlers_ok hs" "wk_interest w fd \<noteq> None" "data_ok_for fd EPOLLIN d"
    "\<And>bs. r = Received bs \<Longrightarrow> bs \<noteq> [] \<and> length bs < kMaxBufferSize"
  shows "\<exists>w'. handle_readable hs d r w = (Inr (), w')"
proof -
  obtain i where i: "wk_interest w fd = Some i" using assms(2) by blast
  have d: "ed_fd d = fd" "d = EventData_new\<lparr>ed_fd := fd\<rparr>" using assms(3) by (simp_all add: data_ok_for_def)
  show ?thesis
  proof (cases r)
    case (Received bs)
    then have "0 \<in> set (bs @ drop (length bs) (ed_buffer d))"
      using received_zero [of bs] assms(4) d(2) by (simp add: EventData_new_def)
    then show ?thesis
      using HandleHttpData_eq [OF assms(1), of "d\<lparr>ed_buffer := bs @ drop (length bs) (ed_buffer d)\<rparr>"] i d(1)
      by (simp add: handle_readable_def Received bindC_def Let_def)
  qed (use i d(1) drop_connection_total [OF assms(2)] in \<open>simp_all add: handle_readable_def\<close>)
qed

lemma handle_writable_total:
  assumes "wk_interest w fd \<noteq> None" "data_ok_for fd EPOLLOUT d" "s \<noteq> SendAgain"
  shows "\<exists>w'. handle_writable d s w = (Inr (), w')"
proof -
  have d: "ed_fd d = fd" "unat (ed_cursor d) + unat (ed_length d) \<le> length (ed_buffer d)"
    using assms(2) by (simp_all add: data_ok_for_def)
  show ?thesis
  proof (cases s)
    case (Sent n)
    then show ?thesis using handle_writable_sent [OF d(1) assms(1) d(2), of n] by simp
  next
    case SendError
    then show ?thesis using drop_connection_total [OF assms(1)] d by (simp add: handle_writable_def Let_def)
  qed (use assms(3) in simp)
qed

lemma event_handled:
  assumes "worker_ok w" "handlers_ok hs" "short_answers hs"
    and "wk_interest w fd = Some (k, d)" "flags_ok k flags"
    and "\<And>bs. r = Received bs \<Longrightarrow> bs \<noteq> [] \<and> length bs < kMaxBufferSize" "s \<noteq> SendAgain"
  shows "wk_open w fd \<and> data_ok_for fd k d \<and> (\<exists>w'. process_event hs d flags r s w = (Inr (), w') \<and> worker_ok w')"
proof -
  note ok = assms(1)
  note d = worker_okD [OF ok assms(4)]
  have reg: "wk_interest w fd \<noteq> None" "ed_fd d = fd" using assms(4) d by (simp_all add: data_ok_for_def)
  have "\<exists>w'. process_event hs d flags r s w = (Inr (), w')"
  proof (cases flags)
    case (Exactly k')
    then show ?thesis
      using d assms(5) handle_readable_total [OF assms(2) reg(1) _ assms(6)] handle_writable_total [OF reg(1) _ assms(7)]
      by (cases k) (auto simp: process_event_def HandleEpollEvent_def)
  qed (use drop_connection_total [OF reg(1)] reg(2) in \<open>simp_all add: process_event_def\<close>)
  then show ?thesis using d process_event_ok [OF ok assms(2-5)] by blast
qed

text \<open>
  In every state a worker can reach, what is registered with its epoll instance belongs to
  an open descriptor and points inside its buffer, and an event, with a request of fewer than 4096
  bytes and any result of a send but \<^verbatim>\<open>EAGAIN\<close>, is handled without an error and without
  reading outside the buffer, provided that no answer is longer than 4096 bytes.
\<close>

theorem reachable_worker_safe:
  assumes "worker_reachable hs w" "handlers_ok hs" "short_answers hs"
    and "wk_interest w fd = Some (k, d)" "flags_ok k flags"
    and "\<And>bs. r = Received bs \<Longrightarrow> bs \<noteq> [] \<and> length bs < kMaxBufferSize" "s \<noteq> SendAgain"
  shows "wk_open w fd \<and> data_ok_for fd k d \<and> (\<exists>w'. process_event hs d flags r s w = (Inr (), w') \<and> worker_ok w')"
  using event_handled [OF reachable_ok [OF assms(1-3)] assms(2-7)] .

definition error_answers :: "(string \<times> http_status) list" where
  "error_answers = [(''Could not find request start line'', BadRequest), (''Unexpected HTTP method'', BadRequest),
     (''Unexpected HTTP version'', BadRequest), (''HTTP version not supported'', HttpVersionNotSupported)]"

lemma error_answered:
  assumes "string_to_request s = Inl e"
  shows "\<exists>(x, st) \<in> set error_answers. catch_exception e = Some (SetContent x (HttpResponse_new st))"
  using parsed_request_errors [OF assms]
  by (elim insertE emptyE) (simp_all add: error_answers_def)

lemma error_answers_short:
  "(x, st) \<in> set error_answers \<Longrightarrow> length (response_to_string (SetContent x (HttpResponse_new st)) True) \<le> 4096"
proof -
  have "list_all (\<lambda>(x, st). length (response_to_string (SetContent x (HttpResponse_new st)) True) \<le> 4096) error_answers"
    by code_simp
  then show "(x, st) \<in> set error_answers \<Longrightarrow> ?thesis" by (simp only: list_all_iff) fast
qed

lemma not_found_short: "length (response_to_string (HttpResponse_new NotFound) c) \<le> 4096"
proof -
  have "length (response_to_string (HttpResponse_new NotFound) True) \<le> 4096"
      "length (response_to_string (HttpResponse_new NotFound) False) \<le> 4096"
    by code_simp+
  then show ?thesis by (cases c) simp_all
qed

lemma no_handlers_short: "short_answers []"
proof -
  have "length (answer_string [] s) \<le> 4096" for s
  proof (cases "string_to_request s")
    case (Inl e)
    then show ?thesis
      using error_answered [OF Inl] error_answers_short by (auto simp: answer_string_def answer_def)
  next
    case (Inr r)
    then show ?thesis using not_found_short by (simp add: answer_string_def answer_def)
  qed
  then show ?thesis by (simp add: short_answers_def kMaxBufferSize_def)
qed

theorem reachable_worker_safe_witness:
  "\<exists>w'. process_event [] (EventData_new\<lparr>ed_fd := 7\<rparr>) (Exactly EPOLLIN) (Received (bytes_of_string up_request)) SendError
    connected = (Inr (), w') \<and> worker_ok w'"
proof -
  have "accept_connection 7 worker_start = (Inr (), connected)"
    by (simp add: accept_connection_def worker_start_def connected_def fun_eq_iff)
  then have "worker_reachable [] connected"
    by (intro worker_reachable.step [OF worker_reachable.start] worker_step.accept [of _ 7]) (simp_all add: worker_start_def)
  moreover have "handlers_ok []" by (simp add: handlers_ok_def smap.map_ok_def)
  moreover have "wk_interest connected 7 = Some (EPOLLIN, EventData_new\<lparr>ed_fd := 7\<rparr>)" by (simp add: connected_def)
  moreover have "up_request \<noteq> []" "length up_request < 4096" by code_simp+
  ultimately show ?thesis
    using reachable_worker_safe [of "[]" connected 7 EPOLLIN _ "Exactly EPOLLIN" "Received (bytes_of_string up_request)" SendError]
      no_handlers_short by (simp add: kMaxBufferSize_def)
qed

text \<open>
  A send that would block is retried with \<^verbatim>\<open>EPOLL_CTL_ADD\<close> on a descriptor that is already
  registered: the call fails and the exception leaves the worker.
\<close>

theorem send_again_throws:
  assumes "worker_ok w" "wk_interest w fd = Some (EPOLLOUT, d)"
  shows "dispatch hs fd (Exactly EPOLLOUT) r SendAgain w =
    (Inl (runtime_error ''Failed to add file descriptor (Prometheus Server)''), w)"
  using worker_okD [OF assms] assms(2)
  by (simp add: dispatch_def process_event_def HandleEpollEvent_def handle_writable_def data_ok_for_def Let_def)

text \<open>A request that fills the buffer has no terminating zero: reading it as a string is undefined.\<close>

theorem full_request_undefined:
  assumes "wk_interest w fd = Some (EPOLLIN, d)" "length bs = kMaxBufferSize" "0 \<notin> set bs" "length (ed_buffer d) = kMaxBufferSize"
  shows "dispatch hs fd (Exactly EPOLLIN) (Received bs) s w = (Inl Undefined_Behaviour, w)"
  using assms
  by (simp add: dispatch_def process_event_def HandleEpollEvent_def handle_readable_def HandleHttpData_def c_string_def
      bindC_def)

text \<open>An answer longer than the buffer: the copy is cut, the length is not, and sending it reads past the buffer.\<close>

theorem long_answer_undefined:
  assumes "handlers_ok hs" "0 \<in> set (ed_buffer raw)"
    "answer_string hs (string_of_bytes (takeWhile (\<lambda>b. b \<noteq> 0) (ed_buffer raw))) = out"
    "kMaxBufferSize < length out" "length out < 2 ^ 64"
  shows "\<exists>d. HandleHttpData hs raw EventData_new = Inr d \<and> handle_writable d s w = (Inl Undefined_Behaviour, w)"
proof -
  have "unat (of_nat (length out) :: u64) = length out"
    using assms(5) by (simp add: unat_of_nat take_bit_nat_eq_self)
  then show ?thesis
    using HandleHttpData_eq [OF assms(1,2), of EventData_new] assms(3,4)
    by (simp add: Let_def handle_writable_def EventData_new_def)
qed

section \<open>Starting and listening\<close>

definition server_ok :: "http_server \<Rightarrow> bool" where
  "server_ok sv \<longleftrightarrow> length (sv_workers sv) = kThreadPoolSize \<and> sv_current_worker sv < kThreadPoolSize"

fun listen_all :: "int list \<Rightarrow> http_server \<Rightarrow> http_server result" where
  "listen_all [] sv = Inr sv"
| "listen_all (fd # fds) sv = bindR (Listen fd sv) (listen_all fds)"

lemma SetUpEpoll_all: "(\<forall>b \<in> set bs. b) \<Longrightarrow> SetUpEpoll bs = Inr (replicate (length bs) worker_start)"
  by (induction bs) (auto simp: worker_start_def)

lemma Listen_ok:
  assumes "server_ok sv" "sv_running sv" "0 \<le> fd" "wk_interest (sv_workers sv ! sv_current_worker sv) fd = None"
  shows "\<exists>sv'. Listen fd sv = Inr sv' \<and> server_ok sv' \<and> sv_running sv' \<and>
    sv_current_worker sv' = (sv_current_worker sv + 1) mod kThreadPoolSize \<and>
    (\<forall>i fd'. i < kThreadPoolSize \<longrightarrow> wk_interest (sv_workers sv' ! i) fd' =
      (if i = sv_current_worker sv \<and> fd' = fd then Some (EPOLLIN, EventData_new\<lparr>ed_fd := fd\<rparr>)
       else wk_interest (sv_workers sv ! i) fd'))"
  using assms
  by (auto simp: Listen_def server_ok_def accept_connection_def Let_def nth_list_update kThreadPoolSize_def)

lemma listen_all_round_robin:
  assumes "server_ok sv" "sv_running sv" "distinct fds" "\<And>fd. fd \<in> set fds \<Longrightarrow> 0 \<le> fd"
    "\<And>i fd. i < kThreadPoolSize \<Longrightarrow> fd \<in> set fds \<Longrightarrow> wk_interest (sv_workers sv ! i) fd = None"
  shows "\<exists>sv'. listen_all fds sv = Inr sv' \<and> server_ok sv' \<and>
    (\<forall>i j. j < length fds \<longrightarrow> i < kThreadPoolSize \<longrightarrow>
      (wk_interest (sv_workers sv' ! i) (fds ! j) \<noteq> None \<longleftrightarrow> i = (sv_current_worker sv + j) mod kThreadPoolSize)) \<and>
    (\<forall>i fd. fd \<notin> set fds \<longrightarrow> i < kThreadPoolSize \<longrightarrow>
      wk_interest (sv_workers sv' ! i) fd = wk_interest (sv_workers sv ! i) fd)"
  using assms
proof (induction fds arbitrary: sv)
  case (Cons fd fds)
  have c: "sv_current_worker sv < kThreadPoolSize" using Cons.prems(1) by (simp add: server_ok_def)
  obtain s1 where s1: "Listen fd sv = Inr s1" "server_ok s1" "sv_running s1"
      "sv_current_worker s1 = (sv_current_worker sv + 1) mod kThreadPoolSize"
      "\<And>i fd'. i < kThreadPoolSize \<Longrightarrow> wk_interest (sv_workers s1 ! i) fd' =
        (if i = sv_current_worker sv \<and> fd' = fd then Some (EPOLLIN, EventData_new\<lparr>ed_fd := fd\<rparr>)
         else wk_interest (sv_workers sv ! i) fd')"
    using Listen_ok [OF Cons.prems(1,2), of fd] Cons.prems(4,5) c by auto
  have "wk_interest (sv_workers s1 ! i) fd' = None" if "i < kThreadPoolSize" "fd' \<in> set fds" for i fd'
    using s1(5) Cons.prems(3,5) that by auto
  then obtain s2 where s2: "listen_all fds s1 = Inr s2" "server_ok s2"
      "\<And>i j. j < length fds \<Longrightarrow> i < kThreadPoolSize \<Longrightarrow>
        wk_interest (sv_workers s2 ! i) (fds ! j) \<noteq> None \<longleftrightarrow> i = (sv_current_worker s1 + j) mod kThreadPoolSize"
      "\<And>i fd'. fd' \<notin> set fds \<Longrightarrow> i < kThreadPoolSize \<Longrightarrow>
        wk_interest (sv_workers s2 ! i) fd' = wk_interest (sv_workers s1 ! i) fd'"
    using Cons.IH [OF s1(2,3)] Cons.prems(3,4) by auto
  have "wk_interest (sv_workers s2 ! i) ((fd # fds) ! j) \<noteq> None \<longleftrightarrow> i = (sv_current_worker sv + j) mod kThreadPoolSize"
    if "j < length (fd # fds)" "i < kThreadPoolSize" for i j
  proof (cases j)
    case 0
    then show ?thesis using s2(4) [of fd i] s1(5) [of i fd] Cons.prems(3,5) that(2) c by auto
  next
    case (Suc j')
    then show ?thesis using s2(3) [of j' i] s1(4) that by (simp add: mod_add_left_eq)
  qed
  moreover have "wk_interest (sv_workers s2 ! i) fd' = wk_interest (sv_workers sv ! i) fd'"
    if "fd' \<notin> set (fd # fds)" "i < kThreadPoolSize" for i fd'
    using s2(4) [of fd' i] s1(5) [of i fd'] that by auto
  ultimately show ?case using s1(1) s2(1,2) by auto
qed simp

text \<open>
  A server that starts has five workers, and the connections the listener then accepts are
  spread over them in turn: the \<open>j\<close>-th is registered with worker \<open>j mod 5\<close> and with no other.
\<close>

theorem connections_round_robin:
  assumes "distinct fds" "\<And>fd. fd \<in> set fds \<Longrightarrow> 0 \<le> fd" "\<And>i. i < kThreadPoolSize \<Longrightarrow> created i"
  shows "\<exists>s1 s2. Start True True True created sv = Inr s1 \<and> listen_all fds s1 = Inr s2 \<and> length (sv_workers s2) = 5 \<and>
    (\<forall>i j. j < length fds \<longrightarrow> i < 5 \<longrightarrow> (wk_interest (sv_workers s2 ! i) (fds ! j) \<noteq> None \<longleftrightarrow> i = j mod 5))"
proof -
  let ?s = "sv\<lparr>sv_running := True, sv_workers := replicate 5 worker_start, sv_current_worker := 0\<rparr>"
  have "SetUpEpoll (map created [0..<5]) = Inr (replicate 5 worker_start)"
    using SetUpEpoll_all [of "map created [0..<5]"] assms(3) by (simp add: kThreadPoolSize_def)
  then have "Start True True True created sv = Inr ?s" by (simp add: Start_def kThreadPoolSize_def)
  moreover have "server_ok ?s" by (simp add: server_ok_def kThreadPoolSize_def)
  then have "\<exists>s2. listen_all fds ?s = Inr s2 \<and> server_ok s2 \<and>
      (\<forall>i j. j < length fds \<longrightarrow> i < kThreadPoolSize \<longrightarrow>
        (wk_interest (sv_workers s2 ! i) (fds ! j) \<noteq> None \<longleftrightarrow> i = (sv_current_worker ?s + j) mod kThreadPoolSize))"
    using listen_all_round_robin [of ?s fds] assms(1,2)
    by (simp add: kThreadPoolSize_def worker_start_def del: replicate.simps) blast
  ultimately show ?thesis by (auto simp: server_ok_def kThreadPoolSize_def)
qed

end
