(* ===== verification/Api_Cql_Server.thy ===== *)
theory Api_Cql_Server
  imports Api_Cql_Metadata Api_Http_Server
begin

text \<open>
  \<^verbatim>\<open>include/api/cql3/server_response.hh\<close>, \<^verbatim>\<open>lib/api/cql3/server_response.cc\<close> and the
  message handling of \<^verbatim>\<open>lib/api/cql3/server.cc\<close>: the text of a query is taken out of its
  frame, executed, and answered. The state is that of the process, the database of the server, which shares
  the file system with the process, and the metrics. Uninitialised arrays and the times measured are
  arguments. The lemmas show which text is executed, and what the answers hold.
\<close>

section \<open>Options\<close>

definition emit_bytes :: "byte list \<Rightarrow> int \<Rightarrow> byte list \<Rightarrow> (int \<times> byte list) result" where
  "emit_bytes bs index hdr = bindR (set_bytes index bs hdr) (\<lambda>hdr. Inr (index + int (length bs), hdr))"

text \<open>A string with a zero and its length in one byte in front of it.\<close>

definition supported_text :: "string \<Rightarrow> int \<Rightarrow> byte list \<Rightarrow> (int \<times> byte list) result" where
  "supported_text s index hdr =
     bindR (emit_bytes [0, of_nat (length s)] index hdr) (\<lambda>(index, hdr).
     bindR (put_chars index (int (length s)) s hdr) (\<lambda>hdr. Inr (index + int (length s), hdr)))"

fun supported_texts :: "string list \<Rightarrow> int \<Rightarrow> byte list \<Rightarrow> (int \<times> byte list) result" where
  "supported_texts [] index hdr = Inr (index, hdr)"
| "supported_texts (s # ss) index hdr =
     bindR (supported_text s index hdr) (\<lambda>(index, hdr). supported_texts ss index hdr)"

definition supported_option :: "string \<times> string list \<Rightarrow> int \<Rightarrow> byte list \<Rightarrow> (int \<times> byte list) result" where
  "supported_option opt index hdr =
     bindR (supported_text (fst opt) index hdr) (\<lambda>(index, hdr).
     bindR (if snd opt = [] then Inr (index, hdr) else emit_bytes [0, of_nat (length (snd opt))] index hdr) (\<lambda>(index, hdr).
       supported_texts (snd opt) index hdr))"

fun supported_options :: "(string \<times> string list) list \<Rightarrow> int \<Rightarrow> byte list \<Rightarrow> (int \<times> byte list) result" where
  "supported_options [] index hdr = Inr (index, hdr)"
| "supported_options (opt # opts) index hdr =
     bindR (supported_option opt index hdr) (\<lambda>(index, hdr). supported_options opts index hdr)"

definition SupportedMessage :: "(string \<times> string list) list \<Rightarrow> byte list \<Rightarrow> (int \<times> byte list) result" where
  "SupportedMessage opts hdr =
     bindR (if opts = [] then Inr (9, hdr) else emit_bytes [0, of_nat (length opts)] 9 hdr) (\<lambda>(index, hdr).
     bindR (supported_options opts index hdr) (\<lambda>(index, hdr).
     bindR (arr_set 8 (word_of_int (index - 9)) hdr) (\<lambda>hdr. Inr (index, hdr))))"

section \<open>The text of a query\<close>

text \<open>The loop over the body: a byte that is not positive starts a gap, the next positive byte ends it and is dropped.\<close>

fun extract_query :: "byte list \<Rightarrow> bool \<Rightarrow> string \<Rightarrow> string" where
  "extract_query [] escape query = query"
| "extract_query (b # bs) escape query =
     (if sint b \<le> 0 then extract_query bs True query
      else if escape then extract_query bs False query
      else extract_query bs False (query @ [char_of_byte b]))"

definition frame_bytes :: "frame \<Rightarrow> byte list result" where
  "frame_bytes f =
     (if fm_max_size f - 9 \<le> 0 then Inr []
      else bindR (deref (fm_body f)) (\<lambda>body.
        if fm_max_size f - 9 \<le> int (length body) then Inr (take (nat (fm_max_size f - 9)) body) else Inl Undefined_Behaviour))"

text \<open>A query with a semicolon is no query for metadata, and ends at its first one unless it ends with one.\<close>

definition cut_query :: "string \<Rightarrow> bool \<times> string" where
  "cut_query query =
     (if query \<noteq> '''' \<and> strstr query '';''
      then (False, if last query \<noteq> CHR '';''
                   then (case find_string '';'' query of Some n \<Rightarrow> take (n + 1) query | None \<Rightarrow> query) else query)
      else (True, query))"

definition unslice :: "string \<Rightarrow> string result" where
  "unslice query =
     bindR (str_at query 0) (\<lambda>c.
       if tolower c = CHR ''n'' then Inr (CHR ''I'' # query)
       else if tolower c = CHR ''r'' then Inr (CHR ''C'' # query)
       else if tolower c = CHR ''e'' then
         bindR (str_at query 4) (\<lambda>d.
           if tolower d = CHR ''c'' then Inr (CHR ''S'' # query)
           else if tolower d = CHR ''t'' then Inr (CHR ''D'' # query)
           else Inr query)
       else Inr query)"

section \<open>Answers\<close>

record 'w cql_state =
  cq_process :: "'w process"
  cq_db :: database
  cq_met :: "int list"

record 'w responding = "'w cql_state" +
  rs_header :: "byte list"
  rs_body :: "byte list"
  rs_msg_length :: int

text \<open>A command on the process, on the database of the server, and on the two arrays.\<close>

definition on_process :: "('w process, 'a) pcmd \<Rightarrow> ('w responding, 'a) pcmd" where
  "on_process c r = (case c (cq_process r) of
     None \<Rightarrow> None
   | Some (x, p) \<Rightarrow> Some (x, r\<lparr>cq_process := p\<rparr>))"

definition on_server_db :: "(db_state, 'a) cmd \<Rightarrow> ('w responding, 'a) pcmd" where
  "on_server_db c r = (case c (cq_db r, pc_fs (cq_process r)) of
     (x, (db, f)) \<Rightarrow> Some (x, r\<lparr>cq_db := db, cq_process := (cq_process r)\<lparr>pc_fs := f\<rparr>\<rparr>))"

definition on_arrays :: "(byte list \<Rightarrow> byte list \<Rightarrow> (int \<times> byte list \<times> byte list) result) \<Rightarrow> ('w responding, unit) pcmd" where
  "on_arrays c r = (case c (rs_header r) (rs_body r) of
     Inl e \<Rightarrow> Some (Inl e, r)
   | Inr (n, hdr, body) \<Rightarrow> Some (Inr (), r\<lparr>rs_header := hdr, rs_body := body, rs_msg_length := n\<rparr>))"

definition set_met :: "nat \<Rightarrow> int \<Rightarrow> ('w responding, unit) pcmd" where
  "set_met k v r =
     (if k < length (cq_met r) then Some (Inr (), r\<lparr>cq_met := (cq_met r)[k := v]\<rparr>) else Some (Inl Undefined_Behaviour, r))"

text \<open>A 64-bit count of microseconds assigned to an \<^verbatim>\<open>int\<close>.\<close>

definition narrow :: "int \<Rightarrow> int" where
  "narrow v = sint (word_of_int v :: 32 word)"

definition inc_met :: "nat \<Rightarrow> ('w responding, unit) pcmd" where
  "inc_met k r =
     bindP (liftP (if k < length (cq_met r) then c_int (cq_met r ! k + 1) else Inl Undefined_Behaviour)) (\<lambda>v. set_met k v) r"

text \<open>The exceptions a handler takes are counted in \<^verbatim>\<open>met[7]\<close>.\<close>

definition count_exception :: "(error \<Rightarrow> bool) \<Rightarrow> ('w responding, unit) pcmd \<Rightarrow> ('w responding, unit) pcmd" where
  "count_exception caught c r = (case c r of
     None \<Rightarrow> None
   | Some (Inr x, r) \<Rightarrow> Some (Inr x, r)
   | Some (Inl e, r) \<Rightarrow> if caught e then inc_met 7 r else Some (Inl e, r))"

fun is_unsupported :: "error \<Rightarrow> bool" where
  "is_unsupported (unspported_cql_statement s) = True"
| "is_unsupported _ = False"

text \<open>\<^verbatim>\<open>Header[start + k] = body[k]\<close> for the first \<open>n\<close> bytes.\<close>

definition copy_bytes :: "byte list \<Rightarrow> int \<Rightarrow> int \<Rightarrow> byte list \<Rightarrow> byte list result" where
  "copy_bytes body start n hdr =
     for_range (nat n) start (\<lambda>i hdr. bindR (arr_get (i - start) body) (\<lambda>b. arr_set i b hdr)) hdr"

definition create_table_response ::
  "byte \<Rightarrow> string \<Rightarrow> string \<Rightarrow> byte list \<Rightarrow> byte list \<Rightarrow> (int \<times> byte list \<times> byte list) result" where
  "create_table_response version keyspace table hdr body =
     bindR (arr_get 3 hdr) (\<lambda>stream_id.
     bindR (schema_change keyspace table body) (\<lambda>(size1, body).
     bindR (copy_bytes body 2 size1 hdr) (\<lambda>hdr.
     bindR (set_bytes (size1 + 2) [0, 1, 0] hdr) (\<lambda>hdr.
     bindR (set_bytes (size1 + 2) [version, 0, 0, stream_id, 8] hdr) (\<lambda>hdr.
     bindR (create_table_result keyspace table body) (\<lambda>(size2, body).
     bindR (set_bytes (size1 + 7) [0, 0, 0, word_of_int size2] hdr) (\<lambda>hdr.
     bindR (copy_bytes body (size1 + 11) size2 hdr) (\<lambda>hdr.
       Inr (size1 + 2 + size2 + 12, hdr, body)))))))))"

definition insert_response :: "byte list \<Rightarrow> byte list \<Rightarrow> (int \<times> byte list \<times> byte list) result" where
  "insert_response hdr body =
     bindR (insert_record body) (\<lambda>(sz, body).
     bindR (copy_bytes body 5 sz hdr) (\<lambda>hdr. Inr (sz + 5, hdr, body)))"

definition select_response :: "byte list \<Rightarrow> int \<times> byte list \<Rightarrow> (int \<times> byte list \<times> byte list) result" where
  "select_response hdr res =
     (case res of (sz, body) \<Rightarrow>
       bindR (set_bytes 5 [0, 0, 0, word_of_int sz] hdr) (\<lambda>hdr.
       bindR (copy_bytes body 9 sz hdr) (\<lambda>hdr. Inr (sz + 9, hdr, body))))"

fun respond_statement :: "byte \<Rightarrow> int \<Rightarrow> string \<Rightarrow> statement \<Rightarrow> ('w responding, unit) pcmd" where
  "respond_statement version micros record_str (CreateTable c) =
     count_exception is_unsupported
       (bindP (on_server_db (CreateTable_execute c)) (\<lambda>_.
        bindP (inc_met 0) (\<lambda>_. on_arrays (create_table_response version (ct_keyspace c) (ct_table c)))))"
| "respond_statement version micros record_str (Insert i) =
     count_exception (\<lambda>e. e = schema_mismatch_error)
       (\<lambda>r. case insert_record (rs_body r) of
          Inl e \<Rightarrow> Some (Inl e, r)
        | Inr _ \<Rightarrow> bindP (set_met 3 (narrow micros)) (\<lambda>_. bindP (inc_met 1) (\<lambda>_. on_arrays insert_response)) r)"
| "respond_statement version micros record_str (Select s) =
     (\<lambda>r. case read_schema (fr_table (sl_from_spec s)) (cq_db r) of
        Inl e \<Rightarrow> Some (Inl e, r)
      | Inr sch \<Rightarrow> (case select_result (fr_keyspace (sl_from_spec s)) (fr_table (sl_from_spec s)) sch [] record_str (rs_body r) of
          None \<Rightarrow> None
        | Some (Inl e) \<Rightarrow> Some (Inl e, r)
        | Some (Inr res) \<Rightarrow> bindP (set_met 4 (narrow micros)) (\<lambda>_. bindP (inc_met 2) (\<lambda>_.
            on_arrays (\<lambda>hdr _. select_response hdr res))) r))"

text \<open>
  A statement has a duration of its own, measured between two readings of the clock: the durations are given by the
  position of the statement in the query.
\<close>

fun respond_statements :: "byte \<Rightarrow> (nat \<Rightarrow> int) \<Rightarrow> string \<Rightarrow> statement list \<Rightarrow> ('w responding, unit) pcmd" where
  "respond_statements version micros record_str [] = liftP (Inr ())"
| "respond_statements version micros record_str (st # sts) =
     bindP (respond_statement version (micros 0) record_str st) (\<lambda>_.
       respond_statements version (\<lambda>i. micros (Suc i)) record_str sts)"

text \<open>
  The body of the \<^verbatim>\<open>try\<close>: the query is parsed twice, once here and once by the query processor, which
  executes the first statement.
\<close>

definition respond_query :: "('c, 'w) externals \<Rightarrow> byte \<Rightarrow> (nat \<Rightarrow> int) \<Rightarrow> string \<Rightarrow> ('w responding, unit) pcmd" where
  "respond_query ex version micros query =
     count_exception (\<lambda>e. e = non_existent_record_error \<or> is_unsupported e)
       (bindP (liftP (visitRoot (ex_visitor ex) (ex_parse ex query))) (\<lambda>statements.
        bindP (on_process (QueryProcessor_process ex query)) (\<lambda>record_str_result.
          respond_statements version micros record_str_result statements)))"

definition respond_meta :: "meta_tables \<Rightarrow> byte list \<Rightarrow> byte list \<Rightarrow> string \<Rightarrow> ('w responding, unit) pcmd" where
  "respond_meta tables junk_metadata junk_body query =
     on_arrays (\<lambda>hdr body.
       bindR (meta_result tables junk_metadata query junk_body) (\<lambda>(msg_length, answer).
       bindR (copy_bytes answer 5 (msg_length - 5) hdr) (\<lambda>hdr. Inr (msg_length, hdr, body))))"

definition supported_message_options :: "(string \<times> string list) list result" where
  "supported_message_options =
     bindR (map_insert string_less ''PROTOCOL_VERSIONS'' [''3/V3''] []) (\<lambda>m.
     bindR (map_insert string_less ''CQL_VERSION'' [''3.4.5''] m) (\<lambda>m.
       map_insert string_less ''COMPRESSION'' [''snappy'', ''lz4''] m))"

definition respond_query_frame ::
  "('c, 'w) externals \<Rightarrow> meta_tables \<Rightarrow> byte list \<Rightarrow> byte list \<Rightarrow> (nat \<Rightarrow> int) \<Rightarrow> frame \<Rightarrow> ('w responding, unit) pcmd" where
  "respond_query_frame ex tables junk_metadata junk_body micros f =
     bindP (liftP (frame_bytes f)) (\<lambda>bytes.
       case cut_query (extract_query bytes False '''') of (meta, query) \<Rightarrow>
         if meta then respond_meta tables junk_metadata junk_body query
         else if query \<noteq> '''' \<and> last query = CHR '';''
         then bindP (liftP (unslice query)) (respond_query ex (fm_version f + 0x80) micros)
         else liftP (Inr ()))"

definition CreateResponse ::
  "('c, 'w) externals \<Rightarrow> meta_tables \<Rightarrow> byte list \<Rightarrow> byte list \<Rightarrow> (nat \<Rightarrow> int) \<Rightarrow> frame \<Rightarrow> ('w responding, int) pcmd" where
  "CreateResponse ex tables junk_metadata junk_body micros f =
     bindP (on_arrays (\<lambda>hdr body.
       bindR (set_bytes 0 [fm_version f + 0x80, fm_flags f, fst (fm_streamID f), snd (fm_streamID f)] hdr) (\<lambda>hdr.
         Inr (9, hdr, body)))) (\<lambda>_.
     bindP (if fm_opcode f = 5 then
              on_arrays (\<lambda>hdr body.
                bindR (set_bytes 4 [6, 0, 0, 0] hdr) (\<lambda>hdr.
                bindR supported_message_options (\<lambda>opts.
                bindR (SupportedMessage opts hdr) (\<lambda>(n, hdr). Inr (n, hdr, body)))))
            else if fm_opcode f = 1 \<or> fm_opcode f = 0x0B then
              on_arrays (\<lambda>hdr body. bindR (set_bytes 4 [2, 0, 0, 0, 0] hdr) (\<lambda>hdr. Inr (9, hdr, body)))
            else if fm_opcode f = 7 then
              bindP (on_arrays (\<lambda>hdr body. bindR (set_bytes 4 [8] hdr) (\<lambda>hdr. Inr (9, hdr, body)))) (\<lambda>_.
                respond_query_frame ex tables junk_metadata junk_body micros f)
            else liftP (Inr ())) (\<lambda>_.
     (\<lambda>r. Some (Inr (rs_msg_length r), r))))"

section \<open>The messages of a read\<close>

text \<open>
  \<^verbatim>\<open>server.cc\<close>: what \<^verbatim>\<open>recv\<close> returned is taken to be a sequence of messages, each starting
  where the first two bytes of the buffer occur again.
\<close>

definition MAX_MESSAGE_LEN :: nat where
  "MAX_MESSAGE_LEN = 2048"

definition message_starts :: "byte list \<Rightarrow> int \<Rightarrow> int list result" where
  "message_starts buffer bytes_received =
     for_range (nat bytes_received) 0 (\<lambda>i indeces.
       bindR (arr_get i buffer) (\<lambda>b. bindR (arr_get 0 buffer) (\<lambda>b0.
         if b = b0 then bindR (arr_get (i + 1) buffer) (\<lambda>c. bindR (arr_get 1 buffer) (\<lambda>c1.
           Inr (if c = c1 then indeces @ [i] else indeces)))
         else Inr indeces))) []"

definition message_indeces :: "byte list \<Rightarrow> int \<Rightarrow> int list result" where
  "message_indeces buffer bytes_received =
     bindR (message_starts buffer bytes_received) (\<lambda>indeces. Inr (indeces @ [bytes_received - 1]))"

record junk_arrays =
  ju_flags :: byte
  ju_opcode :: byte
  ju_header :: "byte list"
  ju_body :: "byte list"
  ju_metadata :: "byte list"
  ju_answer :: "byte list"
  ju_div :: "byte list"

definition next_frame :: "junk_arrays \<Rightarrow> byte list \<Rightarrow> int \<Rightarrow> int \<Rightarrow> byte list \<Rightarrow> (frame \<times> byte list) result" where
  "next_frame ju buffer lo hi new_buffer =
     bindR (for_range (nat (hi - lo)) lo (\<lambda>j new_buffer.
              bindR (arr_get j buffer) (\<lambda>b. arr_set (j - lo) b new_buffer)) new_buffer) (\<lambda>new_buffer.
     bindR (Frame_parse (Frame_new (ju_flags ju) (ju_opcode ju) new_buffer (hi - lo))) (\<lambda>f. Inr (f, new_buffer)))"

text \<open>
  A response in which the first two bytes occur again is sent in two parts if its third byte is 255: the first
  one ends with the byte the second one starts with.
\<close>

definition send_parts :: "byte list \<Rightarrow> byte list \<Rightarrow> int \<Rightarrow> byte list list result" where
  "send_parts junk_div hdr bytes_sent =
     bindR (for_range (nat bytes_sent) 0 (\<lambda>i (index, dv).
       bindR (arr_get i hdr) (\<lambda>b. bindR (arr_get 0 hdr) (\<lambda>b0.
       bindR (if b = b0 then
                bindR (arr_get (i + 1) hdr) (\<lambda>c. bindR (arr_get 1 hdr) (\<lambda>c1.
                  if c = c1 then bindR (arr_get 2 hdr) (\<lambda>d. Inr (if d = 255 then i else index)) else Inr index))
              else Inr index) (\<lambda>index.
         if index \<noteq> 0 then bindR (arr_set (i - index) b dv) (\<lambda>dv. Inr (index, dv)) else Inr (index, dv))))) (0, junk_div))
       (\<lambda>(index, dv).
         if index = 0 then Inr [take (nat bytes_sent) hdr]
         else Inr [take (nat (index + 1)) hdr, take (nat (bytes_sent - index)) dv])"

definition serve_message ::
  "('c, 'w) externals \<Rightarrow> meta_tables \<Rightarrow> junk_arrays \<Rightarrow> (nat \<Rightarrow> int) \<Rightarrow> byte list \<Rightarrow> int \<Rightarrow> int \<Rightarrow>
   ('w cql_state \<times> byte list, byte list list) pcmd" where
  "serve_message ex tables ju micros buffer lo hi = (\<lambda>(st, new_buffer).
     case next_frame ju buffer lo hi new_buffer of
       Inl e \<Rightarrow> Some (Inl e, (st, new_buffer))
     | Inr (f, new_buffer) \<Rightarrow>
         (case CreateResponse ex tables (ju_metadata ju) (ju_answer ju) micros f
                 \<lparr>cq_process = cq_process st, cq_db = cq_db st, cq_met = cq_met st,
                  rs_header = ju_header ju, rs_body = ju_body ju, rs_msg_length = 9\<rparr> of
            None \<Rightarrow> None
          | Some (res, r) \<Rightarrow>
              Some (bindR res (send_parts (ju_div ju) (rs_header r)),
                (\<lparr>cq_process = cq_process r, cq_db = cq_db r, cq_met = cq_met r\<rparr>, new_buffer))))"

text \<open>
  The answer to a message is sent before the next message is looked at: what was sent is part of the state, and stays
  there when a later message ends the process. The uninitialised arrays and the durations of a message are given by its
  position.
\<close>

definition sending :: "('w cql_state \<times> byte list, byte list list) pcmd \<Rightarrow> ('w cql_state \<times> byte list \<times> byte list list, unit) pcmd" where
  "sending c = (\<lambda>(st, new_buffer, sent). case c (st, new_buffer) of
     None \<Rightarrow> None
   | Some (Inl e, (st, new_buffer)) \<Rightarrow> Some (Inl e, (st, new_buffer, sent))
   | Some (Inr parts, (st, new_buffer)) \<Rightarrow> Some (Inr (), (st, new_buffer, sent @ parts)))"

fun serve_messages ::
  "('c, 'w) externals \<Rightarrow> meta_tables \<Rightarrow> (int \<Rightarrow> junk_arrays) \<Rightarrow> (int \<Rightarrow> nat \<Rightarrow> int) \<Rightarrow> byte list \<Rightarrow> int list \<Rightarrow>
   ('w cql_state \<times> byte list \<times> byte list list, unit) pcmd" where
  "serve_messages ex tables ju micros buffer [] = liftP (Inr ())"
| "serve_messages ex tables ju micros buffer [i] = liftP (Inr ())"
| "serve_messages ex tables ju micros buffer (lo # hi # indeces) =
     bindP (sending (serve_message ex tables (ju lo) (micros lo) buffer lo hi)) (\<lambda>_.
       serve_messages ex tables ju micros buffer (hi # indeces))"

text \<open>A readable connection: without bytes the metadata is written, otherwise each message is answered.\<close>

definition serve_read ::
  "('c, 'w) externals \<Rightarrow> meta_tables \<Rightarrow> (int \<Rightarrow> junk_arrays) \<Rightarrow> (int \<Rightarrow> nat \<Rightarrow> int) \<Rightarrow> byte list \<Rightarrow> int \<Rightarrow>
   ('w cql_state \<times> byte list \<times> byte list list, unit) pcmd" where
  "serve_read ex tables ju micros buffer bytes_received =
     (if bytes_received \<le> 0 then (\<lambda>(st, new_buffer, sent).
        case flush_metadata (cq_db st) (pc_fs (cq_process st)) of
          (res, f) \<Rightarrow> Some (res, (st\<lparr>cq_process := (cq_process st)\<lparr>pc_fs := f\<rparr>\<rparr>, new_buffer, sent)))
      else bindP (liftP (message_indeces buffer bytes_received)) (serve_messages ex tables ju micros buffer))"

section \<open>Which text is executed\<close>

text \<open>Bytes that are positive as signed characters.\<close>

definition plain :: "byte \<Rightarrow> bool" where
  "plain b \<longleftrightarrow> 0 < sint b"

lemma extract_query_acc: "extract_query bs e q = q @ extract_query bs e []"
proof (induction bs arbitrary: e q)
  case (Cons b bs)
  show ?case
    using Cons.IH [of True q] Cons.IH [of False q] Cons.IH [of False "q @ [char_of_byte b]"] Cons.IH [of False "[char_of_byte b]"]
    by simp
qed simp

lemma extract_query_plain: "list_all plain bs \<Longrightarrow> extract_query (bs @ cs) False q = extract_query cs False (q @ string_of_bytes bs)"
  by (induction bs arbitrary: q) (simp_all add: plain_def)

text \<open>The body of a query message: the length, the text, and what follows it.\<close>

definition query_body :: "string \<Rightarrow> byte list \<Rightarrow> byte list" where
  "query_body text trailer = be32 (int (length text)) @ bytes_of_string text @ trailer"

lemma sint_length_byte:
  assumes "n < 256"
  shows "sint (word_of_int (int n) :: byte) = (if n < 128 then int n else int n - 256)"
proof -
  have "(int n + 128) mod 256 = int n - 128" if "\<not> n < 128"
  proof -
    have "(int n + 128) mod 256 = (int n - 128 + 256) mod 256" by (simp add: add.commute)
    also have "\<dots> = int n - 128" using that assms by (simp only: mod_add_self2) (simp add: mod_pos_pos_trivial)
    finally show ?thesis .
  qed
  moreover have "(int n + 128) mod 256 = int n + 128" if "n < 128" using that by simp
  moreover have "sint (word_of_int (int n) :: byte) = (int n + 128) mod 256 - 128" by (simp only: int_word_sint) simp
  ultimately show ?thesis by simp
qed

lemma extract_short:
  assumes "0 < length t" "length t < 128" "list_all plain (bytes_of_string t)"
  shows "extract_query (query_body t trailer) False [] = t @ extract_query trailer False []"
proof -
  have "extract_query (query_body t trailer) False [] = extract_query (bytes_of_string t @ trailer) False []"
    using assms(1,2) sint_length_byte [of "length t"] by (simp add: query_body_def be32_def)
  then show ?thesis
    using extract_query_plain [OF assms(3), of trailer "[]"] extract_query_acc [of trailer False t] by simp
qed

lemma extract_long:
  assumes "128 \<le> length t" "length t < 256" "list_all plain (bytes_of_string t)"
  shows "extract_query (query_body t trailer) False [] = tl t @ extract_query trailer False []"
proof -
  obtain c s where t: "t = c # s" using assms(1) by (cases t) auto
  have "extract_query (query_body t trailer) False [] = extract_query (bytes_of_string s @ trailer) False []"
    using assms sint_length_byte [of "length t"] by (simp add: query_body_def be32_def t plain_def)
  then show ?thesis
    using extract_query_plain [of "bytes_of_string s" trailer "[]"] assms(3) extract_query_acc [of trailer False s] t by simp
qed

lemma byte_of_char_of_byte [simp]: "byte_of_char (char_of_byte b) = b"
proof -
  have "unat b < 256" using unsigned_less [of b] by simp
  moreover have "byte_of_char (char_of_byte b) = of_nat (of_char (char_of_byte b) :: nat)" by (simp only: of_nat_of_char)
  ultimately show ?thesis by simp
qed

lemma extract_query_chars: "c \<in> set (extract_query bs e []) \<Longrightarrow> byte_of_char c \<in> set bs \<and> plain (byte_of_char c)"
proof (induction bs arbitrary: e)
  case (Cons b bs)
  then show ?case
    using extract_query_acc [of bs False "[char_of_byte b]"] by (auto simp: plain_def split: if_splits)
qed simp

lemma plain_not_zero: "plain (byte_of_char c) \<Longrightarrow> c \<noteq> CHR 0x00"
  by (auto simp: plain_def)

lemma strstr_char:
  assumes "CHR 0x00 \<notin> set s"
  shows "strstr s [c] \<longleftrightarrow> c \<in> set s"
proof -
  have tw: "takeWhile (\<lambda>x. x \<noteq> CHR 0x00) s = s" using assms by (intro takeWhile_eq_all_conv [THEN iffD2]) auto
  show ?thesis unfolding strstr_def tw by (simp add: find_string_char)
qed

lemma find_char_at: "c \<notin> set t \<Longrightarrow> find_string [c] (t @ c # s) = Some (length t)"
  by (induction t) auto

lemma cut_first:
  assumes "t = u @ '';''" "CHR '';'' \<notin> set u" "CHR '';'' \<notin> set s" "CHR 0x00 \<notin> set (t @ s)"
  shows "cut_query (t @ s) = (False, t)"
proof -
  have "strstr (t @ s) '';''" using strstr_char [OF assms(4)] assms(1) by simp
  moreover have "last (t @ s) = (if s = [] then CHR '';'' else last s)" using assms(1) by simp
  moreover have "s \<noteq> [] \<Longrightarrow> last s \<noteq> CHR '';''" using assms(3) last_in_set by metis
  moreover have "find_string '';'' (t @ s) = Some (length u)" using find_char_at [OF assms(2), of s] assms(1) by simp
  ultimately show ?thesis using assms(1) by (auto simp: cut_query_def)
qed

lemma plain_text: "list_all plain (bytes_of_string t) \<Longrightarrow> CHR 0x00 \<notin> set t"
  using plain_not_zero by (auto simp: list_all_iff)

section \<open>Properties of requests\<close>

lemma query_text_cut:
  assumes "t = u @ '';''" "CHR '';'' \<notin> set u" "length t < 128" "list_all plain (bytes_of_string t)" "59 \<notin> set trailer"
  shows "cut_query (extract_query (query_body t trailer) False '''') = (False, t)"
proof -
  let ?s = "extract_query trailer False []"
  have "CHR '';'' \<notin> set ?s" using extract_query_chars [of "CHR '';''" trailer False] assms(5) by auto
  moreover have "CHR 0x00 \<notin> set (t @ ?s)"
    using extract_query_chars [of "CHR 0x00" trailer False] plain_text [OF assms(4)] plain_not_zero [of "CHR 0x00"] by auto
  ultimately show ?thesis
    using cut_first [OF assms(1,2)] extract_short [OF _ assms(3,4), of trailer] assms(1) by simp
qed

text \<open>
  Property C31. The text of a query comes out of its frame: a statement of fewer than 128 characters, all of them
  ASCII, that ends with its only semicolon is what is executed, whatever follows it in the body of the
  message, unless a semicolon follows.
\<close>

theorem query_text_extracted:
  assumes "t = u @ '';''" "CHR '';'' \<notin> set u" "length t < 128" "list_all plain (bytes_of_string t)" "59 \<notin> set trailer"
  shows "cut_query (extract_query (query_body t trailer) False '''') = (False, t)"
  using query_text_cut [OF assms] .

theorem query_text_extracted_witness:
  "cut_query (extract_query (query_body ''SELECT * FROM ks.t WHERE id = 7;'' [0, 1, 0]) False '''') =
     (False, ''SELECT * FROM ks.t WHERE id = 7;'')"
proof -
  have "list_all plain (bytes_of_string ''SELECT * FROM ks.t WHERE id = 7;'')" by (simp add: plain_def)
  then show ?thesis
    using query_text_extracted [of "''SELECT * FROM ks.t WHERE id = 7;''" "''SELECT * FROM ks.t WHERE id = 7''" "[0, 1, 0]"] by simp
qed

definition long_text_ok :: "string \<Rightarrow> string \<Rightarrow> bool" where
  "long_text_ok k u \<longleftrightarrow> CHR '';'' \<notin> set (k @ u) \<and> 128 \<le> length (k @ u @ '';'') \<and> length (k @ u @ '';'') < 256 \<and>
     list_all plain (bytes_of_string (k @ u))"

lemma unslice_keywords:
  "unslice (''ELECT'' @ v) = Inr (''DELECT'' @ v)" "unslice (''ELETE'' @ v) = Inr (''ELETE'' @ v)"
  "unslice (''NSERT'' @ v) = Inr (''INSERT'' @ v)" "unslice (''REATE'' @ v) = Inr (''CREATE'' @ v)"
proof -
  have "tolower (CHR ''E'') = CHR ''e''" "tolower (CHR ''T'') = CHR ''t''" "tolower (CHR ''N'') = CHR ''n''" "tolower (CHR ''R'') = CHR ''r''"
    by code_simp+
  then show "unslice (''ELECT'' @ v) = Inr (''DELECT'' @ v)" "unslice (''ELETE'' @ v) = Inr (''ELETE'' @ v)"
      "unslice (''NSERT'' @ v) = Inr (''INSERT'' @ v)" "unslice (''REATE'' @ v) = Inr (''CREATE'' @ v)"
    by (simp_all add: unslice_def str_at_def)
qed

lemma long_text_cut:
  assumes "long_text_ok (c # k) u" "59 \<notin> set trailer"
  shows "cut_query (extract_query (query_body ((c # k) @ u @ '';'') trailer) False []) = (False, k @ u @ '';'')"
proof -
  let ?t = "(c # k) @ u @ '';''" and ?s = "extract_query trailer False []"
  have p: "list_all plain (bytes_of_string ?t)" using assms(1) by (auto simp: long_text_ok_def plain_def)
  have "CHR '';'' \<notin> set ?s" using extract_query_chars [of "CHR '';''" trailer False] assms(2) by auto
  moreover have "CHR 0x00 \<notin> set ((k @ u @ '';'') @ ?s)"
    using extract_query_chars [of "CHR 0x00" trailer False] plain_text [OF p] plain_not_zero [of "CHR 0x00"] by auto
  moreover have "extract_query (query_body ?t trailer) False [] = (k @ u @ '';'') @ ?s"
    using extract_long [OF _ _ p, of trailer] assms(1) by (simp add: long_text_ok_def)
  moreover have "CHR '';'' \<notin> set (k @ u)" using assms(1) by (simp add: long_text_ok_def)
  ultimately show ?thesis using cut_first [of "k @ u @ '';''" "k @ u" ?s] by simp
qed

text \<open>
  Property C37. From 128 to 255 characters the length byte is negative and the first character of the text is lost;
  what is put back by looking at the fifth character of the rest turns a \<^verbatim>\<open>SELECT\<close> into
  \<^verbatim>\<open>DELECT\<close> and leaves a \<^verbatim>\<open>DELETE\<close> as \<^verbatim>\<open>ELETE\<close>, while \<^verbatim>\<open>INSERT\<close>
  and \<^verbatim>\<open>CREATE\<close> are restored.
\<close>

theorem long_query_first_letter:
  assumes "long_text_ok k u" "59 \<notin> set trailer" "k \<in> {''SELECT'', ''DELETE'', ''INSERT'', ''CREATE''}"
  shows "unslice (snd (cut_query (extract_query (query_body (k @ u @ '';'') trailer) False ''''))) =
    Inr ((if k = ''SELECT'' then ''DELECT'' else if k = ''DELETE'' then ''ELETE'' else k) @ u @ '';'')"
proof -
  have cut: "snd (cut_query (extract_query (query_body ((c # k') @ u @ '';'') trailer) False [])) = k' @ u @ '';''"
    if "k = c # k'" for c k'
    using long_text_cut [of c k' u trailer] assms(1,2) that by simp
  from assms(3) consider "k = ''SELECT''" | "k = ''DELETE''" | "k = ''INSERT''" | "k = ''CREATE''" by blast
  then show ?thesis
  proof cases
    case 1
    then show ?thesis using cut [OF 1] unslice_keywords(1) [of "u @ '';''"] by simp
  next
    case 2
    then show ?thesis using cut [OF 2] unslice_keywords(2) [of "u @ '';''"] by simp
  next
    case 3
    then show ?thesis using cut [OF 3] unslice_keywords(3) [of "u @ '';''"] by simp
  next
    case 4
    then show ?thesis using cut [OF 4] unslice_keywords(4) [of "u @ '';''"] by simp
  qed
qed

theorem long_query_first_letter_witness:
  "unslice (snd (cut_query (extract_query (query_body (''SELECT'' @ replicate 130 (CHR '' '') @ '';'') [0, 1]) False ''''))) =
    Inr (''DELECT'' @ replicate 130 (CHR '' '') @ '';'')"
proof -
  have "long_text_ok ''SELECT'' (replicate 130 (CHR '' ''))" by (simp add: long_text_ok_def plain_def list_all_iff)
  then show ?thesis using long_query_first_letter [of "''SELECT''" "replicate 130 (CHR '' '')" "[0, 1]"] by simp
qed

section \<open>Answers without a query\<close>

lemma emits_emit_bytes: "emits bs (emit_bytes bs)"
  using emits_set_bytes [of bs] by (simp add: emit_bytes_def [abs_def])

definition short_enc :: "string \<Rightarrow> byte list" where
  "short_enc s = [0, of_nat (length s)] @ bytes_of_string s"

lemma emits_supported_text: "emits (short_enc s) (supported_text s)"
  unfolding short_enc_def supported_text_def by (intro emits_bind emits_emit_bytes emits_put_chars)

lemma emits_supported_texts: "emits (concat (map short_enc ss)) (supported_texts ss)"
proof (induction ss)
  case Nil
  show ?case by (simp add: emits_def)
next
  case (Cons s ss)
  have "supported_texts (s # ss) = (\<lambda>i a. bindR (supported_text s i a) (\<lambda>(i, a). supported_texts ss i a))"
    by (intro ext) simp
  then show ?case using emits_bind [OF emits_supported_text Cons.IH, of s] by simp
qed

definition option_enc :: "string \<times> string list \<Rightarrow> byte list" where
  "option_enc opt = short_enc (fst opt) @ (if snd opt = [] then [] else [0, of_nat (length (snd opt))]) @
     concat (map short_enc (snd opt))"

lemma emits_supported_option: "emits (option_enc opt) (supported_option opt)"
proof -
  have "emits (if snd opt = [] then [] else [0, of_nat (length (snd opt))])
      (\<lambda>i a. if snd opt = [] then Inr (i, a) else emit_bytes [0, of_nat (length (snd opt))] i a)"
    using emits_emit_bytes emits_Nil by simp
  then show ?thesis
    unfolding option_enc_def supported_option_def by (intro emits_bind emits_supported_text emits_supported_texts)
qed

lemma emits_supported_options: "emits (concat (map option_enc opts)) (supported_options opts)"
proof (induction opts)
  case Nil
  show ?case by (simp add: emits_def)
next
  case (Cons opt opts)
  have "supported_options (opt # opts) = (\<lambda>i a. bindR (supported_option opt i a) (\<lambda>(i, a). supported_options opts i a))"
    by (intro ext) simp
  then show ?case using emits_bind [OF emits_supported_option Cons.IH, of opt] by simp
qed

definition options_image :: "(string \<times> string list) list \<Rightarrow> byte list" where
  "options_image opts = [0, of_nat (length opts)] @ concat (map option_enc opts)"

lemma SupportedMessage_eq:
  assumes "opts \<noteq> []" "9 + length (options_image opts) \<le> length a" "length a < 2 ^ 31"
  shows "SupportedMessage opts a = Inr (9 + int (length (options_image opts)),
    (blit a 9 (options_image opts))[8 := of_nat (length (options_image opts))])"
proof -
  let ?img = "options_image opts"
  have "bindR (emit_bytes [0, of_nat (length opts)] 9 a) (\<lambda>(i, a). supported_options opts i a) = Inr (9 + int (length ?img), blit a 9 ?img)"
    using emitsD [OF emits_bind [OF emits_emit_bytes emits_supported_options [of opts]], of 9 "[0, of_nat (length opts)]" a] assms
    by (simp add: options_image_def)
  then obtain x where "emit_bytes [0, of_nat (length opts)] 9 a = Inr x"
      "(case x of (i, a) \<Rightarrow> supported_options opts i a) = Inr (9 + int (length ?img), blit a 9 ?img)"
    by (auto simp: bindR_eq_Inr)
  moreover have "arr_set 8 (word_of_int (int (length ?img))) (blit a 9 ?img) = Inr ((blit a 9 ?img)[8 := of_nat (length ?img)])"
    using assms(2) by (simp add: arr_set_def)
  ultimately show ?thesis using assms(1) by (cases x) (simp add: SupportedMessage_def)
qed

lemma supported_message_options_eq: "supported_message_options =
    Inr [(''COMPRESSION'', [''snappy'', ''lz4'']), (''CQL_VERSION'', [''3.4.5'']), (''PROTOCOL_VERSIONS'', [''3/V3''])]"
  by code_simp

text \<open>The first bytes of every answer: the version with its direction bit, the flags and the stream of the request, the opcode.\<close>

definition answer_prefix :: "frame \<Rightarrow> byte \<Rightarrow> byte list" where
  "answer_prefix f opcode = [fm_version f + 0x80, fm_flags f, fst (fm_streamID f), snd (fm_streamID f), opcode]"

lemma set_after:
  assumes "length p + length bs \<le> length a" "i = int (length p)"
  shows "set_bytes i bs (blit a 0 p) = Inr (blit a 0 (p @ bs))"
  using assms by (simp add: set_bytes_eq blit_at)

lemma take_blit: "length bs \<le> length a \<Longrightarrow> n = length bs \<Longrightarrow> take n (blit a 0 bs) = bs"
  by (simp add: blit_def)

lemma length_byte_set:
  assumes "9 + length img \<le> length a" "length p = 8"
  shows "(blit (blit a 0 p) 9 img)[8 := x] = blit a 0 (p @ [x] @ img)"
  using assms by (intro nth_equalityI) (auto simp: nth_blit nth_list_update nth_append nth_Cons')

text \<open>
  Property C38. The messages that open a session are answered without a query: an \<^verbatim>\<open>OPTIONS\<close> message with
  the three options and their values in the order of the map, each counted and with its length in front of it,
  and a \<^verbatim>\<open>STARTUP\<close> or \<^verbatim>\<open>REGISTER\<close> message with an empty \<^verbatim>\<open>READY\<close>; stream,
  flags and version are those of the request, and neither a database nor the metrics change.
\<close>

theorem handshake_answered:
  assumes "128 \<le> length (rs_header r)" "length (rs_header r) < 2 ^ 31" "fm_opcode f \<in> {1, 5, 0x0B}"
    and "opts = [(''COMPRESSION'', [''snappy'', ''lz4'']), (''CQL_VERSION'', [''3.4.5'']), (''PROTOCOL_VERSIONS'', [''3/V3''])]"
  shows "\<exists>r'. CreateResponse ex tables junk_metadata junk_body micros f r = Some (Inr (rs_msg_length r'), r') \<and>
    r' = r\<lparr>rs_header := rs_header r', rs_msg_length := rs_msg_length r'\<rparr> \<and>
    take (nat (rs_msg_length r')) (rs_header r') =
      (if fm_opcode f = 5 then answer_prefix f 6 @ [0, 0, 0, of_nat (length (options_image opts))] @ options_image opts
       else answer_prefix f 2 @ [0, 0, 0, 0])"
proof -
  let ?h = "rs_header r" and ?img = "options_image opts"
  let ?p = "[fm_version f + 0x80, fm_flags f, fst (fm_streamID f), snd (fm_streamID f)]"
  have len: "length ?img = 79" using assms(4) by (simp add: options_image_def option_enc_def short_enc_def)
  have ne: "opts \<noteq> []" "supported_message_options = Inr opts" using assms(4) supported_message_options_eq by simp_all
  have 1: "set_bytes 0 ?p ?h = Inr (blit ?h 0 ?p)" using assms(1) by (simp add: set_bytes_eq)
  show ?thesis
  proof (cases "fm_opcode f = 5")
    case True
    have 2: "set_bytes 4 [6, 0, 0, 0] (blit ?h 0 ?p) = Inr (blit ?h 0 (?p @ [6, 0, 0, 0]))"
      using assms(1) by (intro set_after) simp_all
    have 3: "SupportedMessage opts (blit ?h 0 (?p @ [6, 0, 0, 0])) =
        Inr (9 + int (length ?img), blit ?h 0 ((?p @ [6, 0, 0, 0]) @ [of_nat (length ?img)] @ ?img))"
      using SupportedMessage_eq [OF ne(1), of "blit ?h 0 (?p @ [6, 0, 0, 0])"] assms(1,2) len
        length_byte_set [of ?img ?h "?p @ [6, 0, 0, 0]" "of_nat (length ?img)"]
      by simp
    show ?thesis
      using True assms(1) len 1 2 3
      by (simp add: CreateResponse_def on_arrays_def bindP_def take_blit answer_prefix_def ne(2))
  next
    case False
    have "set_bytes 4 [2, 0, 0, 0, 0] (blit ?h 0 ?p) = Inr (blit ?h 0 (?p @ [2, 0, 0, 0, 0]))"
      using assms(1) by (intro set_after) simp_all
    then show ?thesis
      using False assms(1,3) 1
      by (auto simp: CreateResponse_def on_arrays_def bindP_def take_blit answer_prefix_def)
  qed
qed

theorem handshake_answered_witness:
  "\<exists>r'. CreateResponse example_externals zero_tables [] [] (\<lambda>_. 0)
      \<lparr>fm_version = 3, fm_flags = 0, fm_opcode = 1, fm_streamID = (0, 7), fm_max_size = 9, fm_body = None, fm_buffer = [], fm_length = []\<rparr>
      \<lparr>cq_process = example_node ''n1'' (), cq_db = example_db, cq_met = replicate 8 0,
       rs_header = replicate 200 1, rs_body = [], rs_msg_length = 9\<rparr> = Some (Inr (rs_msg_length r'), r') \<and>
    take (nat (rs_msg_length r')) (rs_header r') = [0x83, 0, 0, 7, 2, 0, 0, 0, 0]"
  using handshake_answered [of "\<lparr>cq_process = example_node ''n1'' (), cq_db = example_db, cq_met = replicate 8 0,
        rs_header = replicate 200 1, rs_body = [], rs_msg_length = 9\<rparr>"
      "\<lparr>fm_version = 3, fm_flags = 0, fm_opcode = 1, fm_streamID = (0, 7), fm_max_size = 9, fm_body = None, fm_buffer = [], fm_length = []\<rparr>"
      "[(''COMPRESSION'', [''snappy'', ''lz4'']), (''CQL_VERSION'', [''3.4.5'']), (''PROTOCOL_VERSIONS'', [''3/V3''])]"
      example_externals zero_tables "[]" "[]" "\<lambda>_. 0"]
  by (fastforce simp: answer_prefix_def)

section \<open>The answer to a query\<close>

lemma copy_bytes_eq:
  assumes "0 \<le> start" "start + int (length bs) \<le> int (length hdr)" "length bs \<le> length body" "n = int (length bs)"
  shows "copy_bytes (blit body 0 bs) start n hdr = Inr (blit hdr (nat start) bs)"
proof -
  have "for_range (length bs) start (\<lambda>i hdr. bindR (arr_get (i - start) (blit body 0 bs)) (\<lambda>b. arr_set i b hdr)) hdr =
      Inr (blit hdr (nat start) bs)"
    using assms by (intro for_range_emits) (auto simp: arr_get_def nth_blit)
  then show ?thesis using assms(4) by (simp add: copy_bytes_def)
qed

lemma select_response_eq:
  assumes "9 + length img \<le> length hdr" "length p = 5" "length img \<le> length body"
  shows "select_response (blit hdr 0 p) (int (length img), blit body 0 img) =
    Inr (int (length img) + 9, blit hdr 0 (p @ [0, 0, 0, of_nat (length img)] @ img), blit body 0 img)"
proof -
  have "set_bytes 5 [0, 0, 0, word_of_int (int (length img))] (blit hdr 0 p) = Inr (blit hdr 0 (p @ [0, 0, 0, of_nat (length img)]))"
    using assms(1,2) by (subst set_after) simp_all
  moreover have "copy_bytes (blit body 0 img) 9 (int (length img)) (blit hdr 0 (p @ [0, 0, 0, of_nat (length img)])) =
      Inr (blit (blit hdr 0 (p @ [0, 0, 0, of_nat (length img)])) (nat 9) img)"
    using assms by (intro copy_bytes_eq) simp_all
  ultimately show ?thesis using assms(1,2) by (simp add: select_response_def blit_at)
qed

text \<open>A query frame whose text is found and does not look sliced.\<close>

definition query_text :: "string \<Rightarrow> bool" where
  "query_text t \<longleftrightarrow> t \<noteq> [] \<and> last t = CHR '';'' \<and> CHR '';'' \<notin> set (butlast t) \<and> length t < 128 \<and>
     list_all plain (bytes_of_string t) \<and> tolower (hd t) \<notin> {CHR ''n'', CHR ''r'', CHR ''e''}"

definition query_request :: "frame \<Rightarrow> string \<Rightarrow> byte list \<Rightarrow> bool" where
  "query_request f t trailer \<longleftrightarrow> fm_opcode f = 7 \<and> frame_bytes f = Inr (query_body t trailer) \<and> query_text t \<and> 59 \<notin> set trailer"

lemma query_request_text:
  assumes "query_request f t trailer"
  shows "respond_query_frame ex tables junk_metadata junk_body micros f = respond_query ex (fm_version f + 0x80) micros t"
proof -
  have "t = butlast t @ '';''" using append_butlast_last_id [of t] assms unfolding query_request_def query_text_def by metis
  from query_text_cut [OF this] have "cut_query (extract_query (query_body t trailer) False '''') = (False, t)"
    using assms by (simp add: query_request_def query_text_def)
  moreover have "unslice t = Inr t" using assms by (cases t) (auto simp: query_request_def query_text_def unslice_def str_at_def)
  ultimately show ?thesis using assms by (simp add: respond_query_frame_def query_request_def query_text_def)
qed

text \<open>The conditions under which the body of an answer is the image of the result.\<close>

definition wire_result :: "string \<Rightarrow> string \<Rightarrow> schema \<Rightarrow> data list \<Rightarrow> bool" where
  "wire_result keyspace table sch ds \<longleftrightarrow> text_ok keyspace \<and> text_ok table \<and> countable (int (length (sc_fields sch))) \<and>
     list_all wire_field (sc_fields sch) \<and> list_all wire_value ds \<and> ds \<noteq> []"

lemma respond_select_eq:
  assumes "read_schema (fr_table (sl_from_spec s)) (cq_db r) = Inr sch"
    and "ResultSerializer_serialize (Some (map Some ds)) = Inr str"
    and "wire_result (fr_keyspace (sl_from_spec s)) (fr_table (sl_from_spec s)) sch ds"
    and "img = result_image (fr_keyspace (sl_from_spec s)) (fr_table (sl_from_spec s)) sch ds"
    and "length img \<le> length (rs_body r)" "length (rs_body r) < 2 ^ 31"
    and "rs_header r = blit hdr 0 p" "length p = 5" "9 + length img \<le> length hdr"
    and "4 < length (cq_met r)" "- (2 ^ 31) \<le> cq_met r ! 2" "cq_met r ! 2 + 1 < 2 ^ 31"
  shows "respond_statement version micros str (Select s) r =
    Some (Inr (), r\<lparr>cq_met := (cq_met r)[4 := narrow micros, 2 := cq_met r ! 2 + 1],
      rs_header := blit hdr 0 (p @ [0, 0, 0, of_nat (length img)] @ img), rs_body := blit (rs_body r) 0 img,
      rs_msg_length := int (length img) + 9\<rparr>)"
proof -
  let ?res = "(int (length img), blit (rs_body r) 0 img)"
  have "select_result (fr_keyspace (sl_from_spec s)) (fr_table (sl_from_spec s)) sch [] str (rs_body r) = Some (Inr ?res)"
    using select_result_eq [of "fr_keyspace (sl_from_spec s)" "fr_table (sl_from_spec s)" sch ds "rs_body r"] assms(2-6)
    by (auto simp: wire_result_def)
  moreover have "c_int (cq_met r ! 2 + 1) = Inr (cq_met r ! 2 + 1)" using assms(11,12) by (simp add: c_int_def)
  ultimately show ?thesis
    using assms(1,7,10) select_response_eq [OF assms(9,8,5)]
    by (simp add: bindP_def set_met_def inc_met_def on_arrays_def liftP_def)
qed

text \<open>
  A \<^verbatim>\<open>SELECT\<close> is answered: when the text of a query frame parses as one \<^verbatim>\<open>SELECT\<close> and
  the cluster gives its record, the response is a result message for the stream of the request whose body is
  the columns of the schema of the server's database and the values of the record, and whose length is
  right up to 255 bytes; the selection is counted and its time kept, and the database is not touched.
\<close>

theorem select_answered:
  assumes "query_request f t trailer" "visitRoot (ex_visitor ex) (ex_parse ex t) = Inr [Select s]"
    and "QueryProcessor_process ex t (cq_process r) = Some (Inr str, p')"
    and "ResultSerializer_serialize (Some (map Some ds)) = Inr str"
    and "read_schema (fr_table (sl_from_spec s)) (cq_db r) = Inr sch"
    and "wire_result (fr_keyspace (sl_from_spec s)) (fr_table (sl_from_spec s)) sch ds"
    and "img = result_image (fr_keyspace (sl_from_spec s)) (fr_table (sl_from_spec s)) sch ds"
    and "length img \<le> length (rs_body r)" "length (rs_body r) < 2 ^ 31" "9 + length img \<le> length (rs_header r)"
    and "length (cq_met r) = 8" "- (2 ^ 31) \<le> cq_met r ! 2" "cq_met r ! 2 + 1 < 2 ^ 31"
  shows "\<exists>r'. CreateResponse ex tables junk_metadata junk_body micros f r = Some (Inr (9 + int (length img)), r') \<and>
    cq_process r' = p' \<and> cq_db r' = cq_db r \<and> cq_met r' = (cq_met r)[4 := narrow (micros 0), 2 := cq_met r ! 2 + 1] \<and>
    take (9 + length img) (rs_header r') = answer_prefix f 8 @ [0, 0, 0, of_nat (length img)] @ img \<and>
    length (rs_header r') = length (rs_header r)"
proof -
  let ?h = "rs_header r"
  let ?p = "[fm_version f + 0x80, fm_flags f, fst (fm_streamID f), snd (fm_streamID f)]"
  define r1 where "r1 = r\<lparr>rs_header := blit ?h 0 (?p @ [8]), rs_msg_length := 9, cq_process := p'\<rparr>"
  define hdr where "hdr = blit ?h 0 ((?p @ [8]) @ [0, 0, 0, of_nat (length img)] @ img)"
  have 1: "set_bytes 0 ?p ?h = Inr (blit ?h 0 ?p)" "set_bytes 4 [8] (blit ?h 0 ?p) = Inr (blit ?h 0 (?p @ [8]))"
    using assms(10) by (simp_all add: set_bytes_eq blit_at)
  have "respond_statement (fm_version f + 0x80) (micros 0) str (Select s) r1 =
      Some (Inr (), r1\<lparr>cq_met := (cq_met r)[4 := narrow (micros 0), 2 := cq_met r ! 2 + 1], rs_header := hdr,
        rs_body := blit (rs_body r) 0 img, rs_msg_length := int (length img) + 9\<rparr>)"
    using respond_select_eq [of s r1 sch ds str img ?h "?p @ [8]" "fm_version f + 0x80" "micros 0"] assms(4-13)
    by (simp add: r1_def hdr_def)
  then have "respond_query ex (fm_version f + 0x80) micros t (r\<lparr>rs_header := blit ?h 0 (?p @ [8]), rs_msg_length := 9\<rparr>) =
      Some (Inr (), r1\<lparr>cq_met := (cq_met r)[4 := narrow (micros 0), 2 := cq_met r ! 2 + 1], rs_header := hdr,
        rs_body := blit (rs_body r) 0 img, rs_msg_length := int (length img) + 9\<rparr>)"
    using assms(2,3) by (simp add: respond_query_def count_exception_def bindP_def liftP_def on_process_def r1_def)
  then show ?thesis
    using assms(1,10) 1 query_request_text [OF assms(1), of ex tables junk_metadata junk_body micros]
    by (simp add: CreateResponse_def bindP_def on_arrays_def query_request_def r1_def hdr_def take_blit answer_prefix_def)
qed

text \<open>A node whose neighbour answers every call with the record of the example.\<close>

definition answering_externals :: "(unit, unit) externals" where
  "answering_externals = example_externals\<lparr>ex_rpc := \<lambda>a q w. (Some ''42,5,4|ada,0,3|'', w)\<rparr>"

lemma answering_select:
  "visitRoot (ex_visitor answering_externals) (ex_parse answering_externals ''SELECT * FROM t WHERE id = 42;'') =
     Inr [Select example_visited_select]" (is "?visited")
  "QueryProcessor_process answering_externals ''SELECT * FROM t WHERE id = 42;'' (example_node ''n1'' ()) =
     Some (Inr ''42,5,4|ada,0,3|'', example_node ''n1'' ())"
proof -
  have "visitCqls bv [a, b, c] = Inr [x, y, z] \<Longrightarrow> visitCqls bv [c] = Inr [z]" for bv :: "statement_type \<Rightarrow> unit \<Rightarrow> error option"
      and a b c x y z
    by (auto simp: bindR_eq_Inr split: option.splits)
  then show v: ?visited
    using example_tree_visited [of "\<lambda>_ _. None"]
    by (fastforce simp: answering_externals_def example_externals_def visitRoot_def example_tree_def)
  have s: "statement_ok (Select example_visited_select)" "re_operand (hd (sl_where_spec example_visited_select)) = Some (IntData 42)"
    by (simp_all add: example_visited_select_def example_select_def SelectStatement_new_def value_ok_def)
  have str: "Data_print (IntData 42) = Inr ''42''" by code_simp
  let ?p = "example_node ''n1'' ()"
  have "Partitioner_get_address (Partitioner_new ?p) ''42'' = Inr (Some ''n2'')"
    using get_address_print [of "Partitioner_new ?p" 42] str
    by (simp add: token_of_def Partitioner_new_def example_node_def example_config_def Config_new_def
        StateStore_get_address_def Range_contains_def bit_0)
  moreover obtain st where "get_streamer ''n2'' (pc_store ?p) = Inr (''n2'', st)"
    using get_streamer_ok [OF example_store_ok, of "''n2''" "''n1''" "()"] by (auto simp: make_streamer_def)
  moreover have "cf_local_address (pc_config ?p) = ''n1''" by (simp add: example_node_def example_config_def Config_new_def)
  ultimately have "SinglenodeQueryExecutor_execute answering_externals q (Select example_visited_select) ?p =
      Some (Inr ''42,5,4|ada,0,3|'', ?p)" for q
    using select_key [OF s str]
    by (simp add: SinglenodeQueryExecutor_execute_def Let_def is_local_def Partitioner_new_def
        Partitioner_send_def StreamerClient_execute_def answering_externals_def)
  then show "QueryProcessor_process answering_externals ''SELECT * FROM t WHERE id = 42;'' ?p = Some (Inr ''42,5,4|ada,0,3|'', ?p)"
    using v by (simp add: QueryProcessor_process_def StatementParser_process_def vec_at_def)
qed

definition example_query_frame :: frame where
  "example_query_frame = \<lparr>fm_version = 3, fm_flags = 0, fm_opcode = 7, fm_streamID = (0, 7), fm_max_size = 46,
     fm_body = Some (query_body ''SELECT * FROM t WHERE id = 42;'' [0, 1, 0]), fm_buffer = [], fm_length = []\<rparr>"

definition example_responding :: "unit responding" where
  "example_responding = \<lparr>cq_process = example_node ''n1'' (), cq_db = example_db, cq_met = replicate 8 0,
     rs_header = replicate 200 1, rs_body = replicate 100 1, rs_msg_length = 9\<rparr>"

lemma example_query_request: "query_request example_query_frame ''SELECT * FROM t WHERE id = 42;'' [0, 1, 0]"
proof -
  have "tolower (CHR ''S'') = CHR ''s''" by code_simp
  then show ?thesis
    by (simp add: query_request_def query_text_def example_query_frame_def frame_bytes_def query_body_def be32_def plain_def)
qed

theorem select_answered_witness:
  "\<exists>r'. CreateResponse answering_externals zero_tables [] [] (\<lambda>_. 12) example_query_frame example_responding = Some (Inr 59, r') \<and>
    cq_met r' = [0, 0, 1, 0, 12, 0, 0, 0] \<and>
    take 59 (rs_header r') = [0x83, 0, 0, 7, 8, 0, 0, 0, 50] @ result_image '''' ''t'' example_schema [IntData 42, ASCIIData ''ada'']"
proof -
  let ?t = "''SELECT * FROM t WHERE id = 42;''" and ?img = "result_image '''' ''t'' example_schema [IntData 42, ASCIIData ''ada'']"
  have s: "fr_keyspace (sl_from_spec example_visited_select) = ''''" "fr_table (sl_from_spec example_visited_select) = ''t''"
    by (simp_all add: example_visited_select_def example_select_def SelectStatement_new_def)
  have len: "length ?img = 50"
    by (simp add: result_image_def columns_image_def text_enc_def field_enc_def example_schema_def)
  have str: "ResultSerializer_serialize (Some (map Some [IntData 42, ASCIIData ''ada''])) = Inr ''42,5,4|ada,0,3|''" by code_simp
  have sch: "read_schema ''t'' example_db = Inr example_schema"
    by (simp add: read_schema_def example_db_def TableManager_new_def string_less_def)
  have wire: "wire_result '''' ''t'' example_schema [IntData 42, ASCIIData ''ada'']"
    by (simp add: wire_result_def text_ok_def countable_def wire_field_def example_schema_def)
  have r: "cq_process example_responding = example_node ''n1'' ()" "cq_db example_responding = example_db"
      "cq_met example_responding = [0, 0, 0, 0, 0, 0, 0, 0]" "length (rs_body example_responding) = 100"
      "length (rs_header example_responding) = 200"
    by (simp_all add: example_responding_def numeral_eq_Suc)
  have n: "narrow 12 = 12" by (simp add: narrow_def)
  have prefix: "answer_prefix example_query_frame 8 = [0x83, 0, 0, 7, 8]"
    by (simp add: answer_prefix_def example_query_frame_def)
  show ?thesis
    using select_answered [OF example_query_request answering_select(1), of example_responding "''42,5,4|ada,0,3|''"
        "example_node ''n1'' ()" "[IntData 42, ASCIIData ''ada'']" example_schema ?img zero_tables "[]" "[]" "\<lambda>_. 12"]
      answering_select(2) str sch wire r len s prefix n
    by auto
qed

end
