(* ===== verification/Api_Cql_Loop.thy ===== *)
theory Api_Cql_Loop
  imports Api_Cql_Server "HOL-Library.Sublist"
begin

text \<open>
  The constructor of \<^verbatim>\<open>Server\<close> in \<^verbatim>\<open>lib/api/cql3/server.cc\<close>: what it sets up, and the loop over the
  events of its connections, which publishes the metrics once per round. What the system calls return are
  arguments: a round is given by the events \<^verbatim>\<open>epoll_wait\<close> reports. The other threads of the
  process are those of \<open>Node_Process\<close>. The lemmas show how a read is divided into messages, what the
  endpoint answers, and an invariant of the loop.
\<close>

section \<open>Metrics\<close>

definition metric_text :: "string \<Rightarrow> string \<Rightarrow> string \<Rightarrow> int \<Rightarrow> string" where
  "metric_text kind typed name v =
     ''# TYPE '' @ typed @ '' '' @ kind @ ''\<newline>'' @ name @ '' '' @ to_string_int v @ ''\<newline>''"

definition metrics_text :: "int list \<Rightarrow> string" where
  "metrics_text met =
     metric_text ''counter'' ''number_of_tables_created'' ''number_of_tables_created'' (met ! 0) @
     metric_text ''counter'' ''number_of_insertions'' ''number_of_insertions'' (met ! 1) @
     metric_text ''counter'' ''number_of_selections'' ''number_of_selections'' (met ! 2) @
     metric_text ''gauge'' ''time_of_insertion'' ''time_of_insertion'' (met ! 3) @
     metric_text ''gauge'' ''time_of_selection'' ''time_of_selection'' (met ! 4) @
     metric_text ''counter'' ''number_of_deletetions'' ''number_of_deletions'' (met ! 5) @
     metric_text ''gauge'' ''time_of_deletion'' ''time_of_deletion'' (met ! 6) @
     metric_text ''counter'' ''number_of_exceptions'' ''number_of_exceptions'' (met ! 7)"

text \<open>The two callbacks, and their registration for both methods.\<close>

definition Greetings :: "string \<Rightarrow> handler" where
  "Greetings content request = SetContent content (SetHeader ''Content-Type'' ''text/plain'' (HttpResponse_new Ok))"

definition register_text :: "string \<Rightarrow> string \<Rightarrow> handlers \<Rightarrow> handlers result" where
  "register_text path content hs =
     bindR (RegisterHttpRequestHandler path M_HEAD (Greetings content) hs)
       (RegisterHttpRequestHandler path M_GET (Greetings content))"

section \<open>Starting\<close>

record 'w cql_server =
  cs_cql :: "'w cql_state"
  cs_handlers :: handlers
  cs_buffer :: "byte list"
  cs_new_buffer :: "byte list"
  cs_polled :: "int list"
  cs_sent :: "(int \<times> byte list) list"

text \<open>The process goes on, leaves through \<^verbatim>\<open>exit\<close>, or is ended by an exception nobody catches.\<close>

datatype outcome = Running | Exited string | Terminated error

text \<open>What the system calls of the set-up report: \<open>su_prom_socket\<close> and \<open>su_prom\<close> those of the endpoint.\<close>

record startup =
  su_prom_socket :: bool
  su_prom :: "bool \<times> bool \<times> bool \<times> (nat \<Rightarrow> bool)"
  su_socket :: bool
  su_bind :: bool
  su_listen :: bool
  su_epoll :: bool
  su_ctl :: bool

definition setup_failure :: "startup \<Rightarrow> string option" where
  "setup_failure su =
     (if \<not> su_socket su then Some ''Error creating socket..\<newline>''
      else if \<not> su_bind su then Some ''Error binding socket (CQL Server).. \<newline>''
      else if \<not> su_listen su then Some ''Error listening..\<newline>''
      else if \<not> su_epoll su then Some ''Error creating epoll (CQL Server).. \<newline>''
      else if \<not> su_ctl su then Some ''Error adding new listeding socket to epoll..\<newline>''
      else None)"

definition prom_start :: "u16 \<Rightarrow> startup \<Rightarrow> (handlers \<times> http_server) result" where
  "prom_start prom_port su =
     bindR (HttpServer_new prom_port (su_prom_socket su)) (\<lambda>prom_server.
     bindR (register_text ''/'' ''GOTO /metrics'' []) (\<lambda>hs.
       case su_prom su of (option_set, bound, listening, created) \<Rightarrow>
         bindR (Start option_set bound listening created prom_server) (\<lambda>sv. Inr (hs, sv))))"

definition Server_start ::
  "('c, 'w) externals \<Rightarrow> u16 \<Rightarrow> startup \<Rightarrow> byte list \<Rightarrow> int \<Rightarrow> 'w process \<Rightarrow> (outcome \<times> 'w cql_server option) option" where
  "Server_start ex prom_port su junk_new_buffer sock_listen_fd p =
     (case Database_new (ex_junk ex) ''database'' (pc_fs p) of
        None \<Rightarrow> None
      | Some (Inl e, f) \<Rightarrow> Some (Terminated e, None)
      | Some (Inr db, f) \<Rightarrow> (case prom_start prom_port su of
          Inl e \<Rightarrow> Some (Terminated e, None)
        | Inr (hs, sv) \<Rightarrow> (case setup_failure su of
            Some msg \<Rightarrow> Some (Exited msg, None)
          | None \<Rightarrow> Some (Running, Some
              \<lparr>cs_cql = \<lparr>cq_process = p\<lparr>pc_fs := f\<rparr>, cq_db = db, cq_met = [0, 0, 0, 0, 0, 0, 0, 0]\<rparr>,
               cs_handlers = hs, cs_buffer = replicate MAX_MESSAGE_LEN 0, cs_new_buffer = junk_new_buffer,
               cs_polled = [sock_listen_fd], cs_sent = []\<rparr>))))"

section \<open>Rounds\<close>

text \<open>
  An event: on the listening socket with what \<^verbatim>\<open>accept4\<close> and \<^verbatim>\<open>epoll_ctl\<close> return, or on a connection
  with what \<^verbatim>\<open>recv\<close> puts into the buffer, if anything, and the uninitialised arrays of its messages and the durations of their statements.
\<close>

datatype cql_event =
    Connection "int option" bool
  | Readable int "byte list option" "int \<Rightarrow> junk_arrays" "int \<Rightarrow> nat \<Rightarrow> int"

definition receive :: "byte list option \<Rightarrow> byte list \<Rightarrow> int \<times> byte list" where
  "receive received buffer = (case received of
     None \<Rightarrow> (0, buffer)
   | Some bs \<Rightarrow> (int (length bs), bs @ drop (length bs) buffer))"

fun server_event :: "('c, 'w) externals \<Rightarrow> meta_tables \<Rightarrow> cql_event \<Rightarrow> 'w cql_server \<Rightarrow> (outcome \<times> 'w cql_server) option" where
  "server_event ex tables (Connection None added) s = Some (Exited ''Error accepting new connection (CQL Server)..\<newline>'', s)"
| "server_event ex tables (Connection (Some fd) added) s =
     (if added then Some (Running, s\<lparr>cs_polled := cs_polled s @ [fd]\<rparr>)
      else Some (Exited ''Error adding new event to epoll (CQL Server)..\<newline>'', s))"
| "server_event ex tables (Readable fd received ju micros) s =
     (case receive received (cs_buffer s) of (bytes_received, buffer) \<Rightarrow>
        (case serve_read ex tables ju micros buffer bytes_received (cs_cql s, cs_new_buffer s, []) of
           None \<Rightarrow> None
         | Some (res, (st, new_buffer, parts)) \<Rightarrow>
             Some (case res of Inl e \<Rightarrow> Terminated e | Inr _ \<Rightarrow> Running,
               s\<lparr>cs_cql := st, cs_buffer := buffer, cs_new_buffer := new_buffer, cs_sent := cs_sent s @ map (Pair fd) parts\<rparr>)))"

text \<open>Steps are taken until one stops the process.\<close>

fun run_steps :: "('e \<Rightarrow> 's \<Rightarrow> (outcome \<times> 's) option) \<Rightarrow> 'e list \<Rightarrow> 's \<Rightarrow> (outcome \<times> 's) option" where
  "run_steps step [] s = Some (Running, s)"
| "run_steps step (e # es) s = (case step e s of
     Some (Running, s) \<Rightarrow> run_steps step es s
   | stopped \<Rightarrow> stopped)"

definition server_events :: "('c, 'w) externals \<Rightarrow> meta_tables \<Rightarrow> cql_event list \<Rightarrow> 'w cql_server \<Rightarrow> (outcome \<times> 'w cql_server) option" where
  "server_events ex tables = run_steps (server_event ex tables)"

text \<open>One round: the metrics are registered before the events are looked at.\<close>

definition server_round ::
  "('c, 'w) externals \<Rightarrow> meta_tables \<Rightarrow> cql_event list option \<Rightarrow> 'w cql_server \<Rightarrow> (outcome \<times> 'w cql_server) option" where
  "server_round ex tables waited s =
     (case register_text ''/metrics'' (metrics_text (cq_met (cs_cql s))) (cs_handlers s) of
        Inl e \<Rightarrow> Some (Terminated e, s)
      | Inr hs \<Rightarrow> (case waited of
          None \<Rightarrow> Some (Exited ''Error in epoll_wait (CQL Server)..\<newline>'', s\<lparr>cs_handlers := hs\<rparr>)
        | Some evs \<Rightarrow> server_events ex tables evs (s\<lparr>cs_handlers := hs\<rparr>)))"

definition server_rounds ::
  "('c, 'w) externals \<Rightarrow> meta_tables \<Rightarrow> cql_event list option list \<Rightarrow> 'w cql_server \<Rightarrow> (outcome \<times> 'w cql_server) option" where
  "server_rounds ex tables = run_steps (server_round ex tables)"

section \<open>Repeated steps\<close>

text \<open>A relation that every allowed step keeps is kept by every sequence of them.\<close>

locale kept_by_steps =
  fixes step :: "'e \<Rightarrow> 's \<Rightarrow> (outcome \<times> 's) option"
    and allowed :: "'e \<Rightarrow> bool"
    and kept :: "'s \<Rightarrow> 's \<Rightarrow> bool"
  assumes kept_refl: "kept s s"
    and kept_trans: "kept a b \<Longrightarrow> kept b c \<Longrightarrow> kept a c"
    and step_kept: "allowed e \<Longrightarrow> step e s = Some (res, s') \<Longrightarrow> kept s s'"
begin

lemma steps_kept: "list_all allowed es \<Longrightarrow> run_steps step es s = Some (res, s') \<Longrightarrow> kept s s'"
proof (induction es arbitrary: s)
  case Nil
  then show ?case by (simp add: kept_refl)
next
  case (Cons e es)
  obtain o1 s1 where e: "step e s = Some (o1, s1)" using Cons.prems by (cases "step e s") auto
  have k: "kept s s1" using step_kept [OF _ e] Cons.prems by simp
  show ?case using Cons.prems Cons.IH [of s1] k kept_trans [OF k] by (cases o1) (auto simp: e)
qed

end

section \<open>The endpoint\<close>

text \<open>
  How a reader of the endpoint finds a metric in a text: on the first line that begins with its name and a
  blank stands its value.
\<close>

primrec lines_of :: "string \<Rightarrow> string list" where
  "lines_of [] = [[]]"
| "lines_of (c # s) = (if c = CHR 0x0A then [] # lines_of s else (c # hd (lines_of s)) # tl (lines_of s))"

definition metric_value :: "string \<Rightarrow> string \<Rightarrow> int option" where
  "metric_value name content = (case filter (prefix (name @ '' '')) (lines_of content) of
     [] \<Rightarrow> None
   | line # lines \<Rightarrow> Some (c_integer (drop (Suc (length name)) line)))"

definition metric_names :: "string list" where
  "metric_names = [''number_of_tables_created'', ''number_of_insertions'', ''number_of_selections'', ''time_of_insertion'',
     ''time_of_selection'', ''number_of_deletions'', ''time_of_deletion'', ''number_of_exceptions'']"

definition shows_metrics :: "string \<Rightarrow> int list \<Rightarrow> bool" where
  "shows_metrics content m \<longleftrightarrow> map (\<lambda>name. metric_value name content) metric_names = map Some m"

lemma lines_of_line: "CHR 0x0A \<notin> set l \<Longrightarrow> lines_of (l @ CHR 0x0A # s) = l # lines_of s"
  by (induction l) auto

lemma lines_of_metric:
  assumes "CHR 0x0A \<notin> set typed" "CHR 0x0A \<notin> set kind" "CHR 0x0A \<notin> set name"
  shows "lines_of (metric_text kind typed name v @ s) = (''# TYPE '' @ typed @ '' '' @ kind) # (name @ '' '' @ to_string_int v) # lines_of s"
proof -
  have "\<not> is_digit (CHR 0x0A)" by code_simp
  then have n: "CHR 0x0A \<notin> set (to_string_int v)" using to_string_nat_digits by (auto simp: to_string_int_def)
  have "lines_of ((''# TYPE '' @ typed @ '' '' @ kind) @ CHR 0x0A # (name @ '' '' @ to_string_int v) @ CHR 0x0A # s) =
      (''# TYPE '' @ typed @ '' '' @ kind) # (name @ '' '' @ to_string_int v) # lines_of s"
    using assms n by (subst lines_of_line, simp, subst lines_of_line) simp_all
  then show ?thesis by (simp add: metric_text_def)
qed

lemma metrics_shown:
  assumes "length m = 8"
  shows "shows_metrics (metrics_text m) m"
proof -
  obtain a b c d e f g h where m: "m = [a, b, c, d, e, f, g, h]" using assms by (auto simp: numeral_eq_Suc length_Suc_conv)
  show ?thesis
    unfolding shows_metrics_def metric_value_def metrics_text_def
    by (simp add: lines_of_metric lines_of_metric [where s = "[]", simplified] metric_names_def m numeral_eq_Suc c_integer_to_string)
qed

lemma register_text_eq:
  assumes "handlers_ok hs"
  shows "\<exists>hs'. register_text path content hs = Inr hs' \<and> handlers_ok hs' \<and>
    (\<forall>r. HandleHttpRequest hs' r =
      (if ur_path (hr_uri r) = map tolower path
       then Inr (if hr_method r = M_GET then Greetings content r else HttpResponse_new MethodNotAllowed)
       else HandleHttpRequest hs r))"
proof -
  obtain h1 where h1: "RegisterHttpRequestHandler path M_HEAD (Greetings content) hs = Inr h1" "handlers_ok h1"
      "\<And>r. ur_path (hr_uri r) \<noteq> map tolower path \<Longrightarrow> HandleHttpRequest h1 r = HandleHttpRequest hs r"
    using register_answers [OF assms, of path M_HEAD "Greetings content"] by auto
  obtain h2 where "RegisterHttpRequestHandler path M_GET (Greetings content) h1 = Inr h2" "handlers_ok h2"
      "\<And>r. HandleHttpRequest h2 r =
        (if ur_path (hr_uri r) = map tolower path
         then Inr (if hr_method r = M_GET then Greetings content r else HttpResponse_new MethodNotAllowed)
         else HandleHttpRequest h1 r)"
    using register_answers [OF h1(2), of path M_GET "Greetings content"] by auto
  then show ?thesis using h1 by (auto simp: register_text_def)
qed

lemma server_event_handlers: "server_event ex tables ev s = Some (res, s') \<Longrightarrow> cs_handlers s' = cs_handlers s"
  by (cases "(ex, tables, ev, s)" rule: server_event.cases)
    (auto simp: Let_def split: option.splits prod.splits sum.splits if_splits)

interpretation handlers_kept: kept_by_steps "server_event ex tables" "\<lambda>_. True" "\<lambda>s s'. cs_handlers s' = cs_handlers s" for ex tables
  by unfold_locales (auto dest: server_event_handlers)

lemma server_events_handlers: "server_events ex tables evs s = Some (res, s') \<Longrightarrow> cs_handlers s' = cs_handlers s"
  unfolding server_events_def by (rule handlers_kept.steps_kept) (simp_all add: list_all_iff)

text \<open>
  Property C39. After a round the endpoint answers \<^verbatim>\<open>GET /metrics\<close>, whatever the case of the path, with the
  metrics as they were when the round began and the type \<^verbatim>\<open>text/plain\<close>, and every other method with 405,
  although a handler for \<^verbatim>\<open>HEAD\<close> was registered as well; every other path is answered as before. In the
  text each of the eight metrics is found under its name with its value.
\<close>

theorem metrics_scraped:
  assumes "handlers_ok (cs_handlers s)" "length (cq_met (cs_cql s)) = 8" "server_round ex tables waited s = Some (res, s')"
  shows "handlers_ok (cs_handlers s') \<and> shows_metrics (metrics_text (cq_met (cs_cql s))) (cq_met (cs_cql s)) \<and>
    HandleHttpRequest (cs_handlers s') request =
    (if ur_path (hr_uri request) = ''/metrics''
     then Inr (if hr_method request = M_GET then Greetings (metrics_text (cq_met (cs_cql s))) request
               else HttpResponse_new MethodNotAllowed)
     else HandleHttpRequest (cs_handlers s) request)"
proof -
  have p: "map tolower ''/metrics'' = ''/metrics''" by code_simp
  obtain hs where hs: "register_text ''/metrics'' (metrics_text (cq_met (cs_cql s))) (cs_handlers s) = Inr hs" "handlers_ok hs"
      "\<And>r. HandleHttpRequest hs r =
      (if ur_path (hr_uri r) = ''/metrics''
       then Inr (if hr_method r = M_GET then Greetings (metrics_text (cq_met (cs_cql s))) r else HttpResponse_new MethodNotAllowed)
       else HandleHttpRequest (cs_handlers s) r)"
    using register_text_eq [OF assms(1), of "''/metrics''" "metrics_text (cq_met (cs_cql s))"] unfolding p by blast
  have "cs_handlers s' = hs"
    using assms(3) hs(1) server_events_handlers [of ex tables _ "s\<lparr>cs_handlers := hs\<rparr>" res s']
    by (auto simp: server_round_def split: option.splits)
  then show ?thesis using hs(2,3) metrics_shown [OF assms(2)] by simp
qed

theorem metrics_scraped_witness:
  "\<exists>hs. HandleHttpRequest hs (example_request\<lparr>hr_method := M_GET\<rparr>) =
      Inr (Greetings (metrics_text [1, 2, 3, 4, 5, 0, 0, 8]) (example_request\<lparr>hr_method := M_GET\<rparr>)) \<and>
    HandleHttpRequest hs (example_request\<lparr>hr_method := M_HEAD\<rparr>) = Inr (HttpResponse_new MethodNotAllowed)"
proof -
  let ?s = "\<lparr>cs_cql = \<lparr>cq_process = example_node ''n1'' (), cq_db = example_db, cq_met = [1, 2, 3, 4, 5, 0, 0, 8]\<rparr>,
     cs_handlers = [], cs_buffer = [], cs_new_buffer = [], cs_polled = [5], cs_sent = []\<rparr>"
  have ok: "handlers_ok (cs_handlers ?s)" by (simp add: handlers_ok_def smap.map_ok_def)
  obtain s' where s': "server_round example_externals zero_tables (Some []) ?s = Some (Running, s')"
    using register_text_eq [OF ok, of "''/metrics''" "metrics_text (cq_met (cs_cql ?s))"] by (auto simp: server_round_def server_events_def)
  show ?thesis
    using metrics_scraped [OF ok _ s', of "example_request\<lparr>hr_method := M_GET\<rparr>"]
      metrics_scraped [OF ok _ s', of "example_request\<lparr>hr_method := M_HEAD\<rparr>"]
    by (intro exI [of _ "cs_handlers s'"]) (auto simp: example_request_eq)
qed

section \<open>How a read is divided\<close>

lemma for_range_collect:
  assumes "\<And>i xs. k \<le> i \<Longrightarrow> i < k + n \<Longrightarrow> f (int i) xs = Inr (if P i then xs @ [int i] else xs)"
  shows "for_range n (int k) f xs = Inr (xs @ map int (filter P [k..<k + n]))"
  using assms
proof (induction n arbitrary: k xs)
  case (Suc n)
  have up: "[k..<k + Suc n] = k # [Suc k..<Suc k + n]" by (simp add: upt_rec)
  have "for_range n (int (Suc k)) f ys = Inr (ys @ map int (filter P [Suc k..<Suc k + n]))" for ys
    using Suc.prems by (intro Suc.IH) auto
  then show ?case using Suc.prems [of k xs] up by (simp del: upt_Suc add_Suc_right add: add.commute)
qed simp

text \<open>The positions at which the first two bytes of the buffer are found.\<close>

definition starts :: "byte list \<Rightarrow> nat \<Rightarrow> nat list" where
  "starts buffer n = filter (\<lambda>i. buffer ! i = buffer ! 0 \<and> buffer ! Suc i = buffer ! 1) [0..<n]"

lemma message_starts_eq:
  assumes "2 \<le> length buffer" "n \<le> length buffer" "\<not> (n = length buffer \<and> buffer ! (n - 1) = buffer ! 0)"
  shows "message_starts buffer (int n) = Inr (map int (starts buffer n))"
proof -
  have "Suc i < length buffer" if "i < n" "buffer ! i = buffer ! 0" for i
    using that assms by (cases "i = length buffer - 1") auto
  moreover define step where "step i indeces = bindR (arr_get i buffer) (\<lambda>b. bindR (arr_get 0 buffer) (\<lambda>b0.
      if b = b0 then bindR (arr_get (i + 1) buffer) (\<lambda>c. bindR (arr_get 1 buffer) (\<lambda>c1.
        Inr (if c = c1 then indeces @ [i] else indeces))) else Inr indeces))" for i indeces
  moreover have "buffer \<noteq> []" using assms(1) by auto
  then have "arr_get 0 buffer = Inr (buffer ! 0)" "arr_get 1 buffer = Inr (buffer ! 1)"
      "\<And>i. i < length buffer \<Longrightarrow> arr_get (int i) buffer = Inr (buffer ! i)"
      "\<And>i. Suc i < length buffer \<Longrightarrow> arr_get (int i + 1) buffer = Inr (buffer ! Suc i)"
    using assms(1) by (simp_all add: arr_get_def nat_add_distrib)
  ultimately have "step (int i) xs = Inr (if buffer ! i = buffer ! 0 \<and> buffer ! Suc i = buffer ! 1 then xs @ [int i] else xs)"
    if "i < n" for i xs
    using that assms(2) by simp
  then have "for_range n (int 0) step [] = Inr ([] @ map int (starts buffer (0 + n)))"
    unfolding starts_def by (intro for_range_collect) simp
  then show ?thesis by (simp add: message_starts_def step_def [abs_def])
qed

lemma for_range_last: "for_range (Suc n) i f s = bindR (for_range n i f s) (f (i + int n))"
proof (induction n arbitrary: i s)
  case (Suc n)
  have "for_range (Suc (Suc n)) i f s = bindR (f i s) (for_range (Suc n) (i + 1) f)" by simp
  also have "\<dots> = bindR (f i s) (\<lambda>t. bindR (for_range n (i + 1) f t) (f (i + 1 + int n)))" using Suc.IH [of "i + 1"] by presburger
  finally show ?case by (simp add: bindR_assoc algebra_simps)
next
  case 0
  show ?case by (cases "f i s") simp_all
qed

text \<open>
  Property C36. How what was received is divided: a message starts wherever the first two bytes of the buffer are
  found again, and the last position is one before the end of what was received; only a read that fills the
  buffer and ends with the first byte goes wrong, by looking one byte beyond the buffer.
\<close>

theorem read_divided:
  assumes "length buffer = MAX_MESSAGE_LEN" "0 < n" "n \<le> MAX_MESSAGE_LEN"
  shows "message_indeces buffer (int n) =
    (if n = MAX_MESSAGE_LEN \<and> buffer ! (n - 1) = buffer ! 0 then Inl Undefined_Behaviour
     else Inr (map int (starts buffer n) @ [int n - 1]))"
proof (cases "n = MAX_MESSAGE_LEN \<and> buffer ! (n - 1) = buffer ! 0")
  case True
  define step where "step i indeces = bindR (arr_get i buffer) (\<lambda>b. bindR (arr_get 0 buffer) (\<lambda>b0.
      if b = b0 then bindR (arr_get (i + 1) buffer) (\<lambda>c. bindR (arr_get 1 buffer) (\<lambda>c1.
        Inr (if c = c1 then indeces @ [i] else indeces))) else Inr indeces))" for i :: int and indeces
  have starts: "message_starts buffer (int k) = for_range k 0 step []" for k
    by (simp add: message_starts_def step_def [abs_def])
  have "n - 1 < length buffer" using True assms by simp
  then have "message_starts buffer (int (n - 1)) = Inr (map int (starts buffer (n - 1)))"
    using assms by (intro message_starts_eq) (auto simp: MAX_MESSAGE_LEN_def)
  moreover have "step (0 + int (n - 1)) xs = Inl Undefined_Behaviour" for xs
    using True assms(1) by (auto simp: step_def arr_get_def MAX_MESSAGE_LEN_def)
  ultimately have "message_starts buffer (int n) = Inl Undefined_Behaviour"
    using for_range_last [of "n - 1" 0 step "[]"] assms(2) unfolding starts by simp
  then show ?thesis using True by (auto simp: message_indeces_def)
next
  case False
  then have "message_starts buffer (int n) = Inr (map int (starts buffer n))"
    using assms by (intro message_starts_eq) (auto simp: MAX_MESSAGE_LEN_def)
  then show ?thesis using False by (simp add: message_indeces_def)
qed

theorem read_divided_witness:
  "message_indeces (replicate MAX_MESSAGE_LEN 0) 2048 = Inl Undefined_Behaviour"
  using read_divided [of "replicate MAX_MESSAGE_LEN 0" MAX_MESSAGE_LEN] by (simp add: MAX_MESSAGE_LEN_def)

lemma copy_message:
  assumes "n \<le> length buffer" "n \<le> length nb"
  shows "for_range n 0 (\<lambda>j nb. bindR (arr_get j buffer) (\<lambda>b. arr_set (j - 0) b nb)) nb = Inr (take n buffer @ drop n nb)"
proof -
  have "for_range (length (take n buffer)) 0 (\<lambda>j nb. bindR (arr_get j buffer) (\<lambda>b. arr_set (j - 0) b nb)) nb =
      Inr (blit nb (nat 0) (take n buffer))"
    using assms by (intro for_range_emits) (auto simp: arr_get_def)
  then show ?thesis using assms by (simp add: blit_def)
qed

lemma Frame_substr_eq:
  assumes "i + n \<le> length arr"
  shows "Frame_substr arr (int i) (int n) = Inr (take n (drop i arr) @ [0])"
proof -
  have "for_range k 0 (\<lambda>j res. bindR (arr_get (int i + j) arr) (\<lambda>b. Inr (res @ [b]))) [] = Inr (take k (drop i arr))" if "k \<le> n" for k
    using that
  proof (induction k)
    case (Suc k)
    then have "arr_get (int i + int k) arr = Inr (arr ! (i + k))" using assms by (simp add: arr_get_def nat_add_distrib)
    then show ?case using Suc assms unfolding for_range_last by (simp add: take_Suc_conv_app_nth)
  qed simp
  then show ?thesis by (simp add: Frame_substr_def)
qed

lemma Frame_parse_eq:
  assumes "fm_buffer f = [v, fl, s0, s1, op, l0, l1, l2, l3] @ rest'" "fm_max_size f = 9 + int n" "n \<le> length rest'" "0 < n"
  shows "Frame_parse f = Inr (f\<lparr>fm_version := v, fm_flags := fl, fm_streamID := (s0, s1), fm_opcode := op,
    fm_length := [l0, l1, l2, l3], fm_body := Some (take n rest' @ [0])\<rparr>)"
  using Frame_substr_eq [of 9 n "fm_buffer f"] assms by (simp add: Frame_parse_def arr_get_def)

text \<open>
  A single message becomes a frame with its version, flags, stream and opcode, but without its last
  byte: the query is looked for in the rest of the body. What was in the buffers before does not matter.
\<close>

theorem message_framed:
  assumes "message = [v, fl, s0, s1, op, l0, l1, l2, l3] @ body" "2 \<le> length body" "length message < MAX_MESSAGE_LEN"
    and "length buffer = MAX_MESSAGE_LEN" "length new_buffer = MAX_MESSAGE_LEN"
    and "receive (Some message) buffer = (n, buffer')" "starts buffer' (length message) = [0]"
  shows "\<exists>f nb. message_indeces buffer' n = Inr [0, n - 1] \<and> next_frame ju buffer' 0 (n - 1) new_buffer = Inr (f, nb) \<and>
    fm_version f = v \<and> fm_flags f = fl \<and> fm_streamID f = (s0, s1) \<and> fm_opcode f = op \<and> frame_bytes f = Inr (butlast body)"
proof -
  have n: "n = int (length message)" "buffer' = message @ drop (length message) buffer" "length buffer' = MAX_MESSAGE_LEN"
    using assms(3,4,6) by (auto simp: receive_def)
  have 1: "message_indeces buffer' n = Inr [0, n - 1]"
    using message_starts_eq [of buffer' "length message"] n assms(3,7) by (simp add: message_indeces_def MAX_MESSAGE_LEN_def)
  obtain m where m: "length body = Suc m" "0 < m" using assms(2) by (cases "length body") auto
  let ?nb = "take (9 + m) buffer' @ drop (9 + m) new_buffer"
  let ?rest = "butlast body @ drop (9 + m) new_buffer"
  have hi: "n - 1 = 9 + int m" "nat (n - 1 - 0) = 9 + m" "length message = 10 + m" using n(1) assms(1) m by simp_all
  have "take (9 + m) buffer' = [v, fl, s0, s1, op, l0, l1, l2, l3] @ take m body"
    using n(2) assms(1) m by (simp add: numeral_eq_Suc)
  then have nb: "?nb = [v, fl, s0, s1, op, l0, l1, l2, l3] @ ?rest" using m by (simp add: butlast_conv_take)
  have "for_range (9 + m) 0 (\<lambda>j nb. bindR (arr_get j buffer') (\<lambda>b. arr_set (j - 0) b nb)) new_buffer = Inr ?nb"
    using assms(3,5) n(3) hi(3) by (intro copy_message) simp_all
  moreover have "Frame_parse (Frame_new (ju_flags ju) (ju_opcode ju) ?nb (9 + int m)) =
      Inr (Frame_new (ju_flags ju) (ju_opcode ju) ?nb (9 + int m)\<lparr>fm_version := v, fm_flags := fl, fm_streamID := (s0, s1),
        fm_opcode := op, fm_length := [l0, l1, l2, l3], fm_body := Some (take m ?rest @ [0])\<rparr>)"
    using m by (intro Frame_parse_eq) (simp_all add: Frame_new_def nb)
  moreover have "take m ?rest = butlast body" using m by simp
  ultimately show ?thesis
    using 1 hi(1,2) m by (simp add: next_frame_def frame_bytes_def Frame_new_def)
qed

theorem message_framed_witness:
  "\<exists>f nb. next_frame (\<lparr>ju_flags = 0, ju_opcode = 0, ju_header = [], ju_body = [], ju_metadata = [], ju_answer = [], ju_div = []\<rparr>)
      ([3, 0, 0, 7, 7, 0, 0, 0, 7, 0, 0, 0, 1, 59, 0, 1] @ replicate 2032 0) 0 15 (replicate 2048 9) = Inr (f, nb) \<and>
    frame_bytes f = Inr [0, 0, 0, 1, 59, 0]"
proof -
  let ?m = "[3, 0, 0, 7, 7, 0, 0, 0, 7, 0, 0, 0, 1, 59, 0, 1] :: byte list"
  have d: "drop 16 (replicate MAX_MESSAGE_LEN (0 :: byte)) = replicate 2032 0" by (simp add: MAX_MESSAGE_LEN_def)
  have "[0..<16] = [0, 1, 2, 3, 4, 5, 6, 7, 8, 9, 10, 11, 12, 13, 14, 15]" by (simp add: upt_rec)
  then have "starts (?m @ replicate 2032 0) 16 = [0]" by (simp add: starts_def nth_append nth_Cons')
  moreover have "length ?m = 16" by simp
  ultimately have "starts (?m @ replicate 2032 0) (length ?m) = [0]" by (simp only:)
  then show ?thesis
    using message_framed [of ?m 3 0 0 7 7 0 0 0 7 "[0, 0, 0, 1, 59, 0, 1]" "replicate MAX_MESSAGE_LEN 0" "replicate 2048 9" 16
        "?m @ replicate 2032 0" "\<lparr>ju_flags = 0, ju_opcode = 0, ju_header = [], ju_body = [], ju_metadata = [], ju_answer = [], ju_div = []\<rparr>"]
      d by (auto simp: receive_def MAX_MESSAGE_LEN_def)
qed

section \<open>The counters\<close>

text \<open>All metrics but the times of an insertion and of a selection grow; those of deletions stay what they are. None leaves its 32 bits.\<close>

definition met_int :: "int list \<Rightarrow> bool" where
  "met_int m \<longleftrightarrow> list_all (\<lambda>v. - (2 ^ 31) \<le> v \<and> v < 2 ^ 31) m"

definition met_grows :: "int list \<Rightarrow> int list \<Rightarrow> bool" where
  "met_grows m m' \<longleftrightarrow> length m' = length m \<and> (\<forall>k < length m. k \<notin> {3, 4} \<longrightarrow> m ! k \<le> m' ! k) \<and> (met_int m \<longrightarrow> met_int m')"

lemma met_grows_refl [simp]: "met_grows m m"
  by (simp add: met_grows_def)

lemma met_grows_trans: "met_grows a b \<Longrightarrow> met_grows b c \<Longrightarrow> met_grows a c"
  by (auto simp: met_grows_def intro: order_trans)

definition counts :: "('w responding, 'a) pcmd \<Rightarrow> bool" where
  "counts c \<longleftrightarrow> (\<forall>r x r'. c r = Some (x, r') \<longrightarrow> met_grows (cq_met r) (cq_met r'))"

lemma counts_liftP [intro]: "counts (liftP x)"
  by (simp add: counts_def)

lemma counts_bindP [intro]:
  assumes "counts m" "\<And>x. counts (f x)"
  shows "counts (bindP m f)"
  unfolding counts_def
proof (intro allI impI)
  fix r x r' assume b: "bindP m f r = Some (x, r')"
  then obtain y r1 where y: "m r = Some (y, r1)" by (auto simp: bindP_def split: option.splits prod.splits)
  then have "met_grows (cq_met r) (cq_met r1)" using assms(1) by (simp add: counts_def)
  moreover have "met_grows (cq_met r1) (cq_met r')"
    using b y assms(2) by (cases y) (auto simp: bindP_def counts_def)
  ultimately show "met_grows (cq_met r) (cq_met r')" by (rule met_grows_trans)
qed

lemma counts_return: "counts (\<lambda>r. Some (Inr (g r), r))"
  by (simp add: counts_def)

lemma counts_if [intro]: "counts c \<Longrightarrow> counts d \<Longrightarrow> counts (if b then c else d)"
  by simp

lemma counts_on_arrays [intro]: "counts (on_arrays c)"
  by (auto simp: counts_def on_arrays_def split: sum.splits prod.splits)

lemma counts_on_process [intro]: "counts (on_process c)"
  by (auto simp: counts_def on_process_def split: option.splits prod.splits)

lemma counts_on_server_db [intro]: "counts (on_server_db c)"
  by (auto simp: counts_def on_server_db_def split: prod.splits)

lemma narrow_int: "- (2 ^ 31) \<le> narrow v" "narrow v < 2 ^ 31"
  using sint_range_size [of "word_of_int v :: 32 word"] by (simp_all add: narrow_def word_size)

lemma met_int_update: "met_int m \<Longrightarrow> - (2 ^ 31) \<le> v \<Longrightarrow> v < 2 ^ 31 \<Longrightarrow> met_int (m[k := v])"
  unfolding met_int_def list_all_iff by (metis insertE set_update_subset_insert subsetD)

lemma counts_set_time [intro]: "k \<in> {3, 4} \<Longrightarrow> counts (set_met k (narrow v))"
  by (auto simp: counts_def set_met_def met_grows_def nth_list_update split: if_splits
      intro: met_int_update [OF _ narrow_int])

lemma counts_inc_met [intro]: "counts (inc_met k)"
  by (auto simp: counts_def inc_met_def set_met_def met_grows_def c_int_def nth_list_update bindP_def split: if_splits
      intro: met_int_update)

lemma counts_count_exception [intro]:
  assumes "counts c"
  shows "counts (count_exception caught c)"
  unfolding counts_def
proof (intro allI impI)
  fix r x r' assume b: "count_exception caught c r = Some (x, r')"
  then obtain y r1 where y: "c r = Some (y, r1)" by (auto simp: count_exception_def split: option.splits prod.splits)
  then have "met_grows (cq_met r) (cq_met r1)" using assms by (simp add: counts_def)
  moreover have "met_grows (cq_met r1) (cq_met r')"
    using b y counts_inc_met [of 7] by (cases y) (auto simp: count_exception_def counts_def split: if_splits)
  ultimately show "met_grows (cq_met r) (cq_met r')" by (rule met_grows_trans)
qed

lemma counts_given:
  assumes "\<And>r. (\<exists>x. c r = Some (x, r)) \<or> c r = None \<or> (\<exists>d. counts d \<and> c r = d r)"
  shows "counts c"
  using assms unfolding counts_def by (metis (no_types, lifting) met_grows_refl option.distinct(1) option.inject prod.inject)

lemma counts_respond_statement [intro]: "counts (respond_statement version micros str st)"
proof (cases st)
  case (CreateTable c)
  show ?thesis unfolding CreateTable respond_statement.simps by (intro counts_count_exception counts_bindP) auto
next
  case (Insert i)
  have d: "counts (bindP (set_met 3 (narrow micros)) (\<lambda>_. bindP (inc_met 1) (\<lambda>_. on_arrays insert_response)))"
    by (intro counts_bindP counts_set_time) auto
  show ?thesis
    unfolding Insert respond_statement.simps
  proof (intro counts_count_exception counts_given, goal_cases)
    case (1 r)
    then show ?case using d by (cases "insert_record (rs_body r)") auto
  qed
next
  case (Select s)
  have d: "counts (bindP (set_met 4 (narrow micros)) (\<lambda>_. bindP (inc_met 2) (\<lambda>_. on_arrays (\<lambda>hdr _. select_response hdr res))))" for res
    by (intro counts_bindP counts_set_time) auto
  show ?thesis
    unfolding Select respond_statement.simps
  proof (intro counts_given, goal_cases)
    case (1 r)
    show ?case
    proof (cases "read_schema (fr_table (sl_from_spec s)) (cq_db r)")
      case (Inr sch)
      then show ?thesis
      proof (cases "select_result (fr_keyspace (sl_from_spec s)) (fr_table (sl_from_spec s)) sch [] str (rs_body r)")
        case (Some res)
        then show ?thesis using Inr d by (cases res) auto
      qed simp
    qed simp
  qed
qed

lemma counts_respond_statements [intro]: "counts (respond_statements version micros str sts)"
proof (induction sts arbitrary: micros)
  case Nil
  show ?case by (simp add: counts_liftP del: liftP_simps)
next
  case (Cons st sts)
  then show ?case unfolding respond_statements.simps by (intro counts_bindP) auto
qed

lemma counts_respond_query_frame [intro]: "counts (respond_query_frame ex tables jm jb micros f)"
proof -
  have "counts (respond_query ex v m q)" for v m q
    unfolding respond_query_def by (intro counts_count_exception counts_bindP) auto
  then show ?thesis
    unfolding respond_query_frame_def respond_meta_def
    by (intro counts_bindP counts_liftP) (auto split: prod.splits intro!: counts_bindP)
qed

lemma counts_CreateResponse: "counts (CreateResponse ex tables jm jb micros f)"
  unfolding CreateResponse_def
  by (intro counts_bindP counts_if counts_on_arrays counts_liftP counts_respond_query_frame counts_return)

section \<open>The loop\<close>

lemma for_range_keeps:
  assumes "for_range n i f s = Inr s'" "\<And>i s s'. f i s = Inr s' \<Longrightarrow> P s \<Longrightarrow> P s'" "P s"
  shows "P s'"
  using assms
proof (induction n arbitrary: i s)
  case (Suc n)
  then obtain t where "f i s = Inr t" "for_range n (i + 1) f t = Inr s'" by (auto simp: bindR_eq_Inr)
  then show ?case using Suc.IH [of "i + 1" t] Suc.prems(2,3) by blast
qed simp

lemma next_frame_length:
  assumes "next_frame ju buffer lo hi nb = Inr (f, nb')"
  shows "length nb' = length nb"
proof -
  have loop: "for_range (nat (hi - lo)) lo (\<lambda>j nb. bindR (arr_get j buffer) (\<lambda>b. arr_set (j - lo) b nb)) nb = Inr nb'"
    using assms by (auto simp: next_frame_def bindR_eq_Inr)
  have step: "length t = length nb" if "bindR (arr_get j buffer) (\<lambda>b. arr_set (j - lo) b s) = Inr t" "length s = length nb" for j s t
    using that by (auto simp: bindR_eq_Inr arr_set_def split: if_splits)
  show ?thesis by (rule for_range_keeps [where P = "\<lambda>a. length a = length nb", OF loop step refl])
qed

lemma serve_message_keeps:
  assumes "serve_message ex tables ju micros buffer lo hi (st, nb) = Some (res, (st', nb'))"
  shows "met_grows (cq_met st) (cq_met st') \<and> length nb' = length nb"
proof (cases "next_frame ju buffer lo hi nb")
  case (Inl e)
  then show ?thesis using assms by (simp add: serve_message_def)
next
  case (Inr fn)
  obtain f n1 where fn: "fn = (f, n1)" by (cases fn)
  let ?r = "\<lparr>cq_process = cq_process st, cq_db = cq_db st, cq_met = cq_met st,
      rs_header = ju_header ju, rs_body = ju_body ju, rs_msg_length = 9\<rparr>"
  obtain xr where xr: "CreateResponse ex tables (ju_metadata ju) (ju_answer ju) micros f ?r = Some xr"
    using assms Inr fn by (cases "CreateResponse ex tables (ju_metadata ju) (ju_answer ju) micros f ?r")
      (simp_all add: serve_message_def)
  obtain x r where x: "xr = (x, r)" by (cases xr)
  have r: "CreateResponse ex tables (ju_metadata ju) (ju_answer ju) micros f ?r = Some (x, r)" "cq_met st' = cq_met r" "nb' = n1"
    using assms Inr fn xr x by (simp_all add: serve_message_def) auto
  have "met_grows (cq_met ?r) (cq_met r)"
    using counts_CreateResponse [of ex tables "ju_metadata ju" "ju_answer ju" micros f] r(1) unfolding counts_def by blast
  then show ?thesis using r(2,3) next_frame_length [OF Inr [unfolded fn]] by simp
qed

lemma serve_messages_keeps:
  assumes "serve_messages ex tables ju micros buffer indeces (st, nb, sent) = Some (res, (st', nb', sent'))"
  shows "met_grows (cq_met st) (cq_met st') \<and> length nb' = length nb"
  using assms
proof (induction ex tables ju micros buffer indeces arbitrary: st nb sent rule: serve_messages.induct)
  case (3 ex tables ju micros buffer lo hi indeces)
  obtain x s1 n1 where x: "serve_message ex tables (ju lo) (micros lo) buffer lo hi (st, nb) = Some (x, (s1, n1))"
    using 3(2) by (auto simp: bindP_def sending_def split: option.splits)
  note k = serve_message_keeps [OF x]
  show ?case
  proof (cases x)
    case (Inl e)
    then show ?thesis using 3(2) x k by (simp add: bindP_def sending_def)
  next
    case (Inr parts)
    then have "serve_messages ex tables ju micros buffer (hi # indeces) (s1, n1, sent @ parts) = Some (res, (st', nb', sent'))"
      using 3(2) x by (simp add: bindP_def sending_def)
    from 3(1) [OF this] show ?thesis using k met_grows_trans by auto
  qed
qed simp_all

lemma serve_read_keeps:
  assumes "serve_read ex tables ju micros buffer n (st, nb, sent) = Some (res, (st', nb', sent'))"
  shows "met_grows (cq_met st) (cq_met st') \<and> length nb' = length nb"
proof (cases "n \<le> 0")
  case True
  then show ?thesis using assms by (auto simp: serve_read_def split: prod.splits)
next
  case False
  then show ?thesis
    using assms serve_messages_keeps [of ex tables ju micros buffer _ st nb sent res st' nb' sent']
    by (cases "message_indeces buffer n") (auto simp: serve_read_def)
qed

text \<open>What the system calls can report: \<^verbatim>\<open>recv\<close> never returns more bytes than the buffer holds.\<close>

fun event_ok :: "cql_event \<Rightarrow> bool" where
  "event_ok (Readable fd (Some bs) ju micros) = (bs \<noteq> [] \<and> length bs \<le> MAX_MESSAGE_LEN)"
| "event_ok _ = True"

definition server_inv :: "'w cql_server \<Rightarrow> bool" where
  "server_inv s \<longleftrightarrow> length (cs_buffer s) = MAX_MESSAGE_LEN \<and> length (cs_new_buffer s) = MAX_MESSAGE_LEN \<and>
     length (cq_met (cs_cql s)) = 8 \<and> handlers_ok (cs_handlers s)"

text \<open>What a step of the loop keeps.\<close>

definition advances :: "'w cql_server \<Rightarrow> 'w cql_server \<Rightarrow> bool" where
  "advances s s' \<longleftrightarrow> (server_inv s \<longrightarrow> server_inv s' \<and> met_grows (cq_met (cs_cql s)) (cq_met (cs_cql s')) \<and>
     prefix (cs_sent s) (cs_sent s') \<and> prefix (cs_polled s) (cs_polled s'))"

lemma advances_refl: "advances s s"
  by (simp add: advances_def)

lemma advances_trans: "advances a b \<Longrightarrow> advances b c \<Longrightarrow> advances a c"
  unfolding advances_def
  using met_grows_trans [of "cq_met (cs_cql a)" "cq_met (cs_cql b)" "cq_met (cs_cql c)"]
    prefix_order.trans [of "cs_sent a" "cs_sent b" "cs_sent c"] prefix_order.trans [of "cs_polled a" "cs_polled b" "cs_polled c"]
  by simp

lemma server_event_advances:
  assumes "event_ok ev" "server_event ex tables ev s = Some (res, s')"
  shows "advances s s'"
proof (cases ev)
  case (Connection fd added)
  then show ?thesis using assms(2) by (cases fd) (auto simp: advances_def server_inv_def split: if_splits)
next
  case (Readable fd received ju micros)
  obtain n b where nb: "receive received (cs_buffer s) = (n, b)" by fastforce
  then have b: "length (cs_buffer s) = MAX_MESSAGE_LEN \<Longrightarrow> length b = MAX_MESSAGE_LEN"
    using assms(1) Readable by (cases received) (auto simp: receive_def)
  obtain x st buf parts where x: "serve_read ex tables ju micros b n (cs_cql s, cs_new_buffer s, []) = Some (x, (st, buf, parts))"
    using assms(2) Readable nb by (cases "serve_read ex tables ju micros b n (cs_cql s, cs_new_buffer s, [])") auto
  note k = serve_read_keeps [OF x]
  show ?thesis
    using assms(2) Readable nb x k b by (auto simp: advances_def server_inv_def met_grows_def)
qed

interpretation events: kept_by_steps "server_event ex tables" event_ok advances for ex tables
  by unfold_locales (rule advances_refl, erule (1) advances_trans, erule (1) server_event_advances)

definition round_ok :: "cql_event list option \<Rightarrow> bool" where
  "round_ok waited \<longleftrightarrow> (case waited of None \<Rightarrow> True | Some evs \<Rightarrow> list_all event_ok evs)"

lemma server_round_advances:
  assumes "round_ok waited" "server_round ex tables waited s = Some (res, s')"
  shows "advances s s'"
proof (cases "server_inv s")
  case True
  obtain hs where hs: "register_text ''/metrics'' (metrics_text (cq_met (cs_cql s))) (cs_handlers s) = Inr hs" "handlers_ok hs"
    using register_text_eq True unfolding server_inv_def by blast
  have a: "advances s (s\<lparr>cs_handlers := hs\<rparr>)" using hs(2) by (simp add: advances_def server_inv_def)
  show ?thesis
    using assms hs(1) a advances_trans [OF a] events.steps_kept [of _ ex tables "s\<lparr>cs_handlers := hs\<rparr>" res s']
    by (cases waited) (auto simp: server_round_def server_events_def round_ok_def)
qed (simp add: advances_def)

interpretation rounds: kept_by_steps "server_round ex tables" round_ok advances for ex tables
  by unfold_locales (rule advances_refl, erule (1) advances_trans, erule (1) server_round_advances)

section \<open>Reachable states\<close>

text \<open>The states of the process: after the set-up, and after each round.\<close>

inductive server_reachable :: "('c, 'w) externals \<Rightarrow> meta_tables \<Rightarrow> 'w cql_server \<Rightarrow> bool" for ex tables where
  started: "Server_start ex prom_port su junk_new_buffer fd p = Some (Running, Some s) \<Longrightarrow>
    length junk_new_buffer = MAX_MESSAGE_LEN \<Longrightarrow> server_reachable ex tables s"
| round: "server_reachable ex tables s \<Longrightarrow> round_ok waited \<Longrightarrow> server_round ex tables waited s = Some (res, s') \<Longrightarrow>
    server_reachable ex tables s'"

definition counters_ok :: "int list \<Rightarrow> bool" where
  "counters_ok m \<longleftrightarrow> (\<forall>k < length m. k \<notin> {3, 4} \<longrightarrow> 0 \<le> m ! k)"

lemma counters_ok_grows: "counters_ok m \<Longrightarrow> met_grows m m' \<Longrightarrow> counters_ok m'"
  by (force simp: counters_ok_def met_grows_def)

lemma no_handlers_ok: "handlers_ok []"
  by (simp add: handlers_ok_def smap.map_ok_def)

lemma prom_start_ok:
  assumes "prom_start prom_port su = Inr (hs, sv)"
  shows "handlers_ok hs"
proof -
  obtain h where "register_text ''/'' ''GOTO /metrics'' [] = Inr h" "handlers_ok h"
    using register_text_eq [OF no_handlers_ok] by blast
  then show ?thesis using assms by (cases "su_prom su") (auto simp: prom_start_def bindR_eq_Inr)
qed

lemma Server_start_inv:
  assumes "Server_start ex prom_port su junk fd p = Some (Running, Some s)" "length junk = MAX_MESSAGE_LEN"
  shows "server_inv s" "cq_met (cs_cql s) = [0, 0, 0, 0, 0, 0, 0, 0]"
  using assms prom_start_ok
  by (auto simp: Server_start_def server_inv_def split: option.splits sum.splits)

lemma reachable_inv: "server_reachable ex tables s \<Longrightarrow> server_inv s \<and> counters_ok (cq_met (cs_cql s))"
proof (induction rule: server_reachable.induct)
  case (started prom_port su junk fd p s)
  then show ?case using Server_start_inv [OF started] by (simp add: counters_ok_def nth_Cons')
next
  case (round s waited res s')
  then show ?case
    using server_round_advances [OF round.hyps(2,3)] counters_ok_grows by (auto simp: advances_def)
qed

text \<open>
  Property C6. The loop: in every state the server reaches from its start, and through however many rounds from
  there, whatever the clients send, the buffers and the metrics keep their sizes, the table of handlers stays
  well formed, no counter is negative or ever decreases, nothing sent is taken back, and no descriptor is
  given up, not even that of a connection that was closed.
\<close>

theorem reachable_server_safe:
  assumes "server_reachable ex tables s" "list_all round_ok waits" "server_rounds ex tables waits s = Some (res, s')"
  shows "server_inv s' \<and> counters_ok (cq_met (cs_cql s')) \<and> met_grows (cq_met (cs_cql s)) (cq_met (cs_cql s')) \<and>
    prefix (cs_sent s) (cs_sent s') \<and> prefix (cs_polled s) (cs_polled s')"
  using rounds.steps_kept [OF assms(2), of ex tables s res s'] reachable_inv [OF assms(1)] assms(3) counters_ok_grows
  by (auto simp: server_rounds_def advances_def)

definition example_server :: "unit cql_server" where
  "example_server = \<lparr>cs_cql = \<lparr>cq_process = example_node ''n1'' (), cq_db = example_db, cq_met = [1, 2, 3, 4, 5, 0, 0, 8]\<rparr>,
     cs_handlers = [], cs_buffer = replicate MAX_MESSAGE_LEN 0, cs_new_buffer = replicate MAX_MESSAGE_LEN 0,
     cs_polled = [5], cs_sent = []\<rparr>"

lemma example_server_inv: "server_inv example_server"
  by (simp add: server_inv_def example_server_def handlers_ok_def smap.map_ok_def)

text \<open>A server that starts on an empty directory; a client connects and leaves.\<close>

definition example_startup :: startup where
  "example_startup = \<lparr>su_prom_socket = True, su_prom = (True, True, True, \<lambda>_. True), su_socket = True, su_bind = True, su_listen = True,
     su_epoll = True, su_ctl = True\<rparr>"

definition example_rounds :: "cql_event list option list" where
  "example_rounds = [Some [Connection (Some 7) True], Some [Readable 7 None (\<lambda>_. \<lparr>ju_flags = 0, ju_opcode = 0,
     ju_header = [], ju_body = [], ju_metadata = [], ju_answer = [], ju_div = []\<rparr>) (\<lambda>_ _. 0)]]"

lemma example_started:
  "\<exists>s :: unit cql_server. Server_start example_externals 8080 example_startup (replicate MAX_MESSAGE_LEN 0) 5
     (example_node ''n1'' ()\<lparr>pc_fs := \<lparr>fs_dirs = [''database''], fs_files = (\<lambda>p. None), fs_bad = []\<rparr>\<rparr>) = Some (Running, Some s) \<and>
     cs_polled s = [5] \<and> handlers_ok (cs_handlers s)"
proof -
  let ?f = "\<lparr>fs_dirs = [''database''], fs_files = (\<lambda>p. None), fs_bad = []\<rparr>"
  obtain f where db: "Database_new (ex_junk example_externals) ''database'' ?f = Some (Inr \<lparr>db_base_path = ''database'', db_table_managers = []\<rparr>, f)"
    using Database_new_fresh [of "''database''" ?f "ex_junk example_externals"]
    by (auto simp: db_fs_ok_def sstable_paths_def sstable_path_def metadata_path_def)
  obtain hs where hs: "register_text ''/'' ''GOTO /metrics'' [] = Inr hs" "handlers_ok hs"
    using register_text_eq [OF no_handlers_ok] by blast
  then obtain sv where "prom_start 8080 example_startup = Inr (hs, sv)"
    by (auto simp: prom_start_def HttpServer_new_def example_startup_def Start_def kThreadPoolSize_def numeral_eq_Suc)
  then show ?thesis
    using db hs(2) by (simp add: Server_start_def setup_failure_def) (simp add: example_startup_def)
qed

lemma example_rounds_end:
  assumes "handlers_ok (cs_handlers s)"
  shows "\<exists>res s'. server_rounds ex tables example_rounds s = Some (res, s')"
proof -
  obtain h1 where h1: "register_text ''/metrics'' (metrics_text (cq_met (cs_cql s))) (cs_handlers s) = Inr h1" "handlers_ok h1"
    using register_text_eq [OF assms] by blast
  moreover obtain h2 where "register_text ''/metrics'' (metrics_text (cq_met (cs_cql s))) h1 = Inr h2"
    using register_text_eq [OF h1(2)] by blast
  ultimately show ?thesis
    by (simp add: example_rounds_def server_rounds_def server_round_def server_events_def receive_def serve_read_def Let_def
        split: prod.splits sum.splits)
qed

theorem reachable_server_safe_witness:
  "\<exists>(s :: unit cql_server) res s'. server_rounds example_externals zero_tables example_rounds s = Some (res, s') \<and>
    server_inv s' \<and> counters_ok (cq_met (cs_cql s')) \<and> prefix [5] (cs_polled s')"
proof -
  obtain s :: "unit cql_server" where s: "server_reachable example_externals zero_tables s" "cs_polled s = [5]" "handlers_ok (cs_handlers s)"
    using example_started started [of example_externals 8080 example_startup "replicate MAX_MESSAGE_LEN 0" 5] by fastforce
  obtain res s' where r: "server_rounds example_externals zero_tables example_rounds s = Some (res, s')"
    using example_rounds_end [OF s(3)] by blast
  have "list_all round_ok example_rounds" by (simp add: example_rounds_def round_ok_def)
  from reachable_server_safe [OF s(1) this r] show ?thesis using r s(2) by auto
qed

section \<open>The program\<close>

text \<open>
  \<^verbatim>\<open>main\<close>: without two arguments the usage is printed, with the first argument in it; otherwise the ports are those
  numbers, as \<^verbatim>\<open>strtol\<close> reads them, cut to 16 bits.
\<close>

definition port_of :: "string \<Rightarrow> u16" where
  "port_of s = ucast (strtoll s)"

definition main :: "string list \<Rightarrow> (string + u16 \<times> u16) result" where
  "main argv =
     (if length argv < 3 then
        bindR (vec_at argv 0) (\<lambda>name. bindR (vec_at argv 1) (\<lambda>first.
          Inr (Inl (''usage: '' @ name @ '' <CQL port>'' @ first @ '' <Prometheus Port>\<newline>''))))
      else bindR (vec_at argv 1) (\<lambda>port. bindR (vec_at argv 2) (\<lambda>prom_port. Inr (Inr (port_of port, port_of prom_port)))))"

lemma port_of_number:
  assumes "n < 65536"
  shows "unat (port_of (to_string_nat n)) = n"
proof -
  have "strtoll (to_string_nat n) = of_nat n"
    using strtoll_small [of "to_string_nat n"] c_integer_to_string_nat [of n] assms by simp
  then show ?thesis using assms by (simp add: port_of_def unsigned_ucast_eq unsigned_of_nat take_bit_nat_eq_self)
qed

text \<open>The ports of the command line are the ports of the servers; without any argument a null pointer is printed.\<close>

theorem main_ports:
  assumes "n < 65536" "m < 65536"
  shows "\<exists>p q. main [name, to_string_nat n, to_string_nat m] = Inr (Inr (p, q)) \<and> unat p = n \<and> unat q = m \<and>
    main [name] = Inl Undefined_Behaviour"
  using port_of_number [OF assms(1)] port_of_number [OF assms(2)] by (simp add: main_def vec_at_def)

end
