(* ===== verification/Node_Process.thy ===== *)
theory Node_Process
  imports Api_Cql_Loop
begin

text \<open>
  The process of a node with its threads: the main thread in the loop of \<^verbatim>\<open>lib/api/cql3/server.cc\<close>, the listener and
  the five workers of the metrics endpoint (\<^verbatim>\<open>lib/api/prom_endp/http_server.cc\<close>), and the thread of the streamer
  service. They share the table of handlers and the keyspaces of the node, and no lock protects either. The steps of the
  threads are interleaved in any order. What a worker does with an event and what the streamer service does with a query
  takes time: each has a step in which it begins and a step in which it ends, and when the main thread changes the table or
  uses the keyspaces in between, or a second query begins, that is a race, after which nothing is known of the process.
  The lemmas show that the steps of one thread compose to its rounds, that a race can be reached, an invariant of the
  states that are reached without one, and what a scrape of the metrics is answered there.
\<close>

section \<open>Threads\<close>

text \<open>The two statements of \<^verbatim>\<open>RegisterHttpRequestHandler\<close>, for a path.\<close>

datatype registration = Erase string | Put string http_method handler

fun register_step :: "registration \<Rightarrow> handlers \<Rightarrow> handlers result" where
  "register_step (Erase path) hs = Inr (erase_handlers (Uri_new path) hs)"
| "register_step (Put path m callback) hs = RegisterHttpRequestHandler_uri (Uri_new path) m callback hs"

definition text_registrations :: "string \<Rightarrow> string \<Rightarrow> registration list" where
  "text_registrations path content =
     [Erase path, Put path M_HEAD (Greetings content), Erase path, Put path M_GET (Greetings content)]"

text \<open>
  Where the main thread is: in \<^verbatim>\<open>epoll_wait\<close>, publishing the metrics with what \<^verbatim>\<open>epoll_wait\<close> returned
  in hand, or handling the events.
\<close>

datatype main_at = Waiting | Registering "registration list" "cql_event list option" | Serving "cql_event list"

text \<open>
  For each worker the events it has been told of, and what \<^verbatim>\<open>recv\<close> and \<^verbatim>\<open>send\<close> return for the first of
  them while it is handling that one; the queries of other nodes that are being executed; and whether two threads have met
  in the table or in the keyspaces.
\<close>

record 'w node =
  nd_main :: main_at
  nd_cql :: "'w cql_server"
  nd_http :: http_server
  nd_events :: "nat \<Rightarrow> (event_data \<times> event_flags) list"
  nd_busy :: "nat \<Rightarrow> (recv_result \<times> send_result) option"
  nd_remote :: "string list"
  nd_race :: bool

abbreviation node_met :: "'w node \<Rightarrow> int list" where
  "node_met n \<equiv> cq_met (cs_cql (nd_cql n))"

abbreviation node_handlers :: "'w node \<Rightarrow> handlers" where
  "node_handlers n \<equiv> cs_handlers (nd_cql n)"

abbreviation node_worker :: "'w node \<Rightarrow> nat \<Rightarrow> worker" where
  "node_worker n i \<equiv> sv_workers (nd_http n) ! i"

abbreviation set_worker :: "nat \<Rightarrow> worker \<Rightarrow> http_server \<Rightarrow> http_server" where
  "set_worker i w sv \<equiv> sv\<lparr>sv_workers := (sv_workers sv)[i := w]\<rparr>"

text \<open>\<^verbatim>\<open>epoll_wait\<close> reports each registered descriptor at most once, with the data registered for it.\<close>

definition batch_ok :: "worker \<Rightarrow> (event_data \<times> event_flags) list \<Rightarrow> bool" where
  "batch_ok w evs \<longleftrightarrow> distinct (map (ed_fd \<circ> fst) evs) \<and>
     list_all (\<lambda>(d, flags). \<exists>k. wk_interest w (ed_fd d) = Some (k, d) \<and> flags_ok k flags) evs"

text \<open>
  A worker that has received a request looks the handler up and runs it, between the beginning and the end of its
  handling of the event, with an iterator into the table; for a connection that is to be written it does not use the table.
\<close>

fun looks_up :: "(event_data \<times> event_flags) list \<Rightarrow> (recv_result \<times> send_result) option \<Rightarrow> bool" where
  "looks_up ((d, Exactly EPOLLIN) # evs) (Some (Received bs, s)) = True"
| "looks_up _ _ = False"

definition table_read :: "'w node \<Rightarrow> bool" where
  "table_read n \<longleftrightarrow> list_ex (\<lambda>i. looks_up (nd_events n i) (nd_busy n i)) [0..<kThreadPoolSize]"

fun uses_database :: "cql_event \<Rightarrow> bool" where
  "uses_database (Connection fd added) = False"
| "uses_database (Readable fd received ju micros) = True"

text \<open>
  The next step of the main thread would fall into the handling of a request or of a query of another node, or two such
  queries are being executed. For two stretches of time that overlap there is a moment of the one inside the other: it is
  enough that the step of the main thread is a moment and the others have a beginning and an end.
\<close>

definition races :: "'w node \<Rightarrow> bool" where
  "races n \<longleftrightarrow> (case nd_main n of
       Registering (a # as) waited \<Rightarrow> table_read n
     | Serving (e # evs) \<Rightarrow> uses_database e \<and> nd_remote n \<noteq> []
     | _ \<Rightarrow> False) \<or> 1 < length (nd_remote n)"

inductive node_step :: "('c, 'w) externals \<Rightarrow> meta_tables \<Rightarrow> 'w node \<Rightarrow> 'w node \<Rightarrow> bool" for ex tables where
  wait: "nd_main n = Waiting \<Longrightarrow> round_ok waited \<Longrightarrow> \<not> nd_race n \<Longrightarrow>
    node_step ex tables n (n\<lparr>nd_main := Registering (text_registrations ''/metrics'' (metrics_text (node_met n))) waited\<rparr>)"
| register: "nd_main n = Registering (a # as) waited \<Longrightarrow> register_step a (node_handlers n) = Inr hs \<Longrightarrow> \<not> table_read n \<Longrightarrow> \<not> nd_race n \<Longrightarrow>
    node_step ex tables n (n\<lparr>nd_main := Registering as waited, nd_cql := (nd_cql n)\<lparr>cs_handlers := hs\<rparr>\<rparr>)"
| registered: "nd_main n = Registering [] (Some evs) \<Longrightarrow> \<not> nd_race n \<Longrightarrow> node_step ex tables n (n\<lparr>nd_main := Serving evs\<rparr>)"
| serve: "nd_main n = Serving (e # evs) \<Longrightarrow> server_event ex tables e (nd_cql n) = Some (Running, s) \<Longrightarrow>
    \<not> (uses_database e \<and> nd_remote n \<noteq> []) \<Longrightarrow> \<not> nd_race n \<Longrightarrow>
    node_step ex tables n (n\<lparr>nd_main := Serving evs, nd_cql := s\<rparr>)"
| served: "nd_main n = Serving [] \<Longrightarrow> \<not> nd_race n \<Longrightarrow> node_step ex tables n (n\<lparr>nd_main := Waiting\<rparr>)"
| listen: "Listen fd (nd_http n) = Inr sv \<Longrightarrow> (\<And>i. i < kThreadPoolSize \<Longrightarrow> \<not> wk_open (node_worker n i) fd) \<Longrightarrow> \<not> nd_race n \<Longrightarrow>
    node_step ex tables n (n\<lparr>nd_http := sv\<rparr>)"
| poll: "i < kThreadPoolSize \<Longrightarrow> nd_events n i = [] \<Longrightarrow> batch_ok (node_worker n i) evs \<Longrightarrow> \<not> nd_race n \<Longrightarrow>
    node_step ex tables n (n\<lparr>nd_events := (nd_events n)(i := evs)\<rparr>)"
| begin_work: "i < kThreadPoolSize \<Longrightarrow> nd_events n i = (d, flags) # evs \<Longrightarrow> nd_busy n i = None \<Longrightarrow> recv_ok r \<Longrightarrow> send_ok d s \<Longrightarrow> \<not> nd_race n \<Longrightarrow>
    node_step ex tables n (n\<lparr>nd_busy := (nd_busy n)(i := Some (r, s))\<rparr>)"
| work: "i < kThreadPoolSize \<Longrightarrow> nd_events n i = (d, flags) # evs \<Longrightarrow> nd_busy n i = Some (r, s) \<Longrightarrow>
    process_event (node_handlers n) d flags r s (node_worker n i) = (Inr (), w) \<Longrightarrow> \<not> nd_race n \<Longrightarrow>
    node_step ex tables n (n\<lparr>nd_events := (nd_events n)(i := evs), nd_busy := (nd_busy n)(i := None),
      nd_http := set_worker i w (nd_http n)\<rparr>)"
| begin_remote: "\<not> nd_race n \<Longrightarrow> node_step ex tables n (n\<lparr>nd_remote := query # nd_remote n\<rparr>)"
| remote: "nd_remote n = [query] \<Longrightarrow> StreamerServer_execute ex query (cq_process (cs_cql (nd_cql n))) = Some (res, p) \<Longrightarrow>
    res \<noteq> Inl Undefined_Behaviour \<Longrightarrow> \<not> nd_race n \<Longrightarrow>
    node_step ex tables n (n\<lparr>nd_remote := [], nd_cql := (nd_cql n)\<lparr>cs_cql := (cs_cql (nd_cql n))\<lparr>cq_process := p\<rparr>\<rparr>\<rparr>)"
| race: "races n \<Longrightarrow> nd_race n' \<Longrightarrow> \<not> nd_race n \<Longrightarrow> node_step ex tables n n'"

inductive node_reachable :: "('c, 'w) externals \<Rightarrow> meta_tables \<Rightarrow> 'w node \<Rightarrow> bool" for ex tables where
  booted: "Server_start ex prom_port su junk_new_buffer fd p = Some (Running, Some s) \<Longrightarrow> length junk_new_buffer = MAX_MESSAGE_LEN \<Longrightarrow>
    prom_start prom_port su = Inr (hs, sv) \<Longrightarrow>
    node_reachable ex tables \<lparr>nd_main = Waiting, nd_cql = s, nd_http = sv, nd_events = \<lambda>_. [],
      nd_busy = \<lambda>_. None, nd_remote = [], nd_race = False\<rparr>"
| stepped: "node_reachable ex tables n \<Longrightarrow> node_step ex tables n n' \<Longrightarrow> node_reachable ex tables n'"

abbreviation node_steps :: "('c, 'w) externals \<Rightarrow> meta_tables \<Rightarrow> 'w node \<Rightarrow> 'w node \<Rightarrow> bool" where
  "node_steps ex tables \<equiv> (node_step ex tables)\<^sup>*\<^sup>*"

lemma reachable_steps: "node_steps ex tables n n' \<Longrightarrow> node_reachable ex tables n \<Longrightarrow> node_reachable ex tables n'"
  by (induction rule: rtranclp_induct) (auto intro: stepped)

lemma step_steps: "node_step ex tables n n1 \<Longrightarrow> node_steps ex tables n1 n2 \<Longrightarrow> node_steps ex tables n n2"
  by (rule converse_rtranclp_into_rtranclp)

text \<open>After a race there is no step of which the model knows anything.\<close>

lemma step_no_race: "node_step ex tables n n' \<Longrightarrow> \<not> nd_race n"
  by (induction rule: node_step.induct) simp_all

lemma steps_no_race: "node_steps ex tables n n' \<Longrightarrow> \<not> nd_race n' \<Longrightarrow> \<not> nd_race n"
  by (induction rule: converse_rtranclp_induct) (auto dest: step_no_race)

lemma one_step: "node_step ex tables n n1 \<Longrightarrow> node_steps ex tables n n1"
  by (rule r_into_rtranclp)

section \<open>The rounds of a thread\<close>

fun register_steps :: "registration list \<Rightarrow> handlers \<Rightarrow> handlers result" where
  "register_steps [] hs = Inr hs"
| "register_steps (a # as) hs = bindR (register_step a hs) (register_steps as)"

lemma register_text_steps: "register_text path content hs = register_steps (text_registrations path content) hs"
proof -
  have m: "bindR m (register_steps []) = m" for m :: "handlers result" by (cases m) simp_all
  show ?thesis
    by (cases "RegisterHttpRequestHandler_uri (Uri_new path) M_HEAD (Greetings content) (erase_handlers (Uri_new path) hs)")
      (simp_all add: register_text_def RegisterHttpRequestHandler_def text_registrations_def m)
qed

lemma registering_steps:
  "nd_main n = Registering as waited \<Longrightarrow> register_steps as (node_handlers n) = Inr hs \<Longrightarrow> \<not> table_read n \<Longrightarrow> \<not> nd_race n \<Longrightarrow>
    node_steps ex tables n (n\<lparr>nd_main := Registering [] waited, nd_cql := (nd_cql n)\<lparr>cs_handlers := hs\<rparr>\<rparr>)"
proof (induction as arbitrary: n)
  case (Cons a as)
  obtain h where h: "register_step a (node_handlers n) = Inr h" "register_steps as h = Inr hs"
    using Cons.prems(2) by (auto simp: bindR_eq_Inr)
  let ?n = "n\<lparr>nd_main := Registering as waited, nd_cql := (nd_cql n)\<lparr>cs_handlers := h\<rparr>\<rparr>"
  have 1: "node_step ex tables n ?n" using register [OF Cons.prems(1) h(1) Cons.prems(3,4)] .
  have "node_steps ex tables ?n (?n\<lparr>nd_main := Registering [] waited, nd_cql := (nd_cql ?n)\<lparr>cs_handlers := hs\<rparr>\<rparr>)"
    using h(2) Cons.prems(3,4) by (intro Cons.IH) (simp_all add: table_read_def)
  then show ?case using step_steps [OF 1] by simp
next
  case Nil
  then have "n\<lparr>nd_main := Registering [] waited, nd_cql := (nd_cql n)\<lparr>cs_handlers := hs\<rparr>\<rparr> = n" by (cases n) auto
  then show ?case by simp
qed

lemma serving_steps:
  "nd_main n = Serving evs \<Longrightarrow> server_events ex tables evs (nd_cql n) = Some (Running, s) \<Longrightarrow> nd_remote n = [] \<Longrightarrow> \<not> nd_race n \<Longrightarrow>
    node_steps ex tables n (n\<lparr>nd_main := Serving [], nd_cql := s\<rparr>)"
proof (induction evs arbitrary: n)
  case (Cons e evs)
  then obtain s1 where s1: "server_event ex tables e (nd_cql n) = Some (Running, s1)" "server_events ex tables evs s1 = Some (Running, s)"
    by (auto simp: server_events_def split: option.splits prod.splits outcome.splits)
  have 1: "node_step ex tables n (n\<lparr>nd_main := Serving evs, nd_cql := s1\<rparr>)" using serve [OF Cons.prems(1) s1(1)] Cons.prems(3,4) by simp
  show ?case
    using step_steps [OF 1] Cons.IH [of "n\<lparr>nd_main := Serving evs, nd_cql := s1\<rparr>"] s1(2) Cons.prems(3,4) by simp
next
  case Nil
  then have "n\<lparr>nd_main := Serving [], nd_cql := s\<rparr> = n" by (cases n) (auto simp: server_events_def)
  then show ?case by simp
qed

text \<open>
  A round of the CQL loop is one schedule of the process: when no request and no query of another node is in hand
  and the other threads do nothing meanwhile, the steps of the main thread from one \<^verbatim>\<open>epoll_wait\<close> to the
  next have the effect of the round.
\<close>

theorem round_scheduled:
  assumes "nd_main n = Waiting" "round_ok waited" "server_round ex tables waited (nd_cql n) = Some (Running, s)"
    and "\<not> table_read n" "nd_remote n = []" "\<not> nd_race n"
  shows "node_steps ex tables n (n\<lparr>nd_cql := s\<rparr>)"
proof -
  let ?as = "text_registrations ''/metrics'' (metrics_text (node_met n))"
  obtain hs evs where hs: "register_steps ?as (node_handlers n) = Inr hs" "waited = Some evs"
      "server_events ex tables evs ((nd_cql n)\<lparr>cs_handlers := hs\<rparr>) = Some (Running, s)"
    using assms(3) by (auto simp: server_round_def register_text_steps split: sum.splits option.splits)
  let ?n1 = "n\<lparr>nd_main := Registering ?as waited\<rparr>"
  let ?n2 = "n\<lparr>nd_main := Registering [] waited, nd_cql := (nd_cql n)\<lparr>cs_handlers := hs\<rparr>\<rparr>"
  let ?n3 = "?n2\<lparr>nd_main := Serving evs\<rparr>"
  let ?n4 = "?n3\<lparr>nd_main := Serving [], nd_cql := s\<rparr>"
  have 1: "node_steps ex tables n ?n1" using wait [OF assms(1,2,6)] by blast
  have 2: "node_steps ex tables ?n1 ?n2" using registering_steps [of ?n1 ?as waited hs ex tables] hs(1) assms(4,6) by (simp add: table_read_def)
  have 3: "node_steps ex tables ?n2 ?n3" using registered [of ?n2 evs ex tables] hs(2) assms(6) by (simp add: r_into_rtranclp)
  have 4: "node_steps ex tables ?n3 ?n4" using serving_steps [of ?n3 evs ex tables s] hs(3) assms(5,6) by simp
  have 5: "node_steps ex tables ?n4 (?n4\<lparr>nd_main := Waiting\<rparr>)" using served [of ?n4 ex tables] assms(6) by (simp add: r_into_rtranclp)
  have "?n4\<lparr>nd_main := Waiting\<rparr> = n\<lparr>nd_cql := s\<rparr>" using assms(1) by simp
  moreover from 1 2 have "node_steps ex tables n ?n2" by (rule rtranclp_trans)
  from this 3 have "node_steps ex tables n ?n3" by (rule rtranclp_trans)
  from this 4 have "node_steps ex tables n ?n4" by (rule rtranclp_trans)
  from this 5 have "node_steps ex tables n (?n4\<lparr>nd_main := Waiting\<rparr>)" by (rule rtranclp_trans)
  ultimately show ?thesis by argo
qed

definition reported :: "(event_data \<times> event_flags \<times> recv_result \<times> send_result) list \<Rightarrow> (event_data \<times> event_flags) list" where
  "reported evs = map (\<lambda>(d, flags, _). (d, flags)) evs"

lemma reported_simps [simp]: "reported [] = []" "reported ((d, flags, r, s) # evs) = (d, flags) # reported evs"
  by (simp_all add: reported_def)

text \<open>A worker begins and ends the handling of an event.\<close>

lemma event_steps:
  assumes "i < kThreadPoolSize" "nd_events n i = (d, flags) # evs" "nd_busy n i = None" "\<not> nd_race n" "recv_ok r" "send_ok d s"
    and "process_event (node_handlers n) d flags r s (node_worker n i) = (Inr (), w)"
  shows "node_steps ex tables n (n\<lparr>nd_events := (nd_events n)(i := evs), nd_http := set_worker i w (nd_http n)\<rparr>)"
proof -
  let ?n = "n\<lparr>nd_busy := (nd_busy n)(i := Some (r, s))\<rparr>"
  have 1: "node_step ex tables n ?n" using begin_work [OF assms(1-3,5,6,4)] .
  have 2: "node_step ex tables ?n (?n\<lparr>nd_events := (nd_events ?n)(i := evs), nd_busy := (nd_busy ?n)(i := None),
      nd_http := set_worker i w (nd_http ?n)\<rparr>)"
    using assms by (intro work [of i _ d flags evs r s]) simp_all
  have "?n\<lparr>nd_events := (nd_events ?n)(i := evs), nd_busy := (nd_busy ?n)(i := None), nd_http := set_worker i w (nd_http ?n)\<rparr> =
      n\<lparr>nd_events := (nd_events n)(i := evs), nd_http := set_worker i w (nd_http n)\<rparr>"
    using assms(3) by (cases n) (auto simp: fun_upd_idem)
  with step_steps [OF 1 one_step [OF 2]] show ?thesis by argo
qed

lemma working_steps:
  "i < kThreadPoolSize \<Longrightarrow> nd_events n i = reported evs \<Longrightarrow> nd_busy n i = None \<Longrightarrow> \<not> nd_race n \<Longrightarrow>
    list_all (\<lambda>(d, flags, r, s). recv_ok r \<and> send_ok d s) evs \<Longrightarrow> length (sv_workers (nd_http n)) = kThreadPoolSize \<Longrightarrow>
    process_events (node_handlers n) evs (node_worker n i) = (Inr (), w) \<Longrightarrow>
    node_steps ex tables n (n\<lparr>nd_events := (nd_events n)(i := []), nd_http := set_worker i w (nd_http n)\<rparr>)"
proof (induction evs arbitrary: n)
  case Nil
  then have "n\<lparr>nd_events := (nd_events n)(i := []), nd_http := set_worker i w (nd_http n)\<rparr> = n"
    by (cases n) (auto simp: fun_upd_idem)
  then show ?case by (simp only: rtranclp.rtrancl_refl)
next
  case (Cons e evs)
  obtain d flags r s where e: "e = (d, flags, r, s)" by (cases e)
  obtain w1 where w1: "process_event (node_handlers n) d flags r s (node_worker n i) = (Inr (), w1)"
      "process_events (node_handlers n) evs w1 = (Inr (), w)"
    using Cons.prems(7) unfolding e by (auto simp: bindC_def split: prod.splits sum.splits)
  let ?n = "n\<lparr>nd_events := (nd_events n)(i := reported evs), nd_http := set_worker i w1 (nd_http n)\<rparr>"
  have 1: "node_steps ex tables n ?n"
    using Cons.prems(1-5) e w1(1) by (intro event_steps [of i n d flags "reported evs" r s]) simp_all
  have "node_steps ex tables ?n (?n\<lparr>nd_events := (nd_events ?n)(i := []), nd_http := set_worker i w (nd_http ?n)\<rparr>)"
    using Cons.prems(1,3-6) w1(2) e by (intro Cons.IH) simp_all
  note 2 = rtranclp_trans [OF 1 this]
  have "?n\<lparr>nd_events := (nd_events ?n)(i := []), nd_http := set_worker i w (nd_http ?n)\<rparr> =
      n\<lparr>nd_events := (nd_events n)(i := []), nd_http := set_worker i w (nd_http n)\<rparr>" by simp
  with 2 show ?case by argo
qed

text \<open>A round of a worker is a schedule of the process, too.\<close>

theorem worker_round_scheduled:
  assumes "i < kThreadPoolSize" "nd_events n i = []" "server_ok (nd_http n)"
    and "batch_ok (node_worker n i) (reported evs)"
    and "list_all (\<lambda>(d, flags, r, s). recv_ok r \<and> send_ok d s) evs"
    and "ProcessEvents (node_handlers n) i (Some evs) (nd_http n) = Inr sv" "sv_running (nd_http n)" "nd_busy n i = None" "\<not> nd_race n"
  shows "node_steps ex tables n (n\<lparr>nd_http := sv\<rparr>)"
proof -
  let ?n = "n\<lparr>nd_events := (nd_events n)(i := reported evs)\<rparr>"
  obtain w where w: "process_events (node_handlers n) evs (node_worker n i) = (Inr (), w)" "sv = set_worker i w (nd_http n)"
    using assms(6,7) by (auto simp: ProcessEvents_def split: prod.splits sum.splits)
  have 1: "node_step ex tables n ?n" using poll [OF assms(1,2,4,9)] .
  have "node_steps ex tables ?n (?n\<lparr>nd_events := (nd_events ?n)(i := []), nd_http := set_worker i w (nd_http ?n)\<rparr>)"
    using assms(1,3,5,8,9) w(1) by (intro working_steps) (simp_all add: server_ok_def)
  moreover have "?n\<lparr>nd_events := (nd_events ?n)(i := []), nd_http := set_worker i w (nd_http ?n)\<rparr> = n\<lparr>nd_http := sv\<rparr>"
    using assms(2) w(2) by (cases n) (auto simp: fun_upd_idem)
  ultimately show ?thesis using step_steps [OF 1] by simp
qed

section \<open>What is answered\<close>

lemma to_string_int_length:
  assumes "- (2 ^ 31) \<le> v" "v < 2 ^ 31"
  shows "length (to_string_int v) \<le> 11"
proof -
  have "nat v < 10 ^ 10" "nat (- v) < 10 ^ 10" using assms by simp_all
  then have "length (to_string_nat (nat v)) \<le> 10" "length (to_string_nat (nat (- v))) \<le> 10"
    using to_string_nat_length [of _ 10] by simp_all
  then show ?thesis by (simp add: to_string_int_def)
qed

lemma metrics_text_length:
  assumes "length m = 8" "met_int m"
  shows "length (metrics_text m) \<le> 1000"
proof -
  have v: "length (to_string_int (m ! k)) \<le> 11" if "k < 8" for k
    using assms that to_string_int_length [of "m ! k"] by (simp add: met_int_def list_all_length)
  show ?thesis
    using v [of 0] v [of 1] v [of 2] v [of 3] v [of 4] v [of 5] v [of 6] v [of 7]
    by (simp add: metrics_text_def metric_text_def)
qed

lemma to_string_no_zero: "CHR 0x00 \<notin> set (to_string_nat n)" "CHR 0x00 \<notin> set (to_string_int v)"
proof -
  have "\<not> is_digit (CHR 0x00)" by code_simp
  then show "CHR 0x00 \<notin> set (to_string_nat n)" "CHR 0x00 \<notin> set (to_string_int v)"
    using to_string_nat_digits by (auto simp: to_string_int_def)
qed

lemma metrics_text_no_zero: "CHR 0x00 \<notin> set (metrics_text m)"
  by (simp add: metrics_text_def metric_text_def to_string_no_zero)

text \<open>The bytes of a response with a text.\<close>

definition text_response :: "string \<Rightarrow> bool \<Rightarrow> string" where
  "text_response content send_content =
     ''HTTP/1.1 200 OK'' @ crlf @ ''Content-Length: '' @ to_string_nat (length content) @ crlf @
     ''Content-Type: text/plain'' @ crlf @ crlf @ (if send_content then content else '''')"

lemma Greetings_printed: "response_to_string (Greetings content r) b = text_response content b"
proof -
  have "string_less ''Content-Length'' ''Content-Type'' = Inr True" "string_less ''Content-Type'' ''Content-Length'' = Inr False"
    "to_string_nat 200 = ''200''" "status_to_string Ok = ''OK''" by code_simp+
  then show ?thesis
    by (simp add: Greetings_def SetContent_def SetContentLength_def SetHeader_def HttpResponse_new_def response_to_string_def
        print_header_def text_response_def)
qed

lemma text_response_length: "length content \<le> 1000 \<Longrightarrow> length (text_response content b) \<le> 4096"
  using to_string_nat_length [of "length content" 4] by (simp add: text_response_def)

lemma text_response_no_zero: "CHR 0x00 \<notin> set content \<Longrightarrow> CHR 0x00 \<notin> set (text_response content b)"
  by (simp add: text_response_def to_string_no_zero)

text \<open>Eight metrics of 32 bits whose counters are not negative and not above those of another list.\<close>

definition met_upto :: "int list \<Rightarrow> int list \<Rightarrow> bool" where
  "met_upto m now \<longleftrightarrow> length m = 8 \<and> met_int m \<and> counters_ok m \<and> met_grows m now"

lemma met_upto_grows: "met_upto m now \<Longrightarrow> met_grows now later \<Longrightarrow> met_upto m later"
  using met_grows_trans unfolding met_upto_def by blast

lemma met_upto_text: "met_upto m now \<Longrightarrow> length (metrics_text m) \<le> 1000"
  by (simp add: met_upto_def metrics_text_length)

text \<open>What the table of handlers holds, whenever a worker looks.\<close>

definition published :: "int list \<Rightarrow> string \<Rightarrow> handler \<Rightarrow> bool" where
  "published now p cb \<longleftrightarrow> (p = ''/'' \<and> cb = Greetings ''GOTO /metrics'') \<or>
     (p = ''/metrics'' \<and> (\<exists>m. cb = Greetings (metrics_text m) \<and> met_upto m now))"

definition table_ok :: "int list \<Rightarrow> handlers \<Rightarrow> bool" where
  "table_ok now hs \<longleftrightarrow> handlers_ok hs \<and> (\<forall>p m cb. handler_of hs p m = Some cb \<longrightarrow> published now p cb)"

lemma table_ok_grows: "table_ok now hs \<Longrightarrow> met_grows now later \<Longrightarrow> table_ok later hs"
  unfolding table_ok_def published_def using met_upto_grows by meson

lemma table_ok_published: "table_ok now hs \<Longrightarrow> handler_of hs p m = Some cb \<Longrightarrow> published now p cb"
  by (simp add: table_ok_def)

lemma table_ok_erase: "table_ok now hs \<Longrightarrow> table_ok now (erase_handlers u hs)"
  by (auto simp: table_ok_def erase_eq split: if_splits)

lemma table_ok_put:
  assumes "table_ok now hs" "published now (ur_path u) cb" "RegisterHttpRequestHandler_uri u m cb hs = Inr hs'"
  shows "table_ok now hs'"
    "handler_of hs' p m' = (if p = ur_path u \<and> m' = m \<and> handler_of hs p m' = None then Some cb else handler_of hs p m')"
    "map_of hs' p = None \<longleftrightarrow> p \<noteq> ur_path u \<and> map_of hs p = None"
  using register_uri_eq [of hs u m cb] assms by (auto simp: table_ok_def split: if_splits)

lemma published_printed:
  assumes "published now p cb"
  shows "\<exists>content. response_to_string (cb r) b = text_response content b \<and> length content \<le> 1000 \<and> CHR 0x00 \<notin> set content"
  using assms
proof (unfold published_def, elim disjE conjE exE)
  fix m assume "cb = Greetings (metrics_text m)" "met_upto m now"
  then show ?thesis using Greetings_printed met_upto_text metrics_text_no_zero by blast
next
  assume "cb = Greetings ''GOTO /metrics''"
  then show ?thesis by (intro exI [of _ "''GOTO /metrics''"]) (simp add: Greetings_printed)
qed

text \<open>The answer to a request is an error message, or one of the two texts.\<close>

definition other_answers :: "string list" where
  "other_answers = map (\<lambda>(x, st). response_to_string (SetContent x (HttpResponse_new st)) True) error_answers @
     [response_to_string (HttpResponse_new st) b. st \<leftarrow> [NotFound, MethodNotAllowed], b \<leftarrow> [True, False]]"

lemma answer_request:
  "string_to_request s = Inr r \<Longrightarrow> answer hs s = (hr_method r, case handler_of hs (ur_path (hr_uri r)) (hr_method r) of
     Some cb \<Rightarrow> cb r
   | None \<Rightarrow> HttpResponse_new (if map_of hs (ur_path (hr_uri r)) = None then NotFound else MethodNotAllowed))"
  by (auto simp: answer_def handler_of_def split: option.splits)

lemma answer_cases:
  assumes "table_ok now hs"
  shows "answer_string hs s \<in> set other_answers \<or>
    (\<exists>content b. answer_string hs s = text_response content b \<and> length content \<le> 1000 \<and> CHR 0x00 \<notin> set content)"
proof (cases "string_to_request s")
  case (Inl e)
  then obtain x st where "(x, st) \<in> set error_answers" "catch_exception e = Some (SetContent x (HttpResponse_new st))"
    using error_answered by blast
  then show ?thesis using Inl by (force simp: answer_string_def answer_def other_answers_def)
next
  case (Inr r)
  let ?b = "hr_method r \<noteq> M_HEAD"
  show ?thesis
  proof (cases "handler_of hs (ur_path (hr_uri r)) (hr_method r)")
    case (Some cb)
    then show ?thesis
      using answer_request [OF Inr, of hs] published_printed [OF table_ok_published [OF assms Some], of r ?b]
      by (auto simp: answer_string_def)
  next
    case None
    then show ?thesis
      using answer_request [OF Inr, of hs] by (cases "hr_method r = M_HEAD") (simp_all add: answer_string_def other_answers_def)
  qed
qed

lemma other_answers_ok: "out \<in> set other_answers \<Longrightarrow> length out \<le> 4096 \<and> CHR 0x00 \<notin> set out"
proof -
  have "list_all (\<lambda>out. length out \<le> 4096 \<and> list_all (\<lambda>c. c \<noteq> CHR 0x00) out) other_answers" by code_simp
  then show "out \<in> set other_answers \<Longrightarrow> ?thesis" by (auto simp: list_all_iff)
qed

lemma answers_fit:
  assumes "table_ok now hs"
  shows "length (answer_string hs s) \<le> 4096 \<and> CHR 0x00 \<notin> set (answer_string hs s)"
  using answer_cases [OF assms, of s] other_answers_ok text_response_length text_response_no_zero by metis

lemma table_short: "table_ok now hs \<Longrightarrow> short_answers hs"
  using answers_fit by (auto simp: short_answers_def kMaxBufferSize_def)

section \<open>One worker\<close>

text \<open>What a step of a worker on one descriptor leaves alone.\<close>

definition touches_only :: "int \<Rightarrow> worker \<Rightarrow> worker \<Rightarrow> bool" where
  "touches_only fd w w' \<longleftrightarrow> (\<forall>fd'. fd' \<noteq> fd \<longrightarrow> wk_interest w' fd' = wk_interest w fd') \<and> (\<forall>fd'. wk_open w' fd' \<longrightarrow> wk_open w fd')"

lemma touches_only_refl [simp]: "touches_only fd w w"
  by (simp add: touches_only_def)

lemma control_touches: "control_epoll_event cop fd w = (x, w') \<Longrightarrow> touches_only fd w w'"
  by (cases cop) (auto simp: touches_only_def split: if_splits)

lemma drop_touches: "drop_connection fd w = (x, w') \<Longrightarrow> touches_only fd w w'"
  by (auto simp: touches_only_def drop_connection_def bindC_def sys_close_def split: if_splits)

lemma readable_touches:
  assumes "handle_readable hs d r w = (x, w')"
  shows "touches_only (ed_fd d) w w'"
proof (cases r)
  case (Received bs)
  then show ?thesis
    using assms control_touches [of _ "ed_fd d" w x w']
    by (auto simp: handle_readable_def bindC_def simp del: control_epoll_event.simps split: sum.splits)
qed (use assms control_touches drop_touches in \<open>auto simp: handle_readable_def simp del: control_epoll_event.simps\<close>)

lemma writable_touches:
  assumes "handle_writable d s w = (x, w')"
  shows "touches_only (ed_fd d) w w'"
proof (cases s)
  case (Sent k)
  let ?w = "w\<lparr>wk_sent := (wk_sent w)(ed_fd d := wk_sent w (ed_fd d) @ take k (drop (unat (ed_cursor d)) (ed_buffer d)))\<rparr>"
  have t: "touches_only (ed_fd d) ?w w' \<Longrightarrow> touches_only (ed_fd d) w w'" by (simp add: touches_only_def)
  show ?thesis
    using assms Sent t control_touches [of _ "ed_fd d" ?w x w']
    by (auto simp: handle_writable_def Let_def simp del: control_epoll_event.simps split: if_splits)
qed (use assms control_touches drop_touches in
    \<open>auto simp: handle_writable_def Let_def simp del: control_epoll_event.simps split: if_splits\<close>)

lemma process_event_touches: "process_event hs d flags r s w = (x, w') \<Longrightarrow> touches_only (ed_fd d) w w'"
  using readable_touches writable_touches drop_touches
  by (auto simp: process_event_def HandleEpollEvent_def split: event_flags.splits if_splits)

lemma batch_ok_touches:
  assumes "batch_ok w evs" "touches_only fd w w'" "fd \<notin> set (map (ed_fd \<circ> fst) evs)"
  shows "batch_ok w' evs"
  using assms by (fastforce simp: batch_ok_def touches_only_def list_all_iff)

section \<open>The invariant\<close>

text \<open>
  Where the main thread is: the registrations it still has to make are the last ones of the round, the path has no handler
  while it is about to insert one, only \<^verbatim>\<open>HEAD\<close> has one between the two pairs, and when it has made them all
  the metrics are those published.
\<close>

fun main_ok :: "int list \<Rightarrow> handlers \<Rightarrow> main_at \<Rightarrow> bool" where
  "main_ok now hs Waiting = True"
| "main_ok now hs (Registering as waited) =
     (round_ok waited \<and> suffix as (text_registrations ''/metrics'' (metrics_text now)) \<and>
      (odd (length as) \<longrightarrow> map_of hs ''/metrics'' = None) \<and>
      (length as = 2 \<longrightarrow> map_of hs ''/metrics'' \<noteq> None \<and> handler_of hs ''/metrics'' M_GET = None) \<and>
      (as = [] \<longrightarrow> handler_of hs ''/metrics'' M_GET = Some (Greetings (metrics_text now))))"
| "main_ok now hs (Serving evs) =
     (list_all event_ok evs \<and> (\<exists>m. handler_of hs ''/metrics'' M_GET = Some (Greetings (metrics_text m)) \<and> met_upto m now))"

text \<open>
  The workers of the endpoint: each is well formed, what it has been told of is registered with it, and no descriptor
  belongs to two of them.
\<close>

definition workers_ok :: "http_server \<Rightarrow> (nat \<Rightarrow> (event_data \<times> event_flags) list) \<Rightarrow> bool" where
  "workers_ok sv evs \<longleftrightarrow> server_ok sv \<and>
     (\<forall>i < kThreadPoolSize. worker_ok (sv_workers sv ! i) \<and> batch_ok (sv_workers sv ! i) (evs i)) \<and>
     (\<forall>i < kThreadPoolSize. \<forall>j < kThreadPoolSize. \<forall>fd. wk_open (sv_workers sv ! i) fd \<longrightarrow> wk_open (sv_workers sv ! j) fd \<longrightarrow> i = j)"

definition node_ok :: "'w node \<Rightarrow> bool" where
  "node_ok n \<longleftrightarrow> server_inv (nd_cql n) \<and> met_upto (node_met n) (node_met n) \<and> table_ok (node_met n) (node_handlers n) \<and>
     main_ok (node_met n) (node_handlers n) (nd_main n) \<and> workers_ok (nd_http n) (nd_events n) \<and>
     (\<forall>i. nd_events n i = [] \<longrightarrow> nd_busy n i = None)"

lemma metrics_path [simp]: "ur_path (Uri_new ''/metrics'') = ''/metrics''"
  by (simp add: Uri_new_def) code_simp

lemma register_step_ok:
  assumes "main_ok now hs (Registering (a # as) waited)" "table_ok now hs" "met_upto now now" "register_step a hs = Inr hs'"
  shows "table_ok now hs' \<and> main_ok now hs' (Registering as waited)"
proof -
  let ?g = "Greetings (metrics_text now)"
  have p: "published now ''/metrics'' ?g" using assms(3) by (auto simp: published_def)
  have hok: "handlers_ok hs" using assms(2) by (simp add: table_ok_def)
  note put = table_ok_put [OF assms(2), of "Uri_new ''/metrics''" ?g, unfolded metrics_path, OF p]
  have as: "suffix (a # as) (text_registrations ''/metrics'' (metrics_text now))" "round_ok waited"
      "odd (length (a # as)) \<Longrightarrow> map_of hs ''/metrics'' = None"
      "odd (length (a # as)) \<Longrightarrow> handler_of hs ''/metrics'' m = None" for m
    using assms(1) by (simp_all add: handler_of_def)
  have suf: "suffix as (text_registrations ''/metrics'' (metrics_text now))" using as(1) by (rule suffix_ConsD)
  consider "a = Erase ''/metrics''" "as = [Put ''/metrics'' M_HEAD ?g, Erase ''/metrics'', Put ''/metrics'' M_GET ?g]"
    | "a = Put ''/metrics'' M_HEAD ?g" "as = [Erase ''/metrics'', Put ''/metrics'' M_GET ?g]"
    | "a = Erase ''/metrics''" "as = [Put ''/metrics'' M_GET ?g]"
    | "a = Put ''/metrics'' M_GET ?g" "as = []"
    using as(1) by (auto simp: text_registrations_def suffix_Cons)
  then show ?thesis
  proof cases
    case 1
    then show ?thesis using assms(4) suf as(2) table_ok_erase [OF assms(2)] erase_eq(2) [OF hok] by auto
  next
    case 2
    then show ?thesis using assms(4) suf as(2,4) put by simp
  next
    case 3
    then show ?thesis using assms(4) suf as(2) table_ok_erase [OF assms(2)] erase_eq(2) [OF hok] by auto
  next
    case 4
    then show ?thesis using assms(4) suf as(2,4) put by simp
  qed
qed

lemma workers_ok_update:
  assumes "workers_ok sv evs" "i < kThreadPoolSize" "worker_ok w" "batch_ok w es"
    "\<And>fd j. wk_open w fd \<Longrightarrow> j < kThreadPoolSize \<Longrightarrow> j \<noteq> i \<Longrightarrow> \<not> wk_open (sv_workers sv ! j) fd"
  shows "workers_ok (set_worker i w sv) (evs(i := es))"
proof -
  have sv: "server_ok sv" "\<And>j. j < kThreadPoolSize \<Longrightarrow> worker_ok (sv_workers sv ! j) \<and> batch_ok (sv_workers sv ! j) (evs j)"
      "\<And>j k fd. j < kThreadPoolSize \<Longrightarrow> k < kThreadPoolSize \<Longrightarrow> wk_open (sv_workers sv ! j) fd \<Longrightarrow> wk_open (sv_workers sv ! k) fd \<Longrightarrow> j = k"
    using assms(1) unfolding workers_ok_def by blast+
  have nth: "sv_workers (set_worker i w sv) ! j = (if j = i then w else sv_workers sv ! j)" if "j < kThreadPoolSize" for j
    using that assms(2) sv(1) by (simp add: server_ok_def nth_list_update)
  have "server_ok (set_worker i w sv)" using sv(1) by (simp add: server_ok_def)
  moreover have "worker_ok (sv_workers (set_worker i w sv) ! j) \<and> batch_ok (sv_workers (set_worker i w sv) ! j) ((evs(i := es)) j)"
    if "j < kThreadPoolSize" for j
    unfolding nth [OF that] using sv(2) [OF that] assms(3,4) by simp
  moreover have "j = k" if "j < kThreadPoolSize" "k < kThreadPoolSize" "wk_open (sv_workers (set_worker i w sv) ! j) fd"
      "wk_open (sv_workers (set_worker i w sv) ! k) fd" for j k fd
    using that(3,4) assms(5) [of fd] sv(3) [OF that(1,2)] that(1,2) unfolding nth [OF that(1)] nth [OF that(2)]
    by (cases "j = i"; cases "k = i") auto
  ultimately show ?thesis unfolding workers_ok_def by blast
qed

lemma listen_workers_ok:
  assumes "Listen fd sv = Inr sv'" "workers_ok sv evs" "\<And>i. i < kThreadPoolSize \<Longrightarrow> \<not> wk_open (sv_workers sv ! i) fd"
    and "handlers_ok hs" "short_answers hs"
  shows "workers_ok sv' evs"
proof (cases "fd < 0 \<or> \<not> sv_running sv")
  case False
  let ?c = "sv_current_worker sv"
  have c: "?c < kThreadPoolSize" "worker_ok (sv_workers sv ! ?c)" "batch_ok (sv_workers sv ! ?c) (evs ?c)"
    using assms(2) by (auto simp: workers_ok_def server_ok_def)
  obtain w where w: "accept_connection fd (sv_workers sv ! ?c) = (Inr (), w)"
      "sv' = (set_worker ?c w sv)\<lparr>sv_current_worker := (if Suc ?c = kThreadPoolSize then 0 else Suc ?c)\<rparr>"
    using assms(1) False by (auto simp: Listen_def Let_def split: prod.splits sum.splits)
  have "worker_ok w" using worker_step_ok [OF worker_step.accept [OF assms(3) [OF c(1)] w(1)] c(2) assms(4,5)] .
  moreover have "wk_interest (sv_workers sv ! ?c) fd = None"
    using worker_okD [OF c(2), of fd] assms(3) [OF c(1)] by (cases "wk_interest (sv_workers sv ! ?c) fd") auto
  then have "batch_ok w (evs ?c)" "wk_open w fd' \<Longrightarrow> fd' = fd \<or> wk_open (sv_workers sv ! ?c) fd'" for fd'
    using c(3) w(1) by (force simp: accept_connection_def batch_ok_def list_all_iff split: if_splits)+
  moreover from this have "\<not> wk_open (sv_workers sv ! j) fd'" if "wk_open w fd'" "j < kThreadPoolSize" "j \<noteq> ?c" for fd' j
    using that assms(2,3) c(1) unfolding workers_ok_def by blast
  ultimately have "workers_ok (set_worker ?c w sv) (evs(?c := evs ?c))" by (intro workers_ok_update [OF assms(2) c(1)])
  then show ?thesis by (auto simp: w(2) workers_ok_def server_ok_def kThreadPoolSize_def)
qed (use assms(1,2) in \<open>auto simp: Listen_def\<close>)

lemma work_workers_ok:
  assumes "workers_ok sv evs" "i < kThreadPoolSize" "evs i = (d, flags) # es" "handlers_ok hs" "short_answers hs"
    and "process_event hs d flags r s (sv_workers sv ! i) = (Inr (), w)"
  shows "workers_ok (set_worker i w sv) (evs(i := es))"
proof -
  have w: "worker_ok (sv_workers sv ! i)" "batch_ok (sv_workers sv ! i) (evs i)" using assms(1,2) by (auto simp: workers_ok_def)
  then obtain k where k: "wk_interest (sv_workers sv ! i) (ed_fd d) = Some (k, d)" "flags_ok k flags"
    using assms(3) by (auto simp: batch_ok_def)
  note t = process_event_touches [OF assms(6)]
  have "batch_ok w es" using w(2) assms(3) by (intro batch_ok_touches [OF _ t]) (auto simp: batch_ok_def)
  moreover have "worker_ok w" using process_event_ok [OF w(1) assms(4,5) k assms(6)] .
  moreover have "\<not> wk_open (sv_workers sv ! j) fd" if "wk_open w fd" "j < kThreadPoolSize" "j \<noteq> i" for fd j
    using that t assms(1,2) unfolding workers_ok_def touches_only_def by blast
  ultimately show ?thesis by (intro workers_ok_update [OF assms(1,2)])
qed

lemma main_ok_grows:
  assumes "main_ok now hs (Serving evs)" "met_grows now later"
  shows "main_ok later hs (Serving evs)"
  using assms met_upto_grows by fastforce

lemma node_step_ok:
  assumes "node_step ex tables n n'" "node_ok n" "\<not> nd_race n'"
  shows "node_ok n'"
proof -
  have n: "server_inv (nd_cql n)" "met_upto (node_met n) (node_met n)" "table_ok (node_met n) (node_handlers n)"
      "main_ok (node_met n) (node_handlers n) (nd_main n)" "workers_ok (nd_http n) (nd_events n)" "handlers_ok (node_handlers n)"
      "\<And>i. nd_events n i = [] \<Longrightarrow> nd_busy n i = None"
    using assms(2) by (auto simp: node_ok_def table_ok_def)
  note short = table_short [OF n(3)]
  show ?thesis
    using assms(1)
  proof cases
    case (wait waited)
    then show ?thesis using n by (simp add: node_ok_def text_registrations_def)
  next
    case (register a as waited hs)
    then show ?thesis
      using n(1,5,7) register_step_ok [OF n(4) [unfolded register(2)] n(3,2) register(3)] n(2)
      by (auto simp: node_ok_def server_inv_def table_ok_def)
  next
    case (registered evs)
    then show ?thesis using n by (auto simp: node_ok_def round_ok_def)
  next
    case (serve e evs s)
    have "advances (nd_cql n) s" using server_event_advances [OF _ serve(3)] n(4) serve(2) by simp
    then have s: "server_inv s" "met_grows (node_met n) (cq_met (cs_cql s))" "cs_handlers s = node_handlers n"
      using n(1) server_event_handlers [OF serve(3)] by (simp_all add: advances_def)
    have "main_ok (node_met n) (node_handlers n) (Serving evs)" using n(4) serve(2) by auto
    moreover have "met_upto (cq_met (cs_cql s)) (cq_met (cs_cql s))"
      using n(2) s counters_ok_grows by (auto simp: met_upto_def met_grows_def server_inv_def)
    ultimately show ?thesis
      using s n(5,7) main_ok_grows table_ok_grows [OF n(3) s(2)] unfolding serve(1) by (simp add: node_ok_def del: main_ok.simps)
  next
    case served
    then show ?thesis using n by (simp add: node_ok_def)
  next
    case (listen fd sv)
    then show ?thesis using n listen_workers_ok [OF listen(2) n(5) listen(3) n(6) short] by (simp add: node_ok_def)
  next
    case (poll i evs)
    then show ?thesis using n by (auto simp: node_ok_def workers_ok_def)
  next
    case (begin_work i d flags evs r s)
    then show ?thesis using n by (auto simp: node_ok_def)
  next
    case (work i d flags evs r s w)
    then show ?thesis using n work_workers_ok [OF n(5) work(2,3) n(6) short work(5)] by (simp add: node_ok_def)
  next
    case (begin_remote query)
    then show ?thesis using n by (simp add: node_ok_def)
  next
    case (remote query res p)
    then show ?thesis using n by (simp add: node_ok_def server_inv_def)
  next
    case race
    then show ?thesis using assms(3) by simp
  qed
qed

section \<open>Reachable nodes\<close>

lemma register_text_table:
  assumes "table_ok now hs" "published now (map tolower path) (Greetings content)" "register_text path content hs = Inr hs'"
  shows "table_ok now hs'"
proof -
  let ?u = "Uri_new path"
  have p: "published now (ur_path ?u) (Greetings content)" using assms(2) by (simp add: Uri_new_def)
  obtain h1 where h1: "RegisterHttpRequestHandler_uri ?u M_HEAD (Greetings content) (erase_handlers ?u hs) = Inr h1"
      "RegisterHttpRequestHandler_uri ?u M_GET (Greetings content) (erase_handlers ?u h1) = Inr hs'"
    using assms(3) by (auto simp: register_text_def RegisterHttpRequestHandler_def bindR_eq_Inr)
  have "table_ok now h1" using table_ok_put(1) [OF table_ok_erase [OF assms(1)] p h1(1)] .
  then show ?thesis using table_ok_put(1) [OF table_ok_erase p h1(2)] by blast
qed

lemma prom_start_node:
  assumes "prom_start prom_port su = Inr (hs, sv)"
  shows "table_ok now hs" "workers_ok sv (\<lambda>_. [])"
proof -
  obtain a b c created sv0 where su: "su_prom su = (a, b, c, created)" "register_text ''/'' ''GOTO /metrics'' [] = Inr hs"
      "Start a b c created sv0 = Inr sv"
    using assms by (cases "su_prom su") (auto simp: prom_start_def bindR_eq_Inr)
  have "map tolower ''/'' = ''/''" by code_simp
  then have p: "published now (map tolower ''/'') (Greetings ''GOTO /metrics'')" by (simp add: published_def)
  have "table_ok now []" using no_handlers_ok by (simp add: table_ok_def handler_of_def)
  then show "table_ok now hs" using register_text_table [OF _ p su(2)] by blast
  obtain ws where ws: "SetUpEpoll (map created [0..<kThreadPoolSize]) = Inr ws"
      "sv = sv0\<lparr>sv_running := True, sv_workers := ws, sv_current_worker := 0\<rparr>"
    using su(3) by (auto simp: Start_def bindR_eq_Inr split: if_splits)
  have all: "SetUpEpoll bs = Inr us \<Longrightarrow> us = replicate (length bs) worker_start" for bs us
    by (induction bs arbitrary: us) (auto simp: bindR_eq_Inr worker_start_def split: if_splits)
  have "ws = replicate kThreadPoolSize worker_start" using all [OF ws(1)] by simp
  moreover have "0 < kThreadPoolSize" "worker_ok worker_start" "batch_ok worker_start []" "\<not> wk_open worker_start fd" for fd
    by (simp_all add: kThreadPoolSize_def worker_ok_def batch_ok_def worker_start_def)
  ultimately show "workers_ok sv (\<lambda>_. [])" by (simp add: ws(2) workers_ok_def server_ok_def)
qed

lemma reachable_node_ok: "node_reachable ex tables n \<Longrightarrow> \<not> nd_race n \<Longrightarrow> node_ok n"
proof (induction rule: node_reachable.induct)
  case (booted prom_port su junk fd p s hs sv)
  have s: "server_inv s" "cq_met (cs_cql s) = [0, 0, 0, 0, 0, 0, 0, 0]"
    using Server_start_inv [OF booted(1,2)] .
  have "cs_handlers s = hs" using booted(1,3) by (auto simp: Server_start_def split: option.splits sum.splits)
  moreover have "met_upto (cq_met (cs_cql s)) (cq_met (cs_cql s))"
    by (simp add: s(2) met_upto_def met_int_def counters_ok_def nth_Cons')
  ultimately show ?case using s(1) prom_start_node [OF booted(3)] by (simp add: node_ok_def)
next
  case (stepped n n')
  then show ?case using node_step_ok step_no_race by blast
qed

lemma reachable_worker:
  assumes "node_reachable ex tables n" "\<not> nd_race n" "i < kThreadPoolSize"
  shows "worker_ok (node_worker n i)" "batch_ok (node_worker n i) (nd_events n i)" "handlers_ok (node_handlers n)"
    "table_ok (node_met n) (node_handlers n)"
  using reachable_node_ok [OF assms(1,2)] assms(3) by (auto simp: node_ok_def workers_ok_def table_ok_def)

text \<open>
  Property C7. In every state the process reaches, under every interleaving of the steps of its threads, as long as no
  change of the table of handlers by the main thread fell into the handling of a request by a worker, and no use of
  the keyspaces into the execution of another node's query: the buffers and metrics have their sizes, no counter is
  negative, every metric fits 32 bits, the table of handlers is well formed and holds nothing but the two texts, every
  answer fits the buffer of a connection, no descriptor belongs to two workers; and whatever event a worker has next
  is about an open connection, and is handled without an error and without leaving the buffer, unless the request
  fills the buffer or the send would block.
\<close>

theorem node_safe:
  assumes "node_reachable ex tables n" "\<not> nd_race n"
  shows "node_ok n \<and> short_answers (node_handlers n) \<and>
    (\<forall>i d flags evs. i < kThreadPoolSize \<longrightarrow> nd_events n i = (d, flags) # evs \<longrightarrow> wk_open (node_worker n i) (ed_fd d) \<and>
      (\<forall>r s. (\<forall>bs. r = Received bs \<longrightarrow> bs \<noteq> [] \<and> length bs < kMaxBufferSize) \<longrightarrow> s \<noteq> SendAgain \<longrightarrow>
        (\<exists>w'. process_event (node_handlers n) d flags r s (node_worker n i) = (Inr (), w') \<and> worker_ok w')))"
proof -
  have ok: "node_ok n" using reachable_node_ok [OF assms] .
  then have short: "short_answers (node_handlers n)" using table_short by (auto simp: node_ok_def)
  have "wk_open (node_worker n i) (ed_fd d) \<and>
      (\<exists>w'. process_event (node_handlers n) d flags r s (node_worker n i) = (Inr (), w') \<and> worker_ok w')"
    if i: "i < kThreadPoolSize" "nd_events n i = (d, flags) # evs"
      and r: "\<And>bs. r = Received bs \<Longrightarrow> bs \<noteq> [] \<and> length bs < kMaxBufferSize" "s \<noteq> SendAgain" for i d flags evs r s
  proof -
    note w = reachable_worker [OF assms i(1)]
    obtain k where k: "wk_interest (node_worker n i) (ed_fd d) = Some (k, d)" "flags_ok k flags"
      using w(2) i(2) by (auto simp: batch_ok_def)
    show ?thesis using event_handled [OF w(1,3) short k r] by blast
  qed
  from this [of _ _ _ _ RecvAgain SendError] this show ?thesis using ok short by blast
qed

section \<open>Rounds and what they publish\<close>

text \<open>The number of rounds that the main thread began between two states.\<close>

inductive rounds_since :: "('c, 'w) externals \<Rightarrow> meta_tables \<Rightarrow> nat \<Rightarrow> 'w node \<Rightarrow> 'w node \<Rightarrow> bool" for ex tables where
  no_round: "rounds_since ex tables 0 n n"
| next_round: "rounds_since ex tables k n1 n \<Longrightarrow> node_step ex tables n n' \<Longrightarrow> nd_main n = Waiting \<Longrightarrow> nd_main n' \<noteq> Waiting \<Longrightarrow>
    rounds_since ex tables (Suc k) n1 n'"
| same_round: "rounds_since ex tables k n1 n \<Longrightarrow> node_step ex tables n n' \<Longrightarrow> (nd_main n = Waiting \<longrightarrow> nd_main n' = Waiting) \<Longrightarrow>
    rounds_since ex tables k n1 n'"

text \<open>
  Metrics the process had: they are those of a state in which the main thread waited, and since then it began
  \<open>k\<close> rounds. With \<open>k = 1\<close> they are the metrics with which the present round began, with \<open>k = 2\<close>
  those of the round before.
\<close>

definition fresh :: "('c, 'w) externals \<Rightarrow> meta_tables \<Rightarrow> nat \<Rightarrow> 'w node \<Rightarrow> int list \<Rightarrow> bool" where
  "fresh ex tables k n m \<longleftrightarrow>
     (\<exists>n1. node_reachable ex tables n1 \<and> nd_main n1 = Waiting \<and> node_met n1 = m \<and> rounds_since ex tables k n1 n)"

lemma fresh_same: "fresh ex tables k n m \<Longrightarrow> node_step ex tables n n' \<Longrightarrow> (nd_main n = Waiting \<longrightarrow> nd_main n' = Waiting) \<Longrightarrow> fresh ex tables k n' m"
  unfolding fresh_def using same_round by blast

lemma fresh_next: "fresh ex tables k n m \<Longrightarrow> node_step ex tables n n' \<Longrightarrow> nd_main n = Waiting \<Longrightarrow> nd_main n' \<noteq> Waiting \<Longrightarrow> fresh ex tables (Suc k) n' m"
  unfolding fresh_def using next_round by blast

lemma fresh_now: "node_reachable ex tables n \<Longrightarrow> nd_main n = Waiting \<Longrightarrow> fresh ex tables 0 n (node_met n)"
  unfolding fresh_def using no_round by blast

text \<open>Counters do not decrease from the one state to the other.\<close>

lemma node_step_grows:
  assumes "node_step ex tables n n'" "node_ok n" "\<not> nd_race n'"
  shows "met_grows (node_met n) (node_met n')"
  using assms(1)
proof cases
  case (serve e evs s)
  have "main_ok (node_met n) (node_handlers n) (Serving (e # evs))" "server_inv (nd_cql n)"
    using assms(2) serve(2) by (simp_all add: node_ok_def)
  then have "advances (nd_cql n) s" using server_event_advances [OF _ serve(3)] by simp
  then show ?thesis using assms(2) serve(1) by (simp add: advances_def node_ok_def)
next
  case race
  then show ?thesis using assms(3) by simp
qed simp_all

lemma rounds_since_steps: "rounds_since ex tables k n1 n \<Longrightarrow> node_steps ex tables n1 n"
  by (induction rule: rounds_since.induct) (auto intro: rtranclp.rtrancl_into_rtrancl)

lemma node_steps_grow:
  assumes "node_steps ex tables n1 n" "node_reachable ex tables n1" "\<not> nd_race n"
  shows "met_grows (node_met n1) (node_met n)"
  using assms(1,3)
proof (induction rule: rtranclp_induct)
  case (step n2 n3)
  have n2: "\<not> nd_race n2" using step_no_race [OF step(2)] .
  have "node_ok n2" using reachable_node_ok [OF reachable_steps [OF step(1) assms(2)] n2] .
  from node_step_grows [OF step(2) this step(4)] show ?case using step(3) [OF n2] met_grows_trans by blast
qed simp

lemma fresh_upto:
  assumes "fresh ex tables k n m" "\<not> nd_race n"
  shows "met_upto m (node_met n)"
proof -
  obtain n1 where n1: "node_reachable ex tables n1" "node_met n1 = m" "node_steps ex tables n1 n"
    using assms(1) rounds_since_steps unfolding fresh_def by blast
  have "node_ok n1" using reachable_node_ok [OF n1(1) steps_no_race [OF n1(3) assms(2)]] .
  then show ?thesis
    using met_upto_grows node_steps_grow [OF n1(3,1) assms(2)] n1(2) by (auto simp: node_ok_def)
qed

text \<open>The text is the one of the round before until the first erasure of the round.\<close>

fun rounds_back :: "main_at \<Rightarrow> nat" where
  "rounds_back (Registering as waited) = (if length as = 4 then 2 else 1)"
| "rounds_back _ = 1"

definition published_fresh :: "('c, 'w) externals \<Rightarrow> meta_tables \<Rightarrow> 'w node \<Rightarrow> bool" where
  "published_fresh ex tables n \<longleftrightarrow>
     (\<forall>cb. handler_of (node_handlers n) ''/metrics'' M_GET = Some cb \<longrightarrow>
        (\<exists>m. cb = Greetings (metrics_text m) \<and> fresh ex tables (rounds_back (nd_main n)) n m)) \<and>
     (\<forall>as waited. nd_main n = Registering as waited \<longrightarrow> fresh ex tables 1 n (node_met n))"

lemma registering_length:
  assumes "main_ok now hs (Registering as waited)"
  shows "length as \<le> 4"
  using suffix_length_le [of as "text_registrations ''/metrics'' (metrics_text now)"] assms by (simp add: text_registrations_def)

lemma registering_get:
  assumes "main_ok now hs (Registering as waited)" "length as \<noteq> 4"
  shows "handler_of hs ''/metrics'' M_GET = (if as = [] then Some (Greetings (metrics_text now)) else None)"
proof -
  have "length as = 0 \<or> length as = 1 \<or> length as = 2 \<or> length as = 3" using registering_length [OF assms(1)] assms(2) by linarith
  then have "as = [] \<or> odd (length as) \<or> length as = 2" by auto
  then show ?thesis using assms(1) by (auto simp: handler_of_def)
qed

lemma published_fresh_same:
  assumes "published_fresh ex tables n" "node_step ex tables n n'" "nd_main n' = nd_main n" "node_met n' = node_met n"
    and "node_handlers n' = node_handlers n"
  shows "published_fresh ex tables n'"
  using assms(1,3-5) fresh_same [OF _ assms(2)] unfolding published_fresh_def by metis

lemma node_step_fresh:
  assumes "node_step ex tables n n'" "node_reachable ex tables n" "\<not> nd_race n'" "published_fresh ex tables n"
  shows "published_fresh ex tables n'"
proof -
  note same = published_fresh_same [OF assms(4,1)]
  have ok: "node_ok n" using reachable_node_ok [OF assms(2) step_no_race [OF assms(1)]] .
  from node_step_ok [OF assms(1) ok assms(3)]
  have ok': "main_ok (node_met n') (node_handlers n') (nd_main n')" by (simp add: node_ok_def)
  have get: "\<exists>m. cb = Greetings (metrics_text m) \<and> fresh ex tables (rounds_back (nd_main n)) n m"
    if "handler_of (node_handlers n) ''/metrics'' M_GET = Some cb" for cb
    using assms(4) that by (simp add: published_fresh_def)
  show ?thesis
    using assms(1)
  proof cases
    case (wait waited)
    have w: "nd_main n' \<noteq> Waiting" "rounds_back (nd_main n') = Suc (rounds_back (nd_main n))"
      by (simp_all add: wait text_registrations_def)
    have "fresh ex tables (Suc 0) n' (node_met n)" using fresh_next [OF fresh_now [OF assms(2) wait(2)] assms(1) wait(2) w(1)] .
    moreover have "fresh ex tables (rounds_back (nd_main n')) n' m" if "fresh ex tables (rounds_back (nd_main n)) n m" for m
      unfolding w(2) using fresh_next [OF that assms(1) wait(2) w(1)] .
    moreover have h: "node_handlers n' = node_handlers n" "node_met n' = node_met n" by (simp_all add: wait(1))
    ultimately show ?thesis using get unfolding published_fresh_def h One_nat_def by blast
  next
    case (register a as waited hs)
    have f: "fresh ex tables 1 n' (node_met n)"
      using assms(4) register(2) by (intro fresh_same [OF _ assms(1)]) (simp_all add: published_fresh_def)
    have n': "nd_main n' = Registering as waited" "node_met n' = node_met n" by (simp_all add: register(1))
    have "main_ok (node_met n) (node_handlers n) (Registering (a # as) waited)" using ok register(2) by (simp add: node_ok_def)
    from registering_length [OF this] have l: "length as \<noteq> 4" by simp
    show ?thesis
      using registering_get [OF ok' [unfolded n'(1)] l] f n' l by (auto simp: published_fresh_def split: if_splits)
  next
    case (registered evs)
    then show ?thesis using get fresh_same [OF _ assms(1)] by (fastforce simp: published_fresh_def)
  next
    case (serve e evs s)
    then show ?thesis
      using get fresh_same [OF _ assms(1)] server_event_handlers [OF serve(3)] by (fastforce simp: published_fresh_def)
  next
    case served
    then show ?thesis using get fresh_same [OF _ assms(1)] by (fastforce simp: published_fresh_def)
  next
    case race
    then show ?thesis using assms(3) by simp
  qed (rule same; simp)+
qed

lemma register_text_other:
  assumes "register_text path content hs = Inr hs'" "handlers_ok hs" "p \<noteq> map tolower path"
  shows "handler_of hs' p m = handler_of hs p m"
proof -
  let ?u = "Uri_new path"
  have p: "p \<noteq> ur_path ?u" using assms(3) by (simp add: Uri_new_def)
  have put: "handlers_ok h2 \<and> handler_of h2 p m = handler_of h1 p m"
    if "RegisterHttpRequestHandler_uri ?u k cb (erase_handlers ?u h1) = Inr h2" "handlers_ok h1" for h1 h2 k cb
    using that register_uri_eq [OF erase_eq(1) [OF that(2)], of ?u k cb ?u] erase_eq(3) [OF that(2), of ?u p m] p by auto
  then show ?thesis using assms(1,2) by (auto simp: register_text_def RegisterHttpRequestHandler_def bindR_eq_Inr)
qed

lemma reachable_fresh: "node_reachable ex tables n \<Longrightarrow> \<not> nd_race n \<Longrightarrow> published_fresh ex tables n"
proof (induction rule: node_reachable.induct)
  case (booted prom_port su junk fd p s hs sv)
  have "cs_handlers s = hs" using booted(1,3) by (auto simp: Server_start_def split: option.splits sum.splits)
  moreover have "register_text ''/'' ''GOTO /metrics'' [] = Inr hs"
    using booted(3) by (cases "su_prom su") (auto simp: prom_start_def bindR_eq_Inr)
  moreover have "''/metrics'' \<noteq> map tolower ''/''" by code_simp
  ultimately show ?case
    using register_text_other [of "''/''" "''GOTO /metrics''" "[]" hs "''/metrics''" M_GET] no_handlers_ok
    by (simp add: published_fresh_def handler_of_def)
next
  case (stepped n n')
  then show ?case using node_step_fresh step_no_race by blast
qed

section \<open>Scraping\<close>

text \<open>Once the metrics have been published, they are, but for the time between the first erasure and the last insertion of a round.\<close>

definition metrics_published :: "'w node \<Rightarrow> bool" where
  "metrics_published n \<longleftrightarrow> (case nd_main n of
       Registering as waited \<Rightarrow> length as = 4 \<longrightarrow> handler_of (node_handlers n) ''/metrics'' M_GET \<noteq> None
     | _ \<Rightarrow> handler_of (node_handlers n) ''/metrics'' M_GET \<noteq> None)"

lemma node_step_published:
  assumes "node_step ex tables n n'" "node_ok n" "metrics_published n" "\<not> nd_race n'"
  shows "metrics_published n'"
  using assms(1)
proof cases
  case (register a as waited hs)
  then have "main_ok (node_met n) (node_handlers n) (Registering (a # as) waited)" using assms(2) by (simp add: node_ok_def)
  from registering_length [OF this] have "length as \<noteq> 4" by simp
  then show ?thesis by (simp add: metrics_published_def register(1))
next
  case (registered evs)
  then show ?thesis using assms(2) by (auto simp: node_ok_def metrics_published_def)
next
  case (serve e evs s)
  then show ?thesis using node_step_ok [OF assms(1,2,4)] by (auto simp: node_ok_def metrics_published_def)
qed (use assms(3,4) in \<open>auto simp: metrics_published_def split: main_at.splits\<close>)

lemma steps_published:
  assumes "node_steps ex tables n0 n" "node_reachable ex tables n0" "nd_main n0 = Serving evs" "\<not> nd_race n"
  shows "metrics_published n"
  using assms(1,4)
proof (induction rule: rtranclp_induct)
  case base
  then show ?case using reachable_node_ok [OF assms(2)] assms(3) by (auto simp: metrics_published_def node_ok_def)
next
  case (step n1 n2)
  have "\<not> nd_race n1" using step_no_race [OF step(2)] .
  then show ?case using step node_step_published reachable_node_ok [OF reachable_steps [OF step(1) assms(2)]] by blast
qed

text \<open>A worker with nothing in hand is told of an event and handles it.\<close>

lemma event_scheduled:
  assumes "i < kThreadPoolSize" "nd_events n i = []" "nd_busy n i = None" "\<not> nd_race n"
    and "wk_interest (node_worker n i) (ed_fd d) = Some (k, d)" "flags_ok k flags"
    and "recv_ok r" "send_ok d s" "process_event (node_handlers n) d flags r s (node_worker n i) = (Inr (), w)"
  shows "node_steps ex tables n (n\<lparr>nd_http := set_worker i w (nd_http n)\<rparr>)"
proof -
  let ?n1 = "n\<lparr>nd_events := (nd_events n)(i := [(d, flags)])\<rparr>"
  let ?n2 = "?n1\<lparr>nd_events := (nd_events ?n1)(i := []), nd_http := set_worker i w (nd_http ?n1)\<rparr>"
  have 1: "node_step ex tables n ?n1" using assms(4-6) by (intro poll [OF assms(1,2)]) (auto simp: batch_ok_def)
  have 2: "node_steps ex tables ?n1 ?n2" using assms by (intro event_steps [of i _ d flags "[]" r s]) simp_all
  have "?n2 = n\<lparr>nd_http := set_worker i w (nd_http n)\<rparr>" using assms(2) by (cases n) (auto simp: fun_upd_idem)
  with step_steps [OF 1 2] show ?thesis by argo
qed

lemma writable_scheduled:
  assumes "i < kThreadPoolSize" "nd_events n i = []" "nd_busy n i = None" "\<not> nd_race n" "length (sv_workers (nd_http n)) = kThreadPoolSize" "worker_ok (node_worker n i)"
    and "wk_interest (node_worker n i) fd = Some (EPOLLOUT, d)" "sum_list ks = unat (ed_length d)" "0 \<notin> set ks"
    and "writable_events (node_handlers n) fd ks (node_worker n i) = (Inr (), w)"
  shows "node_steps ex tables n (n\<lparr>nd_http := set_worker i w (nd_http n)\<rparr>)"
  using assms
proof (induction ks arbitrary: n d)
  case Nil
  then have "n\<lparr>nd_http := set_worker i w (nd_http n)\<rparr> = n" by (cases n) auto
  then show ?case by (simp only: rtranclp.rtrancl_refl)
next
  case (Cons k ks)
  obtain w1 where w1: "dispatch (node_handlers n) fd (Exactly EPOLLOUT) RecvAgain (Sent k) (node_worker n i) = (Inr (), w1)" "worker_ok w1"
      "wk_interest w1 fd = Some (if k < unat (ed_length d)
        then (EPOLLOUT, d\<lparr>ed_cursor := ed_cursor d + of_nat k, ed_length := ed_length d - of_nat k\<rparr>)
        else (EPOLLIN, EventData_new\<lparr>ed_fd := fd\<rparr>))"
    using dispatch_sent [OF Cons.prems(6,7), of "node_handlers n" k] by blast
  have fd: "ed_fd d = fd" "unat (ed_cursor d) + unat (ed_length d) \<le> kMaxBufferSize"
    using worker_okD [OF Cons.prems(6,7)] by (simp_all add: data_ok_for_def)
  let ?n = "n\<lparr>nd_http := set_worker i w1 (nd_http n)\<rparr>"
  have 1: "node_steps ex tables n ?n"
    using w1(1) Cons.prems(7,8) fd(1)
    by (intro event_scheduled [OF Cons.prems(1-4), of d EPOLLOUT "Exactly EPOLLOUT" RecvAgain "Sent k"]) (simp_all add: dispatch_def)
  have rest': "writable_events (node_handlers n) fd ks w1 = (Inr (), w)" using Cons.prems(10) w1(1) by (simp add: bindC_def)
  show ?case
  proof (cases "ks = []")
    case True
    then show ?thesis using 1 rest' by simp
  next
    case False
    then have "0 < sum_list ks" using Cons.prems(9) by (cases ks) auto
    then have k: "k < unat (ed_length d)" using Cons.prems(8) by simp
    let ?d = "d\<lparr>ed_cursor := ed_cursor d + of_nat k, ed_length := ed_length d - of_nat k\<rparr>"
    have "node_steps ex tables ?n (?n\<lparr>nd_http := set_worker i w (nd_http ?n)\<rparr>)"
      using Cons.prems(1-5,8,9) w1(2,3) k rest' unat_advance [OF k fd(2)] by (intro Cons.IH [of _ ?d]) simp_all
    moreover have "?n\<lparr>nd_http := set_worker i w (nd_http ?n)\<rparr> = n\<lparr>nd_http := set_worker i w (nd_http n)\<rparr>" by simp
    ultimately show ?thesis using 1 by (metis rtranclp_trans)
  qed
qed

text \<open>
  What a scrape is answered: while the handlers are being replaced, 404 after an erasure and 405 between the two
  pairs of statements; at every other time the metrics with which the present round began, or those of the round before as long as
  the present one has not erased them.
\<close>

fun scrape_error :: "main_at \<Rightarrow> http_status option" where
  "scrape_error (Registering as waited) =
     (if length as = 2 then Some MethodNotAllowed else if odd (length as) then Some NotFound else None)"
| "scrape_error _ = None"

definition scrape_answer :: "('c, 'w) externals \<Rightarrow> meta_tables \<Rightarrow> 'w node \<Rightarrow> string \<Rightarrow> bool" where
  "scrape_answer ex tables n out \<longleftrightarrow> (case scrape_error (nd_main n) of
     Some st \<Rightarrow> out = response_to_string (HttpResponse_new st) True
   | None \<Rightarrow> \<exists>m. fresh ex tables (rounds_back (nd_main n)) n m \<and> met_upto m (node_met n) \<and>
       shows_metrics (metrics_text m) m \<and> out = text_response (metrics_text m) True)"

lemma get_published:
  assumes "node_ok n" "metrics_published n" "scrape_error (nd_main n) = None"
  shows "handler_of (node_handlers n) ''/metrics'' M_GET \<noteq> None"
proof (cases "nd_main n")
  case (Registering as waited)
  then have m: "main_ok (node_met n) (node_handlers n) (Registering as waited)" using assms(1) by (simp add: node_ok_def)
  have "length as \<noteq> 2" "even (length as)" using assms(3) Registering by (auto split: if_splits)
  then have "length as = 0 \<or> length as = 4" using registering_length [OF m] by presburger
  then show ?thesis
    using registering_get [OF m] assms(2) Registering by (auto simp: metrics_published_def)
qed (use assms(2) in \<open>simp_all add: metrics_published_def\<close>)

lemma get_erased:
  assumes "node_ok n" "scrape_error (nd_main n) = Some st"
  shows "handler_of (node_handlers n) ''/metrics'' M_GET = None \<and> st = (if map_of (node_handlers n) ''/metrics'' = None then NotFound else MethodNotAllowed)"
  using assms by (cases "nd_main n") (auto simp: node_ok_def handler_of_def split: if_splits)

lemma scrape_answered:
  assumes "node_reachable ex tables n" "\<not> nd_race n" "metrics_published n"
    and "string_to_request s = Inr r" "ur_path (hr_uri r) = ''/metrics''" "hr_method r = M_GET"
  shows "scrape_answer ex tables n (answer_string (node_handlers n) s)"
proof (cases "scrape_error (nd_main n)")
  case (Some st)
  then show ?thesis
    using answer_request [OF assms(4), of "node_handlers n"] assms(5,6) get_erased [OF reachable_node_ok [OF assms(1,2)] Some]
    by (simp add: answer_string_def scrape_answer_def)
next
  case None
  note ok = reachable_node_ok [OF assms(1,2)]
  then have t: "table_ok (node_met n) (node_handlers n)" by (simp add: node_ok_def)
  obtain cb where cb: "handler_of (node_handlers n) ''/metrics'' M_GET = Some cb" using get_published [OF ok assms(3) None] by blast
  then obtain m where m: "cb = Greetings (metrics_text m)" "fresh ex tables (rounds_back (nd_main n)) n m"
    using reachable_fresh [OF assms(1,2)] by (auto simp: published_fresh_def)
  then show ?thesis
    using answer_request [OF assms(4), of "node_handlers n"] assms(5,6) cb m None fresh_upto [OF m(2) assms(2)]
    by (auto simp: answer_string_def Greetings_printed scrape_answer_def metrics_shown met_upto_def)
qed

lemma answer_scheduled:
  assumes "node_reachable ex tables n" "\<not> nd_race n" "i < kThreadPoolSize" "nd_events n i = []"
    and "wk_interest (node_worker n i) fd = Some (EPOLLIN, d)" "bs \<noteq> []" "length bs < kMaxBufferSize" "0 \<notin> set bs"
    and "sum_list ks = length (answer_string (node_handlers n) (string_of_bytes bs))" "0 \<notin> set ks"
  shows "\<exists>w'. bindC (dispatch (node_handlers n) fd (Exactly EPOLLIN) (Received bs) SendAgain)
        (\<lambda>_. writable_events (node_handlers n) fd ks) (node_worker n i) = (Inr (), w') \<and>
      wk_sent w' fd = wk_sent (node_worker n i) fd @ bytes_of_string (answer_string (node_handlers n) (string_of_bytes bs)) \<and>
      node_steps ex tables n (n\<lparr>nd_http := set_worker i w' (nd_http n)\<rparr>)"
proof -
  note w = reachable_worker [OF assms(1-3)]
  let ?out = "answer_string (node_handlers n) (string_of_bytes bs)"
  have len: "length (sv_workers (nd_http n)) = kThreadPoolSize" "nd_busy n i = None"
    using reachable_node_ok [OF assms(1,2)] assms(4) by (simp_all add: node_ok_def workers_ok_def server_ok_def)
  have fit: "CHR 0x00 \<notin> set ?out" "length ?out \<le> kMaxBufferSize" using answers_fit [OF w(4)] by (auto simp: kMaxBufferSize_def)
  obtain w1 d1 where w1: "dispatch (node_handlers n) fd (Exactly EPOLLIN) (Received bs) SendAgain (node_worker n i) = (Inr (), w1)"
      "worker_ok w1" "wk_interest w1 fd = Some (EPOLLOUT, d1)" "unat (ed_length d1) = length ?out"
    using answer_registered [OF w(1) assms(5) w(3) assms(6-8) refl fit] by blast
  obtain w' where w': "bindC (dispatch (node_handlers n) fd (Exactly EPOLLIN) (Received bs) SendAgain)
        (\<lambda>_. writable_events (node_handlers n) fd ks) (node_worker n i) = (Inr (), w')"
      "wk_sent w' fd = wk_sent (node_worker n i) fd @ bytes_of_string ?out"
    using answer_string_sent [OF w(1) assms(5) w(3) assms(6-8) refl fit assms(9,10)] by blast
  have wr: "writable_events (node_handlers n) fd ks w1 = (Inr (), w')" using w'(1) w1(1) by (simp add: bindC_def)
  let ?n = "n\<lparr>nd_http := set_worker i w1 (nd_http n)\<rparr>"
  have "ed_fd d = fd" using worker_okD [OF w(1) assms(5)] by (simp add: data_ok_for_def)
  then have 1: "node_steps ex tables n ?n"
    using w1(1) assms(5-7)
    by (intro event_scheduled [OF assms(3,4) len(2) assms(2), of d EPOLLIN "Exactly EPOLLIN" "Received bs" SendAgain]) (simp_all add: dispatch_def)
  have 2: "node_steps ex tables ?n (?n\<lparr>nd_http := set_worker i w' (nd_http ?n)\<rparr>)"
    using assms(2-4,9,10) len w1(2-4) wr by (intro writable_scheduled [of i _ fd d1 ks]) simp_all
  have "?n\<lparr>nd_http := set_worker i w' (nd_http ?n)\<rparr> = n\<lparr>nd_http := set_worker i w' (nd_http n)\<rparr>" by simp
  with rtranclp_trans [OF 1 2] w' show ?thesis by auto
qed

text \<open>
  Property C8. A \<^verbatim>\<open>GET /metrics\<close> at any moment after the first round began to serve, whatever
  the threads did before, as long as there was no race: a worker with nothing else in hand, on a connection that waits
  for a request, reads the request in one piece of less than a buffer and without a zero byte, and its steps lead to a
  state in which the client has got, byte for byte and however the socket divided them, a response with the metrics
  with which the round that is under way began, gauges and counters, each found in the text under its name, or, until
  that round erases them, with which the round before began; no counter in it is above its value now. Between the
  first erasure of a round and its last insertion the answer is 404 or 405 instead, according to what is erased.
\<close>

theorem metrics_over_http:
  assumes "node_reachable ex tables n0" "nd_main n0 = Serving evs" "node_steps ex tables n0 n" "\<not> nd_race n"
    and "i < kThreadPoolSize" "nd_events n i = []"
    and "wk_interest (node_worker n i) fd = Some (EPOLLIN, d)" "bs \<noteq> []" "length bs < kMaxBufferSize" "0 \<notin> set bs"
    and "string_to_request (string_of_bytes bs) = Inr r" "ur_path (hr_uri r) = ''/metrics''" "hr_method r = M_GET"
  shows "\<exists>out. scrape_answer ex tables n out \<and> (\<forall>ks. sum_list ks = length out \<longrightarrow> 0 \<notin> set ks \<longrightarrow>
      (\<exists>w'. bindC (dispatch (node_handlers n) fd (Exactly EPOLLIN) (Received bs) SendAgain)
          (\<lambda>_. writable_events (node_handlers n) fd ks) (node_worker n i) = (Inr (), w') \<and>
        wk_sent w' fd = wk_sent (node_worker n i) fd @ bytes_of_string out \<and>
        node_steps ex tables n (n\<lparr>nd_http := set_worker i w' (nd_http n)\<rparr>)))"
proof -
  note reach = reachable_steps [OF assms(3,1)]
  let ?out = "answer_string (node_handlers n) (string_of_bytes bs)"
  have "scrape_answer ex tables n ?out"
    using scrape_answered [OF reach assms(4) steps_published [OF assms(3,1,2,4)] assms(11-13)] .
  then show ?thesis using answer_scheduled [OF reach assms(4-10)] by blast
qed

text \<open>
  The table of handlers is not locked: from every state in which the main thread waits, there is a schedule after which a
  worker answers a scrape with 404, although the metrics were published before.
\<close>

theorem scrape_window:
  assumes "node_reachable ex tables n" "\<not> nd_race n" "\<not> table_read n" "nd_main n = Waiting" "ur_path (hr_uri r) = ''/metrics''"
  shows "\<exists>n'. \<not> nd_race n' \<and> node_steps ex tables n n' \<and> HandleHttpRequest (node_handlers n') r = Inr (HttpResponse_new NotFound)"
proof -
  let ?n1 = "n\<lparr>nd_main := Registering (text_registrations ''/metrics'' (metrics_text (node_met n))) (Some [])\<rparr>"
  let ?hs = "erase_handlers (Uri_new ''/metrics'') (node_handlers n)"
  have hok: "handlers_ok (node_handlers n)" using reachable_node_ok [OF assms(1,2)] by (simp add: node_ok_def table_ok_def)
  have 1: "node_step ex tables n ?n1" using assms(2) by (intro wait [OF assms(4)]) (simp_all add: round_ok_def)
  obtain as where as: "text_registrations ''/metrics'' (metrics_text (node_met n)) = Erase ''/metrics'' # as"
    by (simp add: text_registrations_def)
  have 2: "node_step ex tables ?n1 (?n1\<lparr>nd_main := Registering as (Some []), nd_cql := (nd_cql ?n1)\<lparr>cs_handlers := ?hs\<rparr>\<rparr>)"
    using assms(2,3) by (intro register [of _ "Erase ''/metrics''"]) (simp_all add: as table_read_def)
  have "HandleHttpRequest ?hs r = Inr (HttpResponse_new NotFound)"
    using HandleHttpRequest_eq [OF erase_eq(1) [OF hok]] erase_eq(2) [OF hok] assms(5) by simp
  moreover have "node_steps ex tables n (?n1\<lparr>nd_main := Registering as (Some []), nd_cql := (nd_cql ?n1)\<lparr>cs_handlers := ?hs\<rparr>\<rparr>)"
    using step_steps [OF 1 one_step [OF 2]] .
  ultimately show ?thesis
    using assms(2)
    by (intro exI [of _ "?n1\<lparr>nd_main := Registering as (Some []), nd_cql := (nd_cql ?n1)\<lparr>cs_handlers := ?hs\<rparr>\<rparr>"]) simp
qed

text \<open>
  And the erasure may come while a worker is running the handler it found: from every state in which the main thread
  waits and a worker with nothing else in hand has a connection that waits for a request, there is a schedule that
  leads to the worker inside \<^verbatim>\<open>HandleHttpRequest\<close> and the main thread at the erasure of
  \<^verbatim>\<open>/metrics\<close>, and on to any state at all.
\<close>

theorem race_reachable:
  assumes "node_reachable ex tables n" "\<not> nd_race n" "nd_main n = Waiting" "i < kThreadPoolSize" "nd_events n i = []"
    and "wk_interest (node_worker n i) fd = Some (EPOLLIN, d)" "bs \<noteq> []" "length bs \<le> kMaxBufferSize"
  shows "\<exists>n' evs as waited. node_steps ex tables n n' \<and> \<not> nd_race n' \<and> nd_main n' = Registering (Erase ''/metrics'' # as) waited \<and>
    nd_events n' i = (d, Exactly EPOLLIN) # evs \<and> nd_busy n' i = Some (Received bs, SendAgain) \<and>
    (\<forall>n''. nd_race n'' \<longrightarrow> node_step ex tables n' n'')"
proof -
  let ?as = "text_registrations ''/metrics'' (metrics_text (node_met n))"
  let ?n1 = "n\<lparr>nd_main := Registering ?as (Some [])\<rparr>"
  let ?n2 = "?n1\<lparr>nd_events := (nd_events ?n1)(i := [(d, Exactly EPOLLIN)])\<rparr>"
  let ?n3 = "?n2\<lparr>nd_busy := (nd_busy ?n2)(i := Some (Received bs, SendAgain))\<rparr>"
  have b: "nd_busy n i = None" using reachable_node_ok [OF assms(1,2)] assms(5) by (simp add: node_ok_def)
  have "ed_fd d = fd" using worker_okD [OF reachable_worker(1) [OF assms(1,2,4)] assms(6)] by (simp add: data_ok_for_def)
  then have 2: "node_step ex tables ?n1 ?n2"
    using assms(2,5,6) by (intro poll [OF assms(4)]) (simp_all add: batch_ok_def)
  have 1: "node_step ex tables n ?n1" using assms(2) by (intro wait [OF assms(3)]) (simp_all add: round_ok_def)
  have 3: "node_step ex tables ?n2 ?n3"
    using assms(2,7,8) b by (intro begin_work [OF assms(4), where d = d and flags = "Exactly EPOLLIN" and evs = "[]"]) simp_all
  have "races ?n3" using assms(4) by (auto simp: races_def text_registrations_def table_read_def list_ex_iff intro!: bexI [of _ i])
  then have "node_step ex tables ?n3 n''" if "nd_race n''" for n'' using that assms(2) by (intro race) simp_all
  moreover have "node_steps ex tables n ?n3" using step_steps [OF 1 step_steps [OF 2 one_step [OF 3]]] .
  ultimately show ?thesis
    using assms(2) by (intro exI [of _ ?n3]) (simp add: text_registrations_def)
qed

section \<open>A running node\<close>

lemma example_connected:
  "\<exists>n :: unit node. node_reachable example_externals zero_tables n \<and> nd_main n = Waiting \<and> nd_events n = (\<lambda>_. []) \<and>
    nd_busy n = (\<lambda>_. None) \<and> \<not> nd_race n \<and> wk_interest (node_worker n 0) 7 = Some (EPOLLIN, EventData_new\<lparr>ed_fd := 7\<rparr>)"
proof -
  obtain s :: "unit cql_server" where s: "Server_start example_externals 8080 example_startup (replicate MAX_MESSAGE_LEN 0) 5
     (example_node ''n1'' ()\<lparr>pc_fs := \<lparr>fs_dirs = [''database''], fs_files = (\<lambda>p. None), fs_bad = []\<rparr>\<rparr>) = Some (Running, Some s)"
    using example_started by blast
  obtain hs where hs: "register_text ''/'' ''GOTO /metrics'' [] = Inr hs"
    using register_text_eq [OF no_handlers_ok] by blast
  let ?sv = "\<lparr>sv_port = 8080, sv_running = True, sv_workers = replicate kThreadPoolSize worker_start, sv_current_worker = 0\<rparr>"
  have "SetUpEpoll (map (\<lambda>_. True) [0..<kThreadPoolSize]) = Inr (replicate kThreadPoolSize worker_start)"
    using SetUpEpoll_all [of "map (\<lambda>_. True) [0..<kThreadPoolSize]"] by simp
  then have p: "prom_start 8080 example_startup = Inr (hs, ?sv)"
    using hs by (simp add: prom_start_def HttpServer_new_def example_startup_def Start_def)
  let ?n = "\<lparr>nd_main = Waiting, nd_cql = s, nd_http = ?sv, nd_events = \<lambda>_. [], nd_busy = \<lambda>_. None, nd_remote = [], nd_race = False\<rparr>"
  have n: "node_reachable example_externals zero_tables ?n" using booted [OF s _ p] by simp
  have k: "0 < kThreadPoolSize" by (simp add: kThreadPoolSize_def)
  have "server_ok ?sv" using k by (simp add: server_ok_def)
  moreover have "wk_interest (sv_workers ?sv ! sv_current_worker ?sv) 7 = None" using k by (simp add: worker_start_def)
  ultimately obtain sv where sv: "Listen 7 ?sv = Inr sv"
      "wk_interest (sv_workers sv ! 0) 7 = Some (EPOLLIN, EventData_new\<lparr>ed_fd := 7\<rparr>)"
    using Listen_ok [of ?sv 7] k by auto
  have "node_step example_externals zero_tables ?n (?n\<lparr>nd_http := sv\<rparr>)"
    using sv(1) by (intro listen) (simp_all add: worker_start_def)
  then have "node_reachable example_externals zero_tables (?n\<lparr>nd_http := sv\<rparr>)" by (rule stepped [OF n])
  then show ?thesis using sv(2) by (intro exI [of _ "?n\<lparr>nd_http := sv\<rparr>"]) simp
qed

lemma connected_poll:
  assumes "node_reachable ex tables n" "nd_events n = (\<lambda>_. [])" "wk_interest (node_worker n 0) fd = Some (EPOLLIN, EventData_new\<lparr>ed_fd := fd\<rparr>)"
    and "\<not> nd_race n"
  shows "node_reachable ex tables (n\<lparr>nd_events := (nd_events n)(0 := [(EventData_new\<lparr>ed_fd := fd\<rparr>, Exactly EPOLLIN)])\<rparr>)"
proof -
  have "node_step ex tables n (n\<lparr>nd_events := (nd_events n)(0 := [(EventData_new\<lparr>ed_fd := fd\<rparr>, Exactly EPOLLIN)])\<rparr>)"
    using assms(2-4) by (intro poll) (simp_all add: kThreadPoolSize_def batch_ok_def)
  then show ?thesis by (rule stepped [OF assms(1)])
qed

theorem node_safe_witness:
  "\<exists>(n :: unit node) w'. node_ok n \<and> process_event (node_handlers n) (EventData_new\<lparr>ed_fd := 7\<rparr>) (Exactly EPOLLIN)
    (Received (bytes_of_string up_request)) SendError (node_worker n 0) = (Inr (), w') \<and> worker_ok w'"
proof -
  obtain n :: "unit node" where n: "node_reachable example_externals zero_tables n" "nd_events n = (\<lambda>_. [])"
      "wk_interest (node_worker n 0) 7 = Some (EPOLLIN, EventData_new\<lparr>ed_fd := 7\<rparr>)" "\<not> nd_race n"
    using example_connected by blast
  let ?n = "n\<lparr>nd_events := (nd_events n)(0 := [(EventData_new\<lparr>ed_fd := 7\<rparr>, Exactly EPOLLIN)])\<rparr>"
  have up: "up_request \<noteq> []" "length up_request < 4096" by code_simp+
  have "\<not> nd_race ?n" using n(4) by simp
  from node_safe [OF connected_poll [OF n] this]
  have "node_ok ?n" "\<exists>w'. process_event (node_handlers ?n) (EventData_new\<lparr>ed_fd := 7\<rparr>) (Exactly EPOLLIN)
      (Received (bytes_of_string up_request)) SendError (node_worker ?n 0) = (Inr (), w') \<and> worker_ok w'"
    using up by (simp_all add: kMaxBufferSize_def kThreadPoolSize_def)
  then show ?thesis by blast
qed

text \<open>The main thread publishes the metrics and finds no event.\<close>

lemma first_round:
  assumes "node_reachable ex tables n" "nd_main n = Waiting" "nd_busy n = (\<lambda>_. None)" "\<not> nd_race n"
  shows "\<exists>n'. node_reachable ex tables n' \<and> \<not> nd_race n' \<and> nd_main n' = Serving [] \<and> nd_http n' = nd_http n \<and> nd_events n' = nd_events n"
proof -
  let ?as = "text_registrations ''/metrics'' (metrics_text (node_met n))"
  have "handlers_ok (node_handlers n)" using reachable_node_ok [OF assms(1,4)] by (simp add: node_ok_def table_ok_def)
  then obtain hs where hs: "register_steps ?as (node_handlers n) = Inr hs" using register_text_eq register_text_steps by metis
  let ?n1 = "n\<lparr>nd_main := Registering ?as (Some [])\<rparr>"
  let ?n2 = "?n1\<lparr>nd_main := Registering [] (Some []), nd_cql := (nd_cql ?n1)\<lparr>cs_handlers := hs\<rparr>\<rparr>"
  have 1: "node_step ex tables n ?n1" using assms(4) by (intro wait [OF assms(2)]) (simp_all add: round_ok_def)
  have 2: "node_steps ex tables ?n1 ?n2" using assms(3,4) by (intro registering_steps [of _ ?as]) (simp_all add: hs table_read_def list_ex_iff)
  have 3: "node_step ex tables ?n2 (?n2\<lparr>nd_main := Serving []\<rparr>)" using assms(4) by (intro registered) simp_all
  have "node_reachable ex tables (?n2\<lparr>nd_main := Serving []\<rparr>)"
    using stepped [OF reachable_steps [OF 2 stepped [OF assms(1) 1]] 3] .
  then show ?thesis using assms(4) by (intro exI [of _ "?n2\<lparr>nd_main := Serving []\<rparr>"]) simp
qed

theorem metrics_over_http_witness:
  "\<exists>(n :: unit node) m w'. fresh example_externals zero_tables 1 n m \<and>
    bindC (dispatch (node_handlers n) 7 (Exactly EPOLLIN) (Received (bytes_of_string up_request)) SendAgain)
      (\<lambda>_. writable_events (node_handlers n) 7 [length (text_response (metrics_text m) True)]) (node_worker n 0) = (Inr (), w') \<and>
    wk_sent w' 7 = wk_sent (node_worker n 0) 7 @ bytes_of_string (text_response (metrics_text m) True)"
proof -
  obtain n0 :: "unit node" where n0: "node_reachable example_externals zero_tables n0" "nd_main n0 = Waiting" "nd_busy n0 = (\<lambda>_. None)"
      "\<not> nd_race n0" "wk_interest (node_worker n0 0) 7 = Some (EPOLLIN, EventData_new\<lparr>ed_fd := 7\<rparr>)" "nd_events n0 = (\<lambda>_. [])"
    using example_connected by blast
  obtain n where n: "node_reachable example_externals zero_tables n" "nd_main n = Serving []" "\<not> nd_race n" "nd_http n = nd_http n0"
      "nd_events n = nd_events n0"
    using first_round [OF n0(1-4)] by blast
  have req: "up_request \<noteq> []" "length up_request < 4096" "CHR 0x00 \<notin> set up_request" by code_simp+
  obtain r where r: "string_to_request up_request = Inr r" "ur_path (hr_uri r) = ''/metrics''" "hr_method r = M_GET"
    using up_request_parsed by simp
  let ?run = "\<lambda>out ks w'. bindC (dispatch (node_handlers n) 7 (Exactly EPOLLIN) (Received (bytes_of_string up_request)) SendAgain)
      (\<lambda>_. writable_events (node_handlers n) 7 ks) (node_worker n 0) = (Inr (), w') \<and>
    wk_sent w' 7 = wk_sent (node_worker n 0) 7 @ bytes_of_string out \<and>
    node_steps example_externals zero_tables n (n\<lparr>nd_http := set_worker 0 w' (nd_http n)\<rparr>)"
  have "\<exists>out. scrape_answer example_externals zero_tables n out \<and>
      (\<forall>ks. sum_list ks = length out \<longrightarrow> 0 \<notin> set ks \<longrightarrow> (\<exists>w'. ?run out ks w'))"
    using n(4,5) n0(5,6) req bytes_of_string_zero [OF req(3)] r
    by (intro metrics_over_http [OF n(1,2) rtranclp.rtrancl_refl n(3), where r = r]) (simp_all add: kMaxBufferSize_def kThreadPoolSize_def)
  then obtain m where m: "fresh example_externals zero_tables 1 n m"
      "\<forall>ks. sum_list ks = length (text_response (metrics_text m) True) \<longrightarrow> 0 \<notin> set ks \<longrightarrow>
        (\<exists>w'. ?run (text_response (metrics_text m) True) ks w')"
    using n(2) by (auto simp: scrape_answer_def)
  have "length (text_response (metrics_text m) True) \<noteq> 0" by (simp add: text_response_def)
  then show ?thesis using m(1) m(2) [THEN spec, of "[length (text_response (metrics_text m) True)]"] by auto
qed

end
