(* ===== verification/Util_Logger.thy ===== *)
theory Util_Logger
  imports C_Strings Std_Map
begin

text \<open>
  \<^verbatim>\<open>include/util/logger.hh\<close>, \<^verbatim>\<open>lib/util/logger.cc\<close>, \<^verbatim>\<open>include/util/factory.hh\<close>, the functions of
  \<^verbatim>\<open>include/util/assert.hh\<close> and the program \<^verbatim>\<open>src/logger.cc\<close>. The state is the text written to
  standard error so far, as a list of characters. Of \<^verbatim>\<open>dprintf\<close> the conversions the sources use are modelled,
  \<^verbatim>\<open>%d\<close> with a width or without and \<^verbatim>\<open>%s\<close>; what any other one does with the rest of the
  format is the argument \<open>conv\<close>. The lemmas show which messages are written and how.
\<close>

section \<open>Formats\<close>

datatype log_arg = Str string | Num int

definition c_str :: "string \<Rightarrow> string" where
  "c_str s = takeWhile (\<lambda>c. c \<noteq> CHR 0x00) s"

definition pad :: "nat \<Rightarrow> string \<Rightarrow> string" where
  "pad width s = replicate (width - length s) (CHR '' '') @ s"

lemma dropWhile_shorter: "dropWhile P cs = d # ds \<Longrightarrow> length ds < length cs"
  using length_dropWhile_le [of P cs] by simp

text \<open>A directive without its argument, or with one of another type, is undefined.\<close>

function dprintf :: "(string \<Rightarrow> log_arg list \<Rightarrow> string result) \<Rightarrow> string \<Rightarrow> log_arg list \<Rightarrow> string result" where
  "dprintf conv [] args = Inr []"
| "dprintf conv (c # cs) args =
     (if c \<noteq> CHR ''%'' then bindR (dprintf conv cs args) (\<lambda>t. Inr (c # t))
      else let width = takeWhile is_digit cs; ds = dropWhile is_digit cs
           in case ds of
                [] \<Rightarrow> Inl Undefined_Behaviour
              | d # ds \<Rightarrow>
                  if d = CHR ''%'' \<and> width = [] then bindR (dprintf conv ds args) (\<lambda>t. Inr (CHR ''%'' # t))
                  else if d = CHR ''d'' \<and> (width = [] \<or> hd width \<noteq> CHR ''0'') then
                    (case args of
                       Num i # args \<Rightarrow> bindR (dprintf conv ds args) (\<lambda>t. Inr (pad (nat (digits_int width)) (to_string_int i) @ t))
                     | _ \<Rightarrow> Inl Undefined_Behaviour)
                  else if d = CHR ''s'' \<and> width = [] then
                    (case args of
                       Str s # args \<Rightarrow> bindR (dprintf conv ds args) (\<lambda>t. Inr (s @ t))
                     | _ \<Rightarrow> Inl Undefined_Behaviour)
                  else conv (c # cs) args)"
  by pat_completeness auto
termination
  by (relation "measure (\<lambda>(conv, cs, args). length cs)") (auto dest: dropWhile_shorter [OF sym])

section \<open>Loggers\<close>

datatype log_level = NONE | ERROR | WARNING | NOTICE | INFO

fun level_code :: "log_level \<Rightarrow> nat" where
  "level_code NONE = 0"
| "level_code ERROR = 1"
| "level_code WARNING = 2"
| "level_code NOTICE = 3"
| "level_code INFO = 4"

lemma level_code_inj: "level_code a = level_code b \<longleftrightarrow> a = b"
  by (cases a; cases b) simp_all

text \<open>The enumeration is compared by its values.\<close>

instantiation log_level :: linorder
begin

definition less_eq_log_level :: "log_level \<Rightarrow> log_level \<Rightarrow> bool" where
  "less_eq_log_level a b \<longleftrightarrow> level_code a \<le> level_code b"

definition less_log_level :: "log_level \<Rightarrow> log_level \<Rightarrow> bool" where
  "less_log_level a b \<longleftrightarrow> level_code a < level_code b"

instance
  by intro_classes (auto simp: less_eq_log_level_def less_log_level_def level_code_inj [symmetric])

end

definition level_less :: "log_level \<Rightarrow> log_level \<Rightarrow> bool result" where
  "level_less a b = Inr (a < b)"

record logger =
  lg_level :: log_level
  lg_prefixes :: "(log_level \<times> string) list"
  lg_suffixes :: "(log_level \<times> string) list"

fun assign_levels :: "(log_level \<times> string) list \<Rightarrow> (log_level \<times> string) list \<Rightarrow> (log_level \<times> string) list result" where
  "assign_levels [] m = Inr m"
| "assign_levels ((level, s) # rest) m = bindR (map_assign level_less level s m) (assign_levels rest)"

text \<open>Colours on a terminal, names elsewhere.\<close>

definition escape :: "string \<Rightarrow> string" where
  "escape code = CHR 0x1B # ''['' @ code @ ''m''"

definition Logger_new :: "bool \<Rightarrow> log_level \<Rightarrow> logger result" where
  "Logger_new isatty level =
     bindR (assign_levels
       (if isatty
        then [(INFO, CHR 0x0D # escape ''1;32'' @ ''* '' @ escape ''0''),
              (NOTICE, CHR 0x0D # escape ''1;34'' @ ''notice: '' @ escape ''0''),
              (WARNING, CHR 0x0D # escape ''1;33'' @ ''warn: '' @ escape ''0''),
              (ERROR, CHR 0x0D # escape ''1;31'' @ ''error: '' @ escape ''0'')]
        else [(INFO, ''dibibase|info: ''), (NOTICE, ''dibibase|notice: ''), (WARNING, ''dibibase|warn: ''),
              (ERROR, ''dibibase|error: '')]) []) (\<lambda>prefixes.
     bindR (assign_levels
       (if isatty
        then [(INFO, escape ''0''), (NOTICE, escape ''0''), (WARNING, escape ''0''), (ERROR, escape ''0'')]
        else [(INFO, []), (NOTICE, []), (WARNING, []), (ERROR, [])]) []) (\<lambda>suffixes.
       Inr \<lparr>lg_level = level, lg_prefixes = prefixes, lg_suffixes = suffixes\<rparr>))"

text \<open>The instance is made by the first call, with its level; the level of later calls is ignored.\<close>

definition Logger_make :: "bool \<Rightarrow> log_level \<Rightarrow> logger option \<Rightarrow> (logger \<times> logger option) result" where
  "Logger_make isatty level inst = (case inst of
     Some lg \<Rightarrow> Inr (lg, inst)
   | None \<Rightarrow> bindR (Logger_new isatty level) (\<lambda>lg. Inr (lg, Some lg)))"

definition set_verbosity :: "log_level \<Rightarrow> logger \<Rightarrow> logger" where
  "set_verbosity level lg = lg\<lparr>lg_level := level\<rparr>"

definition parse_verbosity :: "string \<Rightarrow> log_level \<Rightarrow> log_level" where
  "parse_verbosity name fallback =
     (if name = ''error'' then ERROR
      else if name = ''warning'' then WARNING
      else if name = ''notice'' then NOTICE
      else if name = ''info'' then INFO
      else fallback)"

definition level_at :: "log_level \<Rightarrow> (log_level \<times> string) list \<Rightarrow> string result" where
  "level_at level m = bindR (map_find level_less level m) (\<lambda>found. case found of
     None \<Rightarrow> Inl (out_of_range ''map::at'') | Some s \<Rightarrow> Inr s)"

fun convert :: "log_arg \<Rightarrow> log_arg" where
  "convert (Str s) = Str (c_str s)"
| "convert (Num i) = Num i"

definition Logger_output ::
  "(string \<Rightarrow> log_arg list \<Rightarrow> string result) \<Rightarrow> logger \<Rightarrow> log_level \<Rightarrow> string \<Rightarrow> log_arg list \<Rightarrow> string \<Rightarrow> string result" where
  "Logger_output conv lg level format args err =
     (if level > lg_level lg then Inr err
      else bindR (level_at level (lg_prefixes lg)) (\<lambda>p. bindR (level_at level (lg_suffixes lg)) (\<lambda>s.
        bindR (dprintf conv (c_str (p @ format @ s @ ''\<newline>'')) (map convert args)) (\<lambda>t. Inr (err @ t)))))"

section \<open>Assertions\<close>

text \<open>A failed assertion is logged and aborts the process.\<close>

datatype assertion = Returns bool | Aborts

definition assert_m ::
  "(string \<Rightarrow> log_arg list \<Rightarrow> string result) \<Rightarrow> logger \<Rightarrow> bool \<Rightarrow> string \<Rightarrow> string \<Rightarrow> (assertion \<times> string) result" where
  "assert_m conv lg cond message err =
     (if \<not> cond
      then bindR (Logger_output conv lg ERROR ''Assertion failed: %s'' [Str (c_str message)] err) (\<lambda>err. Inr (Aborts, err))
      else Inr (Returns cond, err))"

text \<open>\<open>shown\<close> is the stream output of the two args.\<close>

definition assert_eq_m ::
  "(string \<Rightarrow> log_arg list \<Rightarrow> string result) \<Rightarrow> ('a \<Rightarrow> string) \<Rightarrow> logger \<Rightarrow> 'a \<Rightarrow> 'a \<Rightarrow> string \<Rightarrow> string \<Rightarrow> (assertion \<times> string) result" where
  "assert_eq_m conv shown lg ele_1 ele_2 message err =
     (let valid = (ele_1 = ele_2) in
      if \<not> valid
      then bindR (Logger_output conv lg ERROR (''Assertion failed: '' @ message @ ''\<newline>'' @ [CHR 0x09] @
             ''Expected: `'' @ shown ele_1 @ ''` but got: `'' @ shown ele_2 @ ''`'') [] err) (\<lambda>err. Inr (Aborts, err))
      else Inr (Returns valid, err))"

definition fail_m ::
  "(string \<Rightarrow> log_arg list \<Rightarrow> string result) \<Rightarrow> logger \<Rightarrow> string \<Rightarrow> string \<Rightarrow> (assertion \<times> string) result" where
  "fail_m conv lg message err =
     bindR (Logger_output conv lg ERROR ''Assertion failed: %s'' [Str (c_str message)] err) (\<lambda>err. Inr (Aborts, err))"

section \<open>A sequence of calls\<close>

text \<open>The calls of a client on its logger; the program \<^verbatim>\<open>src/logger.cc\<close> is one such sequence.\<close>

datatype log_call = Log log_level string "log_arg list" | Verbosity log_level

fun run_log :: "(string \<Rightarrow> log_arg list \<Rightarrow> string result) \<Rightarrow> log_call list \<Rightarrow> logger \<Rightarrow> string \<Rightarrow> (logger \<times> string) result" where
  "run_log conv [] lg err = Inr (lg, err)"
| "run_log conv (Log level message args # calls) lg err =
     bindR (Logger_output conv lg level message args err) (run_log conv calls lg)"
| "run_log conv (Verbosity level # calls) lg err = run_log conv calls (set_verbosity level lg) err"

definition logger_program :: "log_call list" where
  "logger_program =
     [Log INFO ''This is an info message.'' [], Log NOTICE ''This is an notice message.'' [],
      Log WARNING ''This is an warning message.'' [], Log ERROR ''This is an error message.'' [],
      Verbosity WARNING,
      Log INFO ''This should not appear.'' [], Log NOTICE ''This should not appear.'' [],
      Log WARNING ''This should appear as warning.'' [], Log ERROR ''This should appear as error.'' [],
      Verbosity NONE,
      Log INFO ''This should not appear.'' [], Log NOTICE ''This should not appear.'' [],
      Log WARNING ''This should not appear.'' [], Log ERROR ''This should not appear.'' []]"

definition logger_main :: "(string \<Rightarrow> log_arg list \<Rightarrow> string result) \<Rightarrow> bool \<Rightarrow> string \<Rightarrow> (logger \<times> string) result" where
  "logger_main conv isatty err =
     bindR (Logger_make isatty INFO None) (\<lambda>(lg, inst). run_log conv logger_program lg err)"

section \<open>What is written\<close>

text \<open>The line of a message: the prefix and the suffix of its level around it.\<close>

fun level_prefix :: "bool \<Rightarrow> log_level \<Rightarrow> string" where
  "level_prefix isatty NONE = []"
| "level_prefix isatty ERROR = (if isatty then CHR 0x0D # escape ''1;31'' @ ''error: '' @ escape ''0'' else ''dibibase|error: '')"
| "level_prefix isatty WARNING = (if isatty then CHR 0x0D # escape ''1;33'' @ ''warn: '' @ escape ''0'' else ''dibibase|warn: '')"
| "level_prefix isatty NOTICE = (if isatty then CHR 0x0D # escape ''1;34'' @ ''notice: '' @ escape ''0'' else ''dibibase|notice: '')"
| "level_prefix isatty INFO = (if isatty then CHR 0x0D # escape ''1;32'' @ ''* '' @ escape ''0'' else ''dibibase|info: '')"

definition log_line :: "bool \<Rightarrow> log_level \<Rightarrow> string \<Rightarrow> string" where
  "log_line isatty level message =
     level_prefix isatty level @ message @ (if isatty then escape ''0'' else []) @ ''\<newline>''"

text \<open>A message is made of plain text, strings, numbers with a least width (0 for none) and percent signs.\<close>

datatype piece = Plain string | Text string | Number nat int | Percent

fun piece_format :: "piece \<Rightarrow> string" where
  "piece_format (Plain s) = s"
| "piece_format (Text s) = ''%s''"
| "piece_format (Number width i) = ''%'' @ (if width = 0 then [] else to_string_nat width) @ ''d''"
| "piece_format Percent = ''%%''"

fun piece_args :: "piece \<Rightarrow> log_arg list" where
  "piece_args (Text s) = [Str s]"
| "piece_args (Number width i) = [Num i]"
| "piece_args _ = []"

fun piece_text :: "piece \<Rightarrow> string" where
  "piece_text (Plain s) = s"
| "piece_text (Text s) = c_str s"
| "piece_text (Number width i) = pad width (to_string_int i)"
| "piece_text Percent = ''%''"

definition message_ok :: "string \<Rightarrow> bool" where
  "message_ok s \<longleftrightarrow> CHR ''%'' \<notin> set s \<and> CHR 0x00 \<notin> set s"

text \<open>The text of a format has no percent sign and no zero character of its own, and a number is an \<^verbatim>\<open>int\<close>.\<close>

fun piece_ok :: "piece \<Rightarrow> bool" where
  "piece_ok (Plain s) = message_ok s"
| "piece_ok (Number width i) = (- (2 ^ 31) \<le> i \<and> i < 2 ^ 31)"
| "piece_ok _ = True"

datatype log_request = Message log_level "piece list" | Verbose log_level

fun call_of :: "log_request \<Rightarrow> log_call" where
  "call_of (Message level ps) = Log level (concat (map piece_format ps)) (concat (map piece_args ps))"
| "call_of (Verbose level) = Verbosity level"

fun request_fine :: "log_request \<Rightarrow> bool" where
  "request_fine (Message level ps) = (level \<noteq> NONE \<and> list_all piece_ok ps)"
| "request_fine (Verbose level) = True"

text \<open>The lines of a sequence of requests, by the verbosity at each of them.\<close>

fun log_lines :: "bool \<Rightarrow> log_level \<Rightarrow> log_request list \<Rightarrow> string" where
  "log_lines isatty verbosity [] = []"
| "log_lines isatty verbosity (Message level ps # rs) =
     (if level \<le> verbosity then log_line isatty level (concat (map piece_text ps)) else []) @ log_lines isatty verbosity rs"
| "log_lines isatty verbosity (Verbose level # rs) = log_lines isatty level rs"

lemma dprintf_plain: "CHR ''%'' \<notin> set s \<Longrightarrow> dprintf conv s args = Inr s"
  by (induction s) auto

lemma dprintf_append: "CHR ''%'' \<notin> set s \<Longrightarrow> dprintf conv (s @ fs) args = bindR (dprintf conv fs args) (\<lambda>t. Inr (s @ t))"
proof (induction s)
  case Nil
  then show ?case by (cases "dprintf conv fs args") simp_all
qed (auto simp: bindR_assoc)

lemma to_string_nat_first: "0 < n \<Longrightarrow> hd (to_string_nat n) \<noteq> CHR ''0''"
proof (induction n rule: to_string_nat.induct)
  case (1 n)
  show ?case
  proof (cases "n < 10")
    case True
    then have "n \<in> {1, 2, 3, 4, 5, 6, 7, 8, 9}" using 1(2) by auto
    moreover have "\<forall>n \<in> {1, 2, 3, 4, 5, 6, 7, 8, 9}. digit_char n \<noteq> CHR ''0''" by code_simp
    ultimately show ?thesis using True by (subst to_string_nat.simps) auto
  next
    case False
    then show ?thesis using 1 to_string_nat_nonempty [of "n div 10"] by (subst to_string_nat.simps) simp
  qed
qed

lemma width_read:
  fixes width :: nat
  defines "w \<equiv> if width = 0 then [] else to_string_nat width"
  shows "takeWhile is_digit (w @ CHR ''d'' # fs) = w" "dropWhile is_digit (w @ CHR ''d'' # fs) = CHR ''d'' # fs"
    "w = [] \<or> hd w \<noteq> CHR ''0''" "nat (digits_int w) = width"
proof -
  have digits: "\<forall>c \<in> set w. is_digit c" using to_string_nat_digits by (auto simp: w_def)
  have "\<not> is_digit (CHR ''d'')" by code_simp
  then show "takeWhile is_digit (w @ CHR ''d'' # fs) = w" "dropWhile is_digit (w @ CHR ''d'' # fs) = CHR ''d'' # fs"
    using digits by (simp_all add: takeWhile_append2 dropWhile_append2)
  show "w = [] \<or> hd w \<noteq> CHR ''0''" using to_string_nat_first by (simp add: w_def)
  show "nat (digits_int w) = width"
    using digits_int_eq [OF digits] digits_value_to_string by (simp add: w_def digits_value_def)
qed

lemma dprintf_piece:
  assumes "piece_ok p"
  shows "dprintf conv (piece_format p @ fs) (map convert (piece_args p) @ args) =
    bindR (dprintf conv fs args) (\<lambda>t. Inr (piece_text p @ t))"
proof (cases p)
  case (Plain s)
  then show ?thesis using assms dprintf_append by (simp add: message_ok_def)
next
  case (Number width i)
  then show ?thesis using width_read(1,2) [of width fs] width_read(3,4) [of width] by (simp add: Let_def)
next
  case (Text s)
  then show ?thesis by (simp add: is_digit_def)
next
  case Percent
  then show ?thesis by (simp add: is_digit_def)
qed

lemma dprintf_pieces:
  assumes "list_all piece_ok ps"
  shows "dprintf conv (concat (map piece_format ps) @ fs) (map convert (concat (map piece_args ps)) @ args) =
    bindR (dprintf conv fs args) (\<lambda>t. Inr (concat (map piece_text ps) @ t))"
  using assms
proof (induction ps)
  case Nil
  show ?case by (cases "dprintf conv fs args") simp_all
next
  case (Cons p ps)
  then show ?case by (simp add: dprintf_piece bindR_assoc)
qed

lemma piece_format_no_zero: "piece_ok p \<Longrightarrow> CHR 0x00 \<notin> set (piece_format p)"
proof (cases p)
  case (Number width i)
  have "\<not> is_digit (CHR 0x00)" by code_simp
  then show ?thesis using Number to_string_nat_digits by auto
qed (simp_all add: message_ok_def)

lemma c_str_plain: "CHR 0x00 \<notin> set s \<Longrightarrow> c_str s = s"
  unfolding c_str_def by (intro takeWhile_eq_all_conv [THEN iffD2]) auto

interpretation level_map: cmp_order "\<lambda>_. True" level_less "(<)"
  by unfold_locales (auto simp: level_less_def)

lemma assign_levels_eq:
  assumes "level_map.map_ok m"
  shows "\<exists>m'. assign_levels xs m = Inr m' \<and> level_map.map_ok m' \<and> map_of m' = map_of m ++ map_of (rev xs)"
  using assms
proof (induction xs arbitrary: m)
  case (Cons x xs)
  obtain m1 where m1: "map_assign level_less (fst x) (snd x) m = Inr m1" "level_map.map_ok m1" "map_of m1 = (map_of m)(fst x \<mapsto> snd x)"
    using level_map.assign_eq [OF Cons.prems, of "fst x" "snd x"] by auto
  then have eq: "map_of m1 ++ map_of (rev xs) = map_of m ++ map_of (rev (x # xs))"
    by (intro ext) (auto simp: map_add_def split: option.splits)
  obtain m' where "assign_levels xs m1 = Inr m'" "level_map.map_ok m'" "map_of m' = map_of m1 ++ map_of (rev xs)"
    using Cons.IH [OF m1(2)] by blast
  then show ?case unfolding eq using m1(1) by (cases x) (simp del: map_of_append)
qed simp

definition logger_ok :: "bool \<Rightarrow> logger \<Rightarrow> bool" where
  "logger_ok isatty lg \<longleftrightarrow> (\<forall>level. level \<noteq> NONE \<longrightarrow> level_at level (lg_prefixes lg) = Inr (level_prefix isatty level) \<and>
     level_at level (lg_suffixes lg) = Inr (if isatty then escape ''0'' else []))"

lemma level_at_eq: "level_map.map_ok m \<Longrightarrow> map_of m level = Some s \<Longrightarrow> level_at level m = Inr s"
  using level_map.find_eq [of m level] by (simp add: level_at_def)

lemma Logger_new_ok: "\<exists>lg. Logger_new isatty level = Inr lg \<and> lg_level lg = level \<and> logger_ok isatty lg"
proof -
  let ?ps = "if isatty
        then [(INFO, CHR 0x0D # escape ''1;32'' @ ''* '' @ escape ''0''),
              (NOTICE, CHR 0x0D # escape ''1;34'' @ ''notice: '' @ escape ''0''),
              (WARNING, CHR 0x0D # escape ''1;33'' @ ''warn: '' @ escape ''0''),
              (ERROR, CHR 0x0D # escape ''1;31'' @ ''error: '' @ escape ''0'')]
        else [(INFO, ''dibibase|info: ''), (NOTICE, ''dibibase|notice: ''), (WARNING, ''dibibase|warn: ''),
              (ERROR, ''dibibase|error: '')]"
  let ?ss = "if isatty
        then [(INFO, escape ''0''), (NOTICE, escape ''0''), (WARNING, escape ''0''), (ERROR, escape ''0'')]
        else [(INFO, []), (NOTICE, []), (WARNING, []), (ERROR, [])]"
  obtain p where p: "assign_levels ?ps [] = Inr p" "level_map.map_ok p" "map_of p = map_of (rev ?ps)"
    using assign_levels_eq [of "[]" ?ps] by auto
  obtain s where s: "assign_levels ?ss [] = Inr s" "level_map.map_ok s" "map_of s = map_of (rev ?ss)"
    using assign_levels_eq [of "[]" ?ss] by auto
  have "map_of p level = Some (level_prefix isatty level)" "map_of s level = Some (if isatty then escape ''0'' else [])"
    if "level \<noteq> NONE" for level
    using that unfolding p(3) s(3) by (cases level; simp)+
  then show ?thesis
    using p(1,2) s(1,2) unfolding Logger_new_def by (simp add: logger_ok_def level_at_eq)
qed

lemma escape_plain: "message_ok (escape ''0'')"
  by (simp add: escape_def message_ok_def)

lemma level_prefix_plain: "message_ok (level_prefix isatty level)"
  by (cases level) (simp_all add: escape_def message_ok_def)

lemma Logger_output_eq:
  assumes "logger_ok isatty lg" "level \<noteq> NONE" "list_all piece_ok ps"
  shows "Logger_output conv lg level (concat (map piece_format ps)) (concat (map piece_args ps)) err =
    Inr (err @ (if level \<le> lg_level lg then log_line isatty level (concat (map piece_text ps)) else []))"
proof -
  let ?p = "level_prefix isatty level" and ?s = "(if isatty then escape ''0'' else []) @ ''\<newline>''"
  let ?f = "concat (map piece_format ps)" and ?a = "map convert (concat (map piece_args ps))"
  have plain: "CHR ''%'' \<notin> set ?p" "CHR 0x00 \<notin> set ?p" "CHR ''%'' \<notin> set ?s" "CHR 0x00 \<notin> set ?s"
    using escape_plain level_prefix_plain [of isatty level] by (auto simp: message_ok_def)
  have "CHR 0x00 \<notin> set ?f" using assms(3) piece_format_no_zero by (auto simp: list_all_iff)
  then have z: "c_str (?p @ ?f @ ?s) = ?p @ ?f @ ?s" using plain(2,4) by (intro c_str_plain) simp
  have "dprintf conv (?p @ ?f @ ?s) ?a = Inr (?p @ concat (map piece_text ps) @ ?s)"
    using dprintf_pieces [OF assms(3), of conv ?s "[]"] plain(3) by (simp add: dprintf_append [OF plain(1)] dprintf_plain)
  then show ?thesis using assms(1,2) z by (simp add: not_less Logger_output_def logger_ok_def log_line_def)
qed

lemma run_log_eq:
  assumes "logger_ok isatty lg" "list_all request_fine rs"
  shows "\<exists>lg'. run_log conv (map call_of rs) lg err = Inr (lg', err @ log_lines isatty (lg_level lg) rs)"
  using assms
proof (induction rs arbitrary: lg err)
  case (Cons r rs)
  show ?case
  proof (cases r)
    case (Message level ps)
    then show ?thesis
      using Cons.IH [OF Cons.prems(1), of "err @ (if level \<le> lg_level lg then log_line isatty level (concat (map piece_text ps)) else [])"]
        Cons.prems Logger_output_eq [OF Cons.prems(1), of level ps]
      by simp
  next
    case (Verbose level)
    have "logger_ok isatty (set_verbosity level lg)" using Cons.prems(1) by (simp add: logger_ok_def set_verbosity_def)
    from Cons.IH [OF this] show ?thesis using Cons.prems(2) Verbose by (simp add: set_verbosity_def)
  qed
qed simp

text \<open>
  Property C40. The log: whatever messages a client logs on the logger it made first, composed of text without percent
  signs and zero characters, strings under \<^verbatim>\<open>%s\<close>, numbers that are an
  \<^verbatim>\<open>int\<close> under \<^verbatim>\<open>%d\<close> with a width or without, and
  \<^verbatim>\<open>%%\<close>, which are the formats the sources use, its error output is the lines of the messages
  whose level the verbosity allowed at the time, in order, each with its arguments in their places, a string up to its
  first zero character, and with the prefix and the suffix of its level.
\<close>

theorem log_calls_written:
  assumes "list_all request_fine rs"
  shows "\<exists>lg lg'. Logger_make isatty level None = Inr (lg, Some lg) \<and>
    run_log conv (map call_of rs) lg err = Inr (lg', err @ log_lines isatty level rs)"
proof -
  obtain lg where lg: "Logger_new isatty level = Inr lg" "lg_level lg = level" "logger_ok isatty lg"
    using Logger_new_ok by blast
  then show ?thesis using run_log_eq [OF lg(3) assms, of conv err] by (simp add: Logger_make_def)
qed

text \<open>The messages of the program and of the configuration of a node.\<close>

definition example_requests :: "log_request list" where
  "example_requests = [Message INFO [Plain ''node '', Text ''n1'', Plain '', from: '', Number 9 (- 5), Plain '', to: '', Number 9 70],
     Verbose ERROR, Message INFO [Plain ''sending to '', Text ''n2''], Message ERROR [Plain ''gRPC Error('', Number 0 14, Plain ''): '', Text ''100%s'']]"

theorem log_calls_written_witness:
  "\<exists>lg lg'. Logger_make False INFO None = Inr (lg, Some lg) \<and>
     run_log (\<lambda>_ _. Inl Undefined_Behaviour)
       [Log INFO ''node %s, from: %9d, to: %9d'' [Str ''n1'', Num (- 5), Num 70], Verbosity ERROR,
        Log INFO ''sending to %s'' [Str ''n2''], Log ERROR ''gRPC Error(%d): %s'' [Num 14, Str ''100%s'']] lg [] =
     Inr (lg', ''dibibase|info: node n1, from:        -5, to:        70\<newline>'' @ ''dibibase|error: gRPC Error(14): 100%s\<newline>'')"
proof -
  have ok: "list_all request_fine example_requests" by (simp add: example_requests_def message_ok_def)
  have calls: "map call_of example_requests =
      [Log INFO ''node %s, from: %9d, to: %9d'' [Str ''n1'', Num (- 5), Num 70], Verbosity ERROR,
       Log INFO ''sending to %s'' [Str ''n2''], Log ERROR ''gRPC Error(%d): %s'' [Num 14, Str ''100%s'']]" by code_simp
  have lines: "log_lines False INFO example_requests =
      ''dibibase|info: node n1, from:        -5, to:        70\<newline>'' @ ''dibibase|error: gRPC Error(14): 100%s\<newline>''" by code_simp
  show ?thesis
    using log_calls_written [OF ok, of False INFO "\<lambda>_ _. Inl Undefined_Behaviour" "[]"] unfolding calls lines by simp
qed

text \<open>What the program \<^verbatim>\<open>src/logger.cc\<close> writes when its error output is not a terminal.\<close>

definition program_requests :: "log_request list" where
  "program_requests =
     (let say = \<lambda>level s. Message level [Plain s] in
      [say INFO ''This is an info message.'', say NOTICE ''This is an notice message.'',
       say WARNING ''This is an warning message.'', say ERROR ''This is an error message.'',
       Verbose WARNING,
       say INFO ''This should not appear.'', say NOTICE ''This should not appear.'',
       say WARNING ''This should appear as warning.'', say ERROR ''This should appear as error.'',
       Verbose NONE,
       say INFO ''This should not appear.'', say NOTICE ''This should not appear.'',
       say WARNING ''This should not appear.'', say ERROR ''This should not appear.''])"

theorem logger_main_written:
  "\<exists>lg. logger_main conv False [] = Inr (lg,
     ''dibibase|info: This is an info message.\<newline>'' @ ''dibibase|notice: This is an notice message.\<newline>'' @
     ''dibibase|warn: This is an warning message.\<newline>'' @ ''dibibase|error: This is an error message.\<newline>'' @
     ''dibibase|warn: This should appear as warning.\<newline>'' @ ''dibibase|error: This should appear as error.\<newline>'')"
proof -
  have ok: "list_all request_fine program_requests" by (simp add: program_requests_def message_ok_def)
  have calls: "logger_program = map call_of program_requests" by code_simp
  obtain lg where lg: "Logger_new False INFO = Inr lg" "lg_level lg = INFO" "logger_ok False lg" using Logger_new_ok by blast
  from run_log_eq [OF lg(3) ok, of conv "[]"] lg(1,2) show ?thesis
    by (auto simp: logger_main_def Logger_make_def calls program_requests_def log_line_def less_eq_log_level_def)
qed

text \<open>
  A value with a directive in a failed comparison is undefined: \<^verbatim>\<open>assert_eq_m\<close> passes its text as the format.
\<close>

lemma dprintf_undefined: "CHR ''%'' \<notin> set s \<Longrightarrow> dprintf conv (s @ ''%s'' @ t) [] = Inl Undefined_Behaviour"
  by (induction s) (auto simp: is_digit_def)

theorem assert_eq_format:
  assumes "logger_ok isatty lg" "ERROR \<le> lg_level lg" "ele_1 \<noteq> ele_2"
    and "message_ok message" "message_ok (shown ele_2)" "shown ele_1 = ''%s''"
  shows "assert_eq_m conv shown lg ele_1 ele_2 message err = Inl Undefined_Behaviour"
proof -
  let ?u = "level_prefix isatty ERROR @ ''Assertion failed: '' @ message @ ''\<newline>'' @ [CHR 0x09] @ ''Expected: `''"
  let ?v = "''` but got: `'' @ shown ele_2 @ ''`'' @ (if isatty then escape ''0'' else []) @ ''\<newline>''"
  have nz: "CHR 0x00 \<notin> set (?u @ ''%s'' @ ?v)" and np: "CHR ''%'' \<notin> set ?u"
    using assms(4,5) level_prefix_plain [of isatty ERROR] escape_plain by (auto simp: message_ok_def)
  have "dprintf conv (c_str (?u @ ''%s'' @ ?v)) [] = Inl Undefined_Behaviour"
    unfolding c_str_plain [OF nz] by (rule dprintf_undefined [OF np])
  then show ?thesis using assms(1,2,3,6) by (simp add: assert_eq_m_def Logger_output_def logger_ok_def)
qed

end
