(* ===== verification/Spec2Isabelle.thy ===== *)
theory Spec2Isabelle
  imports Dht_Murmur Node_Process Util_Logger
begin

text \<open>
  A verification library for DibiBase, a distributed database that speaks the CQL wire protocol.
  Paths are relative to \<^verbatim>\<open>src/\<close>.

  \<^bold>\<open>The program.\<close> A node stores tables. A \<^emph>\<open>table manager\<close> keeps the latest records of a table in a
  memtable and flushes it into numbered sstables of three files (data, index, summary); a \<^emph>\<open>database\<close> holds the
  tables of a directory and their metadata file. CQL text is parsed by generated code and turned by a \<^emph>\<open>visitor\<close>
  into statements, which a database executes. A cluster of nodes divides the keys among themselves: a
  \<^emph>\<open>partitioner\<close> finds the node of a key, and \<^emph>\<open>query executors\<close> run a statement here or call the node
  that owns it. The \<^emph>\<open>CQL server\<close> takes messages from sockets, has their queries executed and builds the
  answers; an \<^emph>\<open>HTTP endpoint\<close> publishes its metrics.

  \<^bold>\<open>The theories\<close>, in the order in which they build on each other:

  \<^item> \<open>Dibi_Prelude\<close>: the machine types, the errors as values (\<open>error\<close>, \<open>'a result\<close>,
    \<open>bindR\<close>; \<^verbatim>\<open>include/errors.hh\<close>), commands on a state, little-endian bytes, decimal numbers.
  \<^item> \<open>Std_Map\<close>: \<^verbatim>\<open>std::map\<close> as a sorted association list over a comparison that may throw; the locale
    \<open>cmp_order\<close> has the laws of the comparison and the lemmas on \<^verbatim>\<open>find\<close>, \<^verbatim>\<open>insert\<close> and
    \<^verbatim>\<open>operator[]\<close>. It is interpreted for strings, sort keys, HTTP methods and log levels.
  \<^item> \<open>C_Strings\<close>: what the sources use of the C library on strings (\<^verbatim>\<open>atoi\<close>, \<^verbatim>\<open>strtoll\<close>,
    \<^verbatim>\<open>strtold\<close>, case, searching).
  \<^item> \<open>Memory_Buffer\<close>: \<^verbatim>\<open>lib/util/buffer.cc\<close>. Every getter and putter with the cursor and the
    overflow check in 64-bit arithmetic. The locale \<open>codec\<close> is the contract of a pair of functions that
    write and read back a value; it is interpreted for the numbers, strings and blobs here, and for types, data,
    fields, schemas, records, tables, summaries and index pages in the theories that follow.
  \<^item> \<open>Catalog_Data\<close>, \<open>Catalog_Schema\<close>: \<^verbatim>\<open>lib/catalog\<close>. Types, values, their comparison and
    serialisation; fields, schemas, records and tables with sizes, verification and round trips.
  \<^item> \<open>Mem_Summary\<close>, \<open>Db_Index_Page\<close>: \<^verbatim>\<open>lib/mem/summary.cc\<close>, \<^verbatim>\<open>lib/db/index_page.cc\<close>.
  \<^item> \<open>Io_Files\<close>, \<open>Io_Disk_Manager\<close>, \<open>Io_Table_Builder\<close>: a model of the file system calls, and
    \<^verbatim>\<open>lib/io\<close>, which reads and writes sstables.
  \<^item> \<open>Db_Table_Manager\<close>: \<^verbatim>\<open>lib/db/table_manager.cc\<close> and the specification of a table as a map; the
    locale \<open>table_store\<close> is what a client relies on, and the manager with memtable, flushes and files implements it.
  \<^item> \<open>Db_Database\<close>: \<^verbatim>\<open>lib/db/database.cc\<close>. A database refines a map of tables; what survives a restart.
  \<^item> \<open>Lang_Statements\<close>, \<open>Lang_Visitor\<close>: \<^verbatim>\<open>include/lang\<close> and \<^verbatim>\<open>src/lang.cc\<close>. Statements
    and their execution; every visit method over a model of the parse tree with its null pointers.
  \<^item> \<open>Dht_Murmur\<close>: \<^verbatim>\<open>lib/dht/murmur_hash.cc\<close>. The hashes and the inverse.
  \<^item> \<open>Dht_Cluster\<close>: \<^verbatim>\<open>include/dht\<close>, \<^verbatim>\<open>include/config\<close>. The state store, the partitioner, the
    executors, both ends of the remote call, and a network of nodes that the model of the call is instantiated with.
  \<^item> \<open>Api_Http_Message\<close>, \<open>Api_Http_Server\<close>: \<^verbatim>\<open>lib/api/prom_endp\<close>. Messages, the handler table,
    the events of a worker as a step relation with an invariant, the round robin of connections.
  \<^item> \<open>Api_Cql_Result\<close>, \<open>Api_Cql_Metadata\<close>, \<open>Api_Cql_Server\<close>: \<^verbatim>\<open>lib/api/cql3\<close>
    (\<^verbatim>\<open>frame.cc\<close>, \<^verbatim>\<open>query_result.cc\<close>, \<^verbatim>\<open>fake_meta.cc\<close>, \<^verbatim>\<open>server_response.cc\<close>). Frames, the bodies
    of answers, the answers about metadata, and the handler of a message. \<open>emits\<close> is the contract of
    the functions that append to an array, by which an answer is its image.
  \<^item> \<open>Api_Cql_Loop\<close>: \<^verbatim>\<open>server.cc\<close>. The set-up, the events, the metrics; the locale
    \<open>kept_by_steps\<close> carries what one event or round keeps to any number of them, and the reachable states
    are an inductive predicate. \<^verbatim>\<open>src/main.cc\<close>.
  \<^item> \<open>Node_Process\<close>: the process with its threads, interleaved: the main loop, the listener and the workers of the
    endpoint, the streamer service. The handling of a request and of another node's query has a beginning and an end; when the
    main thread changes the table of handlers or uses the keyspaces in between, which no lock prevents, that is a race, and every
    state may follow. A race is shown to be reachable; the invariant, and what a scrape of the metrics is answered, are shown for
    every interleaving without one.
  \<^item> \<open>Util_Logger\<close>: \<^verbatim>\<open>lib/util/logger.cc\<close>, \<^verbatim>\<open>include/util/assert.hh\<close>, \<^verbatim>\<open>src/logger.cc\<close>.

  A class is a record, a method a function on it. An exception, a null pointer dereferenced, an index outside
  an array, a signed overflow and reaching the end of a function without a value are values of \<open>error\<close>, the
  latter four as \<open>Undefined_Behaviour\<close>. Loops are structural recursion or \<open>for_range\<close>; where a loop
  need not end (\<open>load_tables\<close>, \<open>split_loop\<close>) not returning is \<open>None\<close>, and where it does end that is proved.

  \<^bold>\<open>What is shown.\<close> The properties of the manifest, each stated in the text before its theorem: the storage
  refines its specification through flushes and restarts; serialisations round-trip and stay inside their buffers;
  statements and the cluster answer what the specification says; the endpoint and the CQL server keep their
  invariants and answer byte for byte; and the cases in which the code does something else than it means to. This
  theory holds the property that spans the components: a query from the socket to the bytes of its answer.

  \<^bold>\<open>Bounds.\<close> Buffers are shorter than \<open>2 ^ 31\<close> bytes, since the source counts in \<^verbatim>\<open>int\<close>; a key has at most
  2037 bytes, so that an index page holds two entries; there are fewer than \<open>2 ^ 62\<close> sstables, so that the
  64-bit id does not wrap; metadata is shorter than \<open>2 ^ 30\<close> bytes and ids below \<open>2 ^ 32\<close> so that its
  length prefix is right. Each is a hypothesis of the theorems that need it, and the other side is stated where
  the code mishandles it.

  \<^bold>\<open>Parameters\<close> stand for what the repository does not contain or leaves open: the generated parser and base
  visitor, the remote call, the configuration file, what system calls return, measured times, and the contents of
  uninitialised memory (\<open>junk\<close>). The six literal byte tables \<^verbatim>\<open>fake_meta.cc\<close> copies into answers
  about metadata are a parameter too, with their lengths as in the source.

  \<^bold>\<open>Not modelled:\<close> the grammars (input of a parser generator), the gRPC service (calls of that
  library only), what a race does (it is detected, and then nothing is known), the order in which the memory of one
  thread becomes visible to another, a limit on the open descriptors
  (\<^verbatim>\<open>lib/io/disk_manager.cc\<close> opens files and never closes them; in the model an open never
  fails for want of a descriptor), reads outside the key in the hashes (a key is a function of 32-bit indices, and
  that no byte outside the key matters is proved), destructors that only free memory, the demo program
  \<^verbatim>\<open>src/streamer.cc\<close>, the assertion macros, which add a position to a message, and console
  output other than the log and the results of \<^verbatim>\<open>src/lang.cc\<close>.
\<close>

section \<open>From the socket to the answer\<close>

lemma for_range_same:
  assumes "\<And>j. i \<le> j \<Longrightarrow> j < i + int n \<Longrightarrow> f j s = Inr s"
  shows "for_range n i f s = Inr s"
  using assms
proof (induction n arbitrary: i)
  case (Suc n)
  have "for_range n (i + 1) f s = Inr s" using Suc.prems by (intro Suc.IH) simp
  then show ?case using Suc.prems [of i] by simp
qed simp

text \<open>A response whose third byte is not 255 is sent in one piece.\<close>

lemma send_parts_whole:
  assumes "n < length hdr" "2 < length hdr" "hdr ! 2 \<noteq> 255"
  shows "send_parts junk hdr (int n) = Inr [take n hdr]"
proof -
  define step where "step i = (\<lambda>(index, dv). bindR (arr_get i hdr) (\<lambda>b. bindR (arr_get 0 hdr) (\<lambda>b0.
      bindR (if b = b0 then
               bindR (arr_get (i + 1) hdr) (\<lambda>c. bindR (arr_get 1 hdr) (\<lambda>c1.
                 if c = c1 then bindR (arr_get 2 hdr) (\<lambda>d. Inr (if d = 255 then i else index)) else Inr index))
             else Inr index) (\<lambda>index.
        if index \<noteq> 0 then bindR (arr_set (i - index) b dv) (\<lambda>dv. Inr (index, dv)) else Inr (index, dv)))))" for i :: int
  have ne: "hdr \<noteq> []" using assms(2) by auto
  have get: "arr_get i hdr = Inr (hdr ! nat i)" if "0 \<le> i" "i < int (length hdr)" for i
    using that by (simp add: arr_get_def)
  have "step i (0, junk) = Inr (0, junk)" if "0 \<le> i" "i < 0 + int n" for i
    using that assms ne get [of i] get [of "i + 1"] get [of 0] get [of 1] get [of 2] by (simp add: step_def)
  then have "for_range n 0 step (0, junk) = Inr (0, junk)" by (rule for_range_same)
  then show ?thesis by (simp add: send_parts_def step_def [abs_def])
qed

lemma query_body_butlast: "trailer \<noteq> [] \<Longrightarrow> butlast (query_body t trailer) = query_body t (butlast trailer)"
  by (simp add: query_body_def butlast_append)

text \<open>The response to a query of the frame with these first bytes.\<close>

definition result_message :: "byte \<Rightarrow> byte \<Rightarrow> byte \<Rightarrow> byte \<Rightarrow> byte list \<Rightarrow> byte list" where
  "result_message v fl s0 s1 img = [v + 0x80, fl, s0, s1, 8, 0, 0, 0, of_nat (length img)] @ img"

text \<open>The sizes the source declares the arrays of a message with.\<close>

definition junk_sizes :: "junk_arrays \<Rightarrow> bool" where
  "junk_sizes ju \<longleftrightarrow> length (ju_header ju) = 71680 \<and> length (ju_body ju) = 3500"

text \<open>
  Property C5. A short \<^verbatim>\<open>SELECT\<close> from the socket and back. Of the message: it arrives in one
  read of less than 2048 bytes, its first two bytes are not repeated in it, and the high byte of its stream is not
  255. Of its text: fewer than 128 ASCII characters that end with the only semicolon, not beginning with n, r or e
  (which the server takes to be cut off), followed by at least one byte and by no semicolon before the last one; it
  parses as one \<^verbatim>\<open>SELECT\<close>, and the cluster gives its record. Of the record: its values are
  strings without comma and bar and integers that \<^verbatim>\<open>count\<close> can write, from 0 to 16777215 but
  256 and 65536 (the lengths of the strings and the number of columns as well), the columns have types of the protocol
  and names shorter than 65536 but not of 256 characters, like those of the keyspace and the table, and the image of
  the result has at most 3500 bytes. Then the server sends one message on that connection: the result for the same
  stream with the columns of the schema and the values of the record, the length in the header being right up to 255
  bytes. The selection is counted, while the counter is below its greatest value, its time kept, and the database, the
  handlers and the other connections are untouched.
\<close>

theorem select_over_socket:
  assumes "server_inv s" "junk_sizes (ju 0)"
    and "message = [v, fl, s0, s1, 7, l0, l1, l2, l3] @ query_body t trailer" "trailer \<noteq> []" "59 \<notin> set (butlast trailer)"
    and "length message < MAX_MESSAGE_LEN" "starts (message @ drop (length message) (cs_buffer s)) (length message) = [0]"
    and "s0 \<noteq> 255" "query_text t" "visitRoot (ex_visitor ex) (ex_parse ex t) = Inr [Select st]"
    and "QueryProcessor_process ex t (cq_process (cs_cql s)) = Some (Inr str, p')"
    and "ResultSerializer_serialize (Some (map Some ds)) = Inr str"
    and "read_schema (fr_table (sl_from_spec st)) (cq_db (cs_cql s)) = Inr sch"
    and "wire_result (fr_keyspace (sl_from_spec st)) (fr_table (sl_from_spec st)) sch ds"
    and "img = result_image (fr_keyspace (sl_from_spec st)) (fr_table (sl_from_spec st)) sch ds" "length img \<le> 3500"
    and "0 \<le> cq_met (cs_cql s) ! 2" "cq_met (cs_cql s) ! 2 + 1 < 2 ^ 31"
  shows "\<exists>s'. server_event ex tables (Readable fd (Some message) ju micros) s = Some (Running, s') \<and>
    cs_sent s' = cs_sent s @ [(fd, result_message v fl s0 s1 img)] \<and>
    cs_cql s' = (cs_cql s)\<lparr>cq_process := p', cq_met := (cq_met (cs_cql s))[4 := narrow (micros 0 0), 2 := cq_met (cs_cql s) ! 2 + 1]\<rparr> \<and>
    cs_handlers s' = cs_handlers s \<and> cs_polled s' = cs_polled s"
proof -
  let ?c = "cs_cql s" and ?b = "message @ drop (length message) (cs_buffer s)"
  let ?r = "\<lparr>cq_process = cq_process ?c, cq_db = cq_db ?c, cq_met = cq_met ?c,
      rs_header = ju_header (ju 0), rs_body = ju_body (ju 0), rs_msg_length = 9\<rparr>"
  have rcv: "receive (Some message) (cs_buffer s) = (int (length message), ?b)" by (simp add: receive_def)
  obtain f nb where f: "message_indeces ?b (int (length message)) = Inr [0, int (length message) - 1]"
      "next_frame (ju 0) ?b 0 (int (length message) - 1) (cs_new_buffer s) = Inr (f, nb)"
      "fm_version f = v" "fm_flags f = fl" "fm_streamID f = (s0, s1)" "fm_opcode f = 7"
      "frame_bytes f = Inr (butlast (query_body t trailer))"
    using message_framed [OF assms(3) _ assms(6) _ _ rcv assms(7), of "cs_new_buffer s" "ju 0"] assms(1,4)
    by (auto simp: server_inv_def query_body_def be32_def)
  have q: "query_request f t (butlast trailer)"
    using f(6,7) assms(4,5,9) by (simp add: query_request_def query_body_butlast)
  obtain r where r: "CreateResponse ex tables (ju_metadata (ju 0)) (ju_answer (ju 0)) (micros 0) f ?r = Some (Inr (9 + int (length img)), r)"
      "cq_process r = p'" "cq_db r = cq_db ?c" "cq_met r = (cq_met ?c)[4 := narrow (micros 0 0), 2 := cq_met ?c ! 2 + 1]"
      "take (9 + length img) (rs_header r) = result_message v fl s0 s1 img" "length (rs_header r) = 71680"
    using select_answered [OF q assms(10), of ?r str p' ds sch img tables "ju_metadata (ju 0)" "ju_answer (ju 0)" "micros 0"]
      assms(1,2,11-18) f(3-5)
    by (auto simp: server_inv_def junk_sizes_def answer_prefix_def result_message_def)
  have "rs_header r ! 2 = take (9 + length img) (rs_header r) ! 2" using r(6) by simp
  then have "rs_header r ! 2 \<noteq> 255" using assms(8) unfolding r(5) by (simp add: result_message_def)
  from send_parts_whole [OF _ _ this, of "9 + length img" "ju_div (ju 0)"]
  have "send_parts (ju_div (ju 0)) (rs_header r) (9 + int (length img)) = Inr [result_message v fl s0 s1 img]"
    using r(5,6) assms(16) by simp
  then show ?thesis
    using f(1,2) r(1-4) assms(3) rcv
    by (simp add: serve_read_def serve_message_def sending_def bindP_def)
qed

text \<open>A message whose first byte does not occur again is not divided.\<close>

lemma starts_single:
  assumes "a \<notin> set (b # bs)"
  shows "starts ((a # b # bs) @ xs) (length (a # b # bs)) = [0]"
proof -
  have up: "[0..<length (a # b # bs)] = 0 # [1..<length (a # b # bs)]"
    using upt_conv_Cons [of 0 "length (a # b # bs)"] by (simp del: upt_Suc)
  have "((a # b # bs) @ xs) ! i \<noteq> a" if i: "i \<in> set [1..<length (a # b # bs)]" for i
  proof -
    obtain j where j: "i = Suc j" "j < length (b # bs)"
      using i unfolding set_upt by (metis One_nat_def Suc_le_D Suc_less_eq atLeastLessThan_iff length_Cons)
    then have "((a # b # bs) @ xs) ! i = (b # bs) ! j" using nth_append [of "b # bs" xs j] by simp
    then show ?thesis using assms nth_mem [OF j(2)] by metis
  qed
  then have "filter (\<lambda>i. ((a # b # bs) @ xs) ! i = a \<and> ((a # b # bs) @ xs) ! Suc i = b) [1..<length (a # b # bs)] = []"
    by (intro filter_False) blast
  then show ?thesis unfolding starts_def up by simp
qed

definition example_message :: "byte list" where
  "example_message = [3, 0, 0, 7, 7, 0, 0, 0, 37] @ query_body ''SELECT * FROM t WHERE id = 42;'' [0, 1, 0]"

definition example_junk :: "int \<Rightarrow> junk_arrays" where
  "example_junk = (\<lambda>_. \<lparr>ju_flags = 0, ju_opcode = 0, ju_header = replicate 71680 0, ju_body = replicate 3500 0,
     ju_metadata = [], ju_answer = [], ju_div = []\<rparr>)"

theorem select_over_socket_witness:
  "\<exists>s'. server_event answering_externals zero_tables (Readable 7 (Some example_message) example_junk (\<lambda>_ _. 12)) example_server =
      Some (Running, s') \<and>
    cs_sent s' = [(7, result_message 3 0 0 7 (result_image '''' ''t'' example_schema [IntData 42, ASCIIData ''ada'']))] \<and>
    cq_met (cs_cql s') = [1, 2, 4, 4, 12, 0, 0, 8]"
proof -
  let ?t = "''SELECT * FROM t WHERE id = 42;''" and ?img = "result_image '''' ''t'' example_schema [IntData 42, ASCIIData ''ada'']"
  have s: "fr_keyspace (sl_from_spec example_visited_select) = ''''" "fr_table (sl_from_spec example_visited_select) = ''t''"
    by (simp_all add: example_visited_select_def example_select_def SelectStatement_new_def)
  have len: "length ?img = 50"
    by (simp add: result_image_def columns_image_def text_enc_def field_enc_def example_schema_def)
  have str: "ResultSerializer_serialize (Some (map Some [IntData 42, ASCIIData ''ada''])) = Inr ''42,5,4|ada,0,3|''" by code_simp
  have sch: "read_schema ''t'' example_db = Inr example_schema"
    by (simp add: read_schema_def example_db_def TableManager_new_def string_less_def)
  have wire: "wire_result '''' ''t'' example_schema [IntData 42, ASCIIData ''ada'']"
    by (simp add: wire_result_def text_ok_def countable_def wire_field_def example_schema_def)
  have query: "query_text ?t" using example_query_request by (simp add: query_request_def)
  have mlen: "length example_message = 46" by (simp add: example_message_def query_body_def be32_def)
  obtain bs where bs: "example_message = 3 # 0 # bs" "3 \<notin> set (0 # bs)"
    by (simp add: example_message_def query_body_def be32_def)
  have starts: "starts (example_message @ drop (length example_message) (cs_buffer example_server)) (length example_message) = [0]"
    using starts_single [OF bs(2), of "drop (length example_message) (cs_buffer example_server)"] unfolding bs(1) .
  have c: "cs_cql example_server = \<lparr>cq_process = example_node ''n1'' (), cq_db = example_db, cq_met = [1, 2, 3, 4, 5, 0, 0, 8]\<rparr>"
      "cs_sent example_server = []"
    by (simp_all add: example_server_def)
  have junk: "junk_sizes (example_junk 0)" by (simp add: junk_sizes_def example_junk_def)
  show ?thesis
    using select_over_socket [where ju = example_junk, OF example_server_inv junk example_message_def _ _ _ starts _ query answering_select(1), of "''42,5,4|ada,0,3|''"
        "example_node ''n1'' ()" "[IntData 42, ASCIIData ''ada'']" example_schema ?img zero_tables 7 "\<lambda>_ _. 12"]
      answering_select(2) str sch wire len mlen s c
    by (auto simp: MAX_MESSAGE_LEN_def narrow_def)
qed

end
